(* ===== verification/Prelude.thy ===== *)
theory Prelude
  imports Main "HOL-Library.Word" "HOL-Library.Finite_Map" "HOL-Library.Multiset"
begin

text \<open>
  Shared vocabulary of the development: the machine types of the Go sources, the
  encoders of Go's \<open>encoding/binary\<close> package, Go's truncating \<open>copy\<close> into a buffer of a
  fixed size, and the generic facts on lists and words that the component theories use.

  Conventions.  A Go array \<open>[32]byte\<close> and a Go slice \<open>[]byte\<close> are both \<open>bytes\<close>; where the
  fixed length matters it is stated by a well-formedness predicate.  \<open>uint64\<close> and \<open>int64\<close>
  are 64-bit words (read with \<open>unat\<close> and \<open>sint\<close>), so that \<open>+\<close> and \<open>-\<close> wrap as in Go.
  A function that returns an \<open>error\<close> returns a sum whose \<open>Inl\<close> side is the error.
\<close>

unbundle bit_operations_syntax

type_synonym byte = "8 word"
type_synonym bytes = "byte list"
type_synonym hash = bytes
type_synonym u32 = "32 word"
type_synonym u64 = "64 word"
type_synonym i64 = "64 word"

text \<open>A string literal converted to bytes, \<open>[]byte("...")\<close>.\<close>

definition go_string :: "string \<Rightarrow> bytes" where
  "go_string s = map of_char s"

named_theorems len_simps \<open>lengths of encodings\<close>
named_theorems codec_simps \<open>round-trip laws of the primitive encoders\<close>

section \<open>Little and big endian encodings\<close>

text \<open>\<open>PutUint32\<close>/\<open>PutUint64\<close> of \<open>binary.LittleEndian\<close> write the low byte first.\<close>

fun le_bytes :: "nat \<Rightarrow> nat \<Rightarrow> bytes" where
  "le_bytes 0 n = []"
| "le_bytes (Suc k) n = word_of_nat n # le_bytes k (n div 256)"

fun le_nat :: "bytes \<Rightarrow> nat" where
  "le_nat [] = 0"
| "le_nat (b # bs) = unat b + 256 * le_nat bs"

definition PutUint16 :: "16 word \<Rightarrow> bytes" where
  "PutUint16 w = le_bytes 2 (unat w)"

definition PutUint32 :: "u32 \<Rightarrow> bytes" where
  "PutUint32 w = le_bytes 4 (unat w)"

definition PutUint64 :: "u64 \<Rightarrow> bytes" where
  "PutUint64 w = le_bytes 8 (unat w)"

definition Uint32 :: "bytes \<Rightarrow> u32" where
  "Uint32 bs = word_of_nat (le_nat (take 4 bs))"

definition Uint64 :: "bytes \<Rightarrow> u64" where
  "Uint64 bs = word_of_nat (le_nat (take 8 bs))"

text \<open>\<open>binary.BigEndian\<close>, which the storage keys use.\<close>

definition BE_PutUint32 :: "u32 \<Rightarrow> bytes" where
  "BE_PutUint32 w = rev (PutUint32 w)"

definition BE_PutUint64 :: "u64 \<Rightarrow> bytes" where
  "BE_PutUint64 w = rev (PutUint64 w)"

definition BE_Uint64 :: "bytes \<Rightarrow> u64" where
  "BE_Uint64 bs = Uint64 (rev (take 8 bs))"

lemma unat_bound: "unat (w :: 'a::len word) < 2 ^ LENGTH('a)"
  by (rule unsigned_less)

lemma length_le_bytes [simp, len_simps]: "length (le_bytes k n) = k"
  by (induction k arbitrary: n) auto

lemma length_Put [simp, len_simps]:
  "length (PutUint16 v) = 2" "length (PutUint32 w) = 4" "length (PutUint64 x) = 8"
  "length (BE_PutUint32 w) = 4" "length (BE_PutUint64 x) = 8"
  by (simp_all add: PutUint16_def PutUint32_def PutUint64_def BE_PutUint32_def BE_PutUint64_def)

lemma le_nat_le_bytes: "le_nat (le_bytes k n) = n mod 256 ^ k"
proof (induction k arbitrary: n)
  case 0
  then show ?case by simp
next
  case (Suc k)
  have "le_nat (le_bytes (Suc k) n) = n mod 256 + 256 * ((n div 256) mod 256 ^ k)"
    by (simp add: Suc.IH unat_of_nat)
  also have "\<dots> = n mod (256 * 256 ^ k)"
    by (simp add: mod_mult2_eq)
  finally show ?case by simp
qed

lemma le_bytes_le_nat: "le_bytes (length bs) (le_nat bs) = bs"
proof (induction bs)
  case Nil
  then show ?case by simp
next
  case (Cons b bs)
  have lt: "unat b < 256" using unat_bound [of b] by simp
  have z: "(256 :: byte) = 0" by simp
  have "word_of_nat (unat b + 256 * le_nat bs) = b"
    by (simp add: z)
  with Cons lt show ?case by simp
qed

lemma le_bytes_inverse: "length bs = k \<Longrightarrow> le_bytes k (le_nat bs) = bs"
  using le_bytes_le_nat by auto

lemma le_nat_less: "le_nat bs < 256 ^ length bs"
proof (induction bs)
  case (Cons b bs)
  have "unat b < 256" using unat_bound [of b] by simp
  with Cons show ?case by simp
qed simp

lemma Uint_Put [simp, codec_simps]:
  "Uint32 (PutUint32 w @ rest) = w" "Uint64 (PutUint64 x @ rest) = x"
  "Uint32 (PutUint32 w) = w" "Uint64 (PutUint64 x) = x"
  using unat_bound [of w] unat_bound [of x]
  by (simp_all add: Uint32_def Uint64_def PutUint32_def PutUint64_def le_nat_le_bytes)

lemma Put_Uint32 [codec_simps]: "4 \<le> length bs \<Longrightarrow> PutUint32 (Uint32 bs) = take 4 bs"
  using le_nat_less [of "take 4 bs"]
  by (simp add: PutUint32_def Uint32_def unat_of_nat le_bytes_inverse)

lemma Put_Uint64 [codec_simps]: "8 \<le> length bs \<Longrightarrow> PutUint64 (Uint64 bs) = take 8 bs"
  using le_nat_less [of "take 8 bs"]
  by (simp add: PutUint64_def Uint64_def unat_of_nat le_bytes_inverse)

lemma BE_roundtrip [simp, codec_simps]: "BE_Uint64 (BE_PutUint64 x) = x"
  by (simp add: BE_Uint64_def BE_PutUint64_def)

lemma BE_PutUint64_inject [simp]: "BE_PutUint64 x = BE_PutUint64 y \<longleftrightarrow> x = y"
  by (metis BE_roundtrip)

lemma BE_PutUint32_inject [simp]: "BE_PutUint32 x = BE_PutUint32 y \<longleftrightarrow> x = y"
  by (metis BE_PutUint32_def Uint_Put(3) rev_is_rev_conv)

section \<open>Writing into a buffer of a fixed size\<close>

text \<open>
  The serialisers allocate \<open>buf := make([]byte, size)\<close> and then write field after field at
  a running offset.  \<open>copy(buf[off:], x)\<close> writes as many bytes of \<open>x\<close> as fit and never
  fails while \<open>off \<le> len(buf)\<close>; the slice expression \<open>buf[off:]\<close> panics when
  \<open>off > len(buf)\<close>; \<open>PutUint32(buf[off:], w)\<close> panics when fewer than four bytes are left.
  A panic is \<open>None\<close>.  The unwritten tail of the buffer keeps its zero bytes.
\<close>

datatype chunk = CopyChunk bytes | PutChunk bytes

fun chunk_data :: "chunk \<Rightarrow> bytes" where
  "chunk_data (CopyChunk bs) = bs"
| "chunk_data (PutChunk bs) = bs"

text \<open>\<open>fill_buf room cs\<close>: the last \<open>room\<close> bytes of the buffer after the writes \<open>cs\<close>; a
  \<open>CopyChunk\<close> that does not fit leaves \<open>off\<close> beyond the end, which the next write turns
  into a panic.\<close>

fun fill_buf :: "nat \<Rightarrow> chunk list \<Rightarrow> bytes option" where
  "fill_buf room [] = Some (replicate room 0)"
| "fill_buf room (CopyChunk bs # cs) =
     (if length bs \<le> room
      then map_option ((@) bs) (fill_buf (room - length bs) cs)
      else if cs = [] then Some (take room bs) else None)"
| "fill_buf room (PutChunk bs # cs) =
     (if length bs \<le> room
      then map_option ((@) bs) (fill_buf (room - length bs) cs)
      else None)"

lemma fill_buf_exact:
  "sum_list (map (length \<circ> chunk_data) cs) = room
   \<Longrightarrow> fill_buf room cs = Some (concat (map chunk_data cs))"
  by (induction room cs rule: fill_buf.induct) auto

section \<open>Lists and words\<close>

lemma append_take_drop_cong: "bs = take n bs @ xs \<Longrightarrow> drop n bs = xs"
  by (metis append_take_drop_id same_append_eq)

lemma unat_add_no_wrap:
  fixes x y :: "'a::len word"
  assumes "unat x + unat y < 2 ^ LENGTH('a)"
  shows "unat (x + y) = unat x + unat y"
  using assms by (simp add: unat_word_ariths)

lemma unat_Suc_less:
  fixes x y :: "'a::len word"
  assumes "x < y"
  shows "unat (x + 1) = Suc (unat x)"
proof -
  have "unat x < unat y" using assms by (simp add: word_less_nat_alt)
  with unat_bound [of y] have "Suc (unat x) < 2 ^ LENGTH('a)" by linarith
  then show ?thesis by (simp add: unat_word_ariths)
qed

text \<open>Signed readings of 64-bit words.\<close>

lemma sint_small: "unat w < 2 ^ 63 \<Longrightarrow> sint w = int (unat w)" for w :: i64
proof -
  assume "unat w < 2 ^ 63"
  then have small: "uint w < 2 ^ 63"
    by (metis of_nat_less_iff of_nat_numeral of_nat_power uint_nat)
  have "sint w = signed_take_bit 63 (uint w)" using sint_uint [of w] by simp
  also have "\<dots> = uint w"
    by (rule signed_take_bit_int_eq_self) (use small in \<open>auto intro: order_trans [OF _ uint_ge_0]\<close>)
  finally show ?thesis by (simp only: uint_nat)
qed

lemma unat_sint: "0 \<le> sint w \<Longrightarrow> int (unat w) = sint w" for w :: i64
proof -
  assume pos: "0 \<le> sint w"
  have "uint w = take_bit 64 (sint w)" using uint_sint [of w] by simp
  also have "\<dots> = sint w"
    by (rule take_bit_int_eq_self) (use pos sint_lt [of w] in auto)
  finally show ?thesis by (simp only: uint_nat)
qed

end
