(* ===== verification/Crypto.thy ===== *)
theory Crypto
  imports Prelude
begin

text \<open>
  The Go side of the cryptographic layer (\<open>src/crypto.go\<close>) and the proof-of-work target
  arithmetic of \<open>src/crypto-rs/src/pow.rs\<close>.

  The curve, Bulletproof, CLSAG and Argon2id code behind the C interface rests on external
  crates; each foreign function that the Go code calls is a field of the record \<open>crypto\<close>, an
  argument of every definition that needs it, and nothing is assumed of these fields.  The
  result code of a C call is read as the Go wrapper reads it: \<open>None\<close> (or \<open>False\<close>) for
  a failure code.  SHA3-256 is a field as well, so the development holds for every hash
  function of that type.
\<close>

record crypto =
  sha3_Sum256 :: "bytes \<Rightarrow> hash"
  blocknet_pedersen_commit_with_blinding :: "u64 \<Rightarrow> bytes \<Rightarrow> bytes option"
  blocknet_commitment_add :: "bytes \<Rightarrow> bytes \<Rightarrow> bytes option"
  blocknet_commitment_sub :: "bytes \<Rightarrow> bytes \<Rightarrow> bytes option"
  blocknet_commitment_is_zero :: "bytes \<Rightarrow> bool"
  blocknet_fee_commitment :: "u64 \<Rightarrow> bytes option"
  blocknet_range_proof_verify :: "bytes \<Rightarrow> bytes \<Rightarrow> bool"
  blocknet_ringct_verify :: "bytes \<Rightarrow> bytes \<Rightarrow> nat \<Rightarrow> bytes \<Rightarrow> bytes \<Rightarrow> bool"
  blocknet_pow_hash :: "bytes \<Rightarrow> u64 \<Rightarrow> bytes option"

datatype crypto_error =
    CommitFailed | CommitmentAddFailed | CommitmentSubFailed | FeeCommitmentFailed
  | RangeProofEmpty | RangeProofInvalid
  | RingEmpty | RingLengthMismatch | RingSizeMismatch | MessageEmpty | SignatureEmpty
  | RingCTInvalid | RingSizeNotPositive | BadSignatureLength nat nat
  | PowHashFailed

text \<open>SHA3-256 returns a \<open>[32]byte\<close>: the hypothesis \<open>sha3_32\<close>.  The instance \<open>sample_crypto\<close> is
  only used to evaluate definitions on concrete inputs.\<close>

definition sha3_32 :: "crypto \<Rightarrow> bool" where
  "sha3_32 C \<longleftrightarrow> (\<forall>bs. length (sha3_Sum256 C bs) = 32)"

lemma sha3_len: "sha3_32 C \<Longrightarrow> length (sha3_Sum256 C bs) = 32"
  by (simp add: sha3_32_def)

definition sample_crypto :: crypto where
  "sample_crypto = \<lparr>sha3_Sum256 = (\<lambda>bs. take 32 (bs @ replicate 32 0)),
     blocknet_pedersen_commit_with_blinding = (\<lambda>v b. Some b),
     blocknet_commitment_add = (\<lambda>a b. Some a), blocknet_commitment_sub = (\<lambda>a b. Some a),
     blocknet_commitment_is_zero = (\<lambda>a. True), blocknet_fee_commitment = (\<lambda>f. Some []),
     blocknet_range_proof_verify = (\<lambda>p c. True), blocknet_ringct_verify = (\<lambda>k c n s m. True),
     blocknet_pow_hash = (\<lambda>h n. Some h)\<rparr>"

lemma sample_crypto_sha3: "sha3_32 sample_crypto"
  by (auto simp: sha3_32_def sample_crypto_def min_def)

text \<open>\<open>src/wallet\<close> and the node share one fixed ring size.\<close>

definition RingSize :: nat where
  "RingSize = 16"

section \<open>Commitments and proofs\<close>

definition CreatePedersenCommitmentWithBlinding ::
  "crypto \<Rightarrow> u64 \<Rightarrow> bytes \<Rightarrow> crypto_error + bytes" where
  "CreatePedersenCommitmentWithBlinding C value blinding =
     (case blocknet_pedersen_commit_with_blinding C value blinding of
        None \<Rightarrow> Inl CommitFailed | Some c \<Rightarrow> Inr c)"

definition CommitmentAdd :: "crypto \<Rightarrow> bytes \<Rightarrow> bytes \<Rightarrow> crypto_error + bytes" where
  "CommitmentAdd C c1 c2 =
     (case blocknet_commitment_add C c1 c2 of
        None \<Rightarrow> Inl CommitmentAddFailed | Some c \<Rightarrow> Inr c)"

definition CommitmentSub :: "crypto \<Rightarrow> bytes \<Rightarrow> bytes \<Rightarrow> crypto_error + bytes" where
  "CommitmentSub C c1 c2 =
     (case blocknet_commitment_sub C c1 c2 of
        None \<Rightarrow> Inl CommitmentSubFailed | Some c \<Rightarrow> Inr c)"

definition CommitmentIsZero :: "crypto \<Rightarrow> bytes \<Rightarrow> bool" where
  "CommitmentIsZero C c = blocknet_commitment_is_zero C c"

definition CreateFeeCommitment :: "crypto \<Rightarrow> u64 \<Rightarrow> crypto_error + bytes" where
  "CreateFeeCommitment C fee =
     (case blocknet_fee_commitment C fee of
        None \<Rightarrow> Inl FeeCommitmentFailed | Some c \<Rightarrow> Inr c)"

definition VerifyRangeProof :: "crypto \<Rightarrow> bytes \<Rightarrow> bytes \<Rightarrow> crypto_error + unit" where
  "VerifyRangeProof C commitment proof_bytes =
     (if proof_bytes = [] then Inl RangeProofEmpty
      else if \<not> blocknet_range_proof_verify C commitment proof_bytes then Inl RangeProofInvalid
      else Inr ())"

section \<open>RingCT signatures\<close>

record RingCTSignature =
  Signature :: bytes
  SigRingSize :: nat

definition VerifyRingCT ::
  "crypto \<Rightarrow> hash list \<Rightarrow> hash list \<Rightarrow> bytes \<Rightarrow> RingCTSignature \<Rightarrow> crypto_error + unit" where
  "VerifyRingCT C ringKeys ringCommitments message sig =
     (let ringSize = length ringKeys in
      if ringSize = 0 then Inl RingEmpty
      else if ringSize \<noteq> length ringCommitments then Inl RingLengthMismatch
      else if ringSize \<noteq> SigRingSize sig then Inl RingSizeMismatch
      else if message = [] then Inl MessageEmpty
      else if Signature sig = [] then Inl SignatureEmpty
      else if \<not> blocknet_ringct_verify C (concat ringKeys) (concat ringCommitments) ringSize
                 message (Signature sig)
      then Inl RingCTInvalid
      else Inr ())"

definition ExtractRingCTBinding :: "RingCTSignature \<Rightarrow> crypto_error + (hash \<times> hash)" where
  "ExtractRingCTBinding sig =
     (if SigRingSize sig = 0 then Inl RingSizeNotPositive
      else let n = SigRingSize sig; expectedLen = 32 + n * 32 + n * 32 + 32 + 32 in
        if length (Signature sig) \<noteq> expectedLen
        then Inl (BadSignatureLength (length (Signature sig)) expectedLen)
        else let kiOffset = 32 + n * 32 + n * 32 in
          Inr (take 32 (drop kiOffset (Signature sig)),
               take 32 (drop (kiOffset + 32) (Signature sig))))"

lemma ExtractRingCTBinding_lengths:
  "ExtractRingCTBinding sig = Inr (ki, po) \<Longrightarrow> length ki = 32 \<and> length po = 32"
  by (auto simp: ExtractRingCTBinding_def Let_def split: if_splits)

section \<open>Proof of work\<close>

definition PowHash :: "crypto \<Rightarrow> bytes \<Rightarrow> u64 \<Rightarrow> crypto_error + bytes" where
  "PowHash C header nonce =
     (case blocknet_pow_hash C header nonce of
        None \<Rightarrow> Inl PowHashFailed | Some h \<Rightarrow> Inr h)"

text \<open>\<open>blocknet_pow_check_target\<close>: a byte-wise comparison from the most significant byte.\<close>

fun blocknet_pow_check_target :: "bytes \<Rightarrow> bytes \<Rightarrow> bool" where
  "blocknet_pow_check_target (h # hs) (t # ts) =
     (if h < t then True else if t < h then False else blocknet_pow_check_target hs ts)"
| "blocknet_pow_check_target _ _ = True"

definition PowCheckTarget :: "bytes \<Rightarrow> bytes \<Rightarrow> bool" where
  "PowCheckTarget hash target = blocknet_pow_check_target hash target"

text \<open>
  \<open>blocknet_difficulty_to_target\<close>: long division of \<open>2 ^ 256 - 1\<close>, held as four 64-bit
  limbs, by the difficulty, with a 128-bit accumulator.  A difficulty of zero leaves the
  caller's zero array untouched.
\<close>

fun div_limbs :: "nat \<Rightarrow> nat \<Rightarrow> u64 list \<Rightarrow> u64 list" where
  "div_limbs divisor r [] = []"
| "div_limbs divisor r (limb # limbs) =
     (let cur = (r * 2 ^ 64) mod 2 ^ 128 + unat limb
      in word_of_nat (cur div divisor) # div_limbs divisor (cur mod divisor) limbs)"

definition max_limbs :: "u64 list" where
  "max_limbs = [18446744073709551615, 18446744073709551615,
                18446744073709551615, 18446744073709551615]"

definition DifficultyToTarget :: "u64 \<Rightarrow> bytes" where
  "DifficultyToTarget difficulty =
     (if difficulty = 0 then replicate 32 0
      else concat (map BE_PutUint64 (div_limbs (unat difficulty) 0 max_limbs)))"

text \<open>The number a big-endian byte string stands for.\<close>

definition be_nat :: "bytes \<Rightarrow> nat" where
  "be_nat bs = le_nat (rev bs)"

lemma le_nat_append: "le_nat (xs @ ys) = le_nat xs + 256 ^ length xs * le_nat ys"
  by (induction xs) (auto simp: algebra_simps)

lemma be_nat_Cons: "be_nat (b # bs) = unat b * 256 ^ length bs + be_nat bs"
  by (simp add: be_nat_def le_nat_append)

lemma be_nat_append: "be_nat (xs @ ys) = be_nat xs * 256 ^ length ys + be_nat ys"
  by (simp add: be_nat_def le_nat_append)

lemma be_nat_less: "be_nat bs < 256 ^ length bs"
  using le_nat_less [of "rev bs"] by (simp add: be_nat_def)

lemma be_nat_BE64: "be_nat (BE_PutUint64 w) = unat w"
  using unat_bound [of w] by (simp add: be_nat_def BE_PutUint64_def PutUint64_def le_nat_le_bytes)

lemma pow_check_target_iff:
  "length hs = length ts \<Longrightarrow> blocknet_pow_check_target hs ts \<longleftrightarrow> be_nat hs \<le> be_nat ts"
proof (induction hs ts rule: list_induct2)
  case (Cons h hs t ts)
  let ?B = "256 ^ length ts :: nat"
  have lt: "be_nat hs < ?B" "be_nat ts < ?B"
    using be_nat_less [of hs] be_nat_less [of ts] Cons.hyps by auto
  have step: "a * ?B + x \<le> b * ?B + y" if "a < b" "x < ?B" for a b x y :: nat
  proof -
    have "a * ?B + x < (a + 1) * ?B" using that by simp
    also have "\<dots> \<le> b * ?B" using that by (intro mult_right_mono) auto
    finally show ?thesis by simp
  qed
  have strict: "\<not> b * ?B + y \<le> a * ?B + x" if "a < b" "x < ?B" for a b x y :: nat
  proof -
    have "a * ?B + x < (a + 1) * ?B" using that by simp
    also have "\<dots> \<le> b * ?B" using that by (intro mult_right_mono) auto
    finally show ?thesis by simp
  qed
  show ?case
    using Cons step [of "unat h" "unat t"] strict [of "unat t" "unat h"] lt
    by (auto simp: be_nat_Cons word_less_nat_alt)
qed simp

text \<open>The long division computes the integer quotient: the loop invariant is that the
  limbs written so far and the remainder represent the part of the numerator read so far.\<close>

definition limbs_nat :: "u64 list \<Rightarrow> nat" where
  "limbs_nat ls = foldl (\<lambda>acc l. acc * 2 ^ 64 + unat l) 0 ls"

lemma foldl_limbs:
  "foldl (\<lambda>acc l. acc * 2 ^ 64 + unat l) a ls = a * 2 ^ (64 * length ls) + limbs_nat ls"
proof (induction ls arbitrary: a)
  case Nil
  then show ?case by (simp add: limbs_nat_def)
next
  case (Cons l ls)
  show ?case
    using Cons [of "a * 2 ^ 64 + unat l"] Cons [of "unat l"]
    by (simp add: limbs_nat_def algebra_simps power_add)
qed

lemma limbs_nat_Cons: "limbs_nat (l # ls) = unat l * 2 ^ (64 * length ls) + limbs_nat ls"
  using foldl_limbs [of "unat l" ls] by (simp add: limbs_nat_def)

lemma length_div_limbs [simp]: "length (div_limbs d r ls) = length ls"
  by (induction ls arbitrary: r) (auto simp: Let_def)

lemma limbs_nat_div_limbs:
  assumes "0 < d" "d \<le> 2 ^ 64" "r < d"
  shows "limbs_nat (div_limbs d r ls) = (r * 2 ^ (64 * length ls) + limbs_nat ls) div d"
  using assms(3)
proof (induction ls arbitrary: r)
  case Nil
  then show ?case by (simp add: limbs_nat_def)
next
  case (Cons l ls)
  let ?B = "2 ^ (64 * length ls) :: nat"
  let ?cur = "r * 2 ^ 64 + unat l"
  have "r < 2 ^ 64" using Cons.prems assms(2) by simp
  then have nomod: "(r * 2 ^ 64) mod 2 ^ 128 = r * 2 ^ 64"
    by simp
  have "unat l < 2 ^ 64" using unat_bound [of l] by simp
  with Cons.prems have "?cur < (r + 1) * 2 ^ 64" by simp
  also have "\<dots> \<le> d * 2 ^ 64" using Cons.prems by (intro mult_right_mono) auto
  finally have q: "?cur div d < 2 ^ 64"
    using assms(1) by (simp add: less_mult_imp_div_less mult.commute)
  have m: "?cur mod d < d" using assms(1) by simp
  have num: "r * 2 ^ (64 * length (l # ls)) + limbs_nat (l # ls)
      = (?cur div d * ?B) * d + (?cur mod d * ?B + limbs_nat ls)"
  proof -
    have "r * 2 ^ (64 * length (l # ls)) + limbs_nat (l # ls) = ?cur * ?B + limbs_nat ls"
      by (simp add: limbs_nat_Cons power_add algebra_simps)
    also have "\<dots> = (?cur div d * d + ?cur mod d) * ?B + limbs_nat ls"
      by simp
    finally show ?thesis by (simp only: algebra_simps)
  qed
  have "limbs_nat (div_limbs d r (l # ls))
      = ?cur div d * ?B + (?cur mod d * ?B + limbs_nat ls) div d"
    unfolding div_limbs.simps Let_def nomod limbs_nat_Cons length_div_limbs Cons.IH [OF m]
    using q by (simp add: unat_of_nat)
  also have "\<dots> = (r * 2 ^ (64 * length (l # ls)) + limbs_nat (l # ls)) div d"
    unfolding num using assms(1) by simp
  finally show ?case .
qed

lemma length_concat_BE64: "length (concat (map BE_PutUint64 ls)) = 8 * length ls"
  by (induction ls) auto

lemma be_nat_concat_BE64: "be_nat (concat (map BE_PutUint64 ls)) = limbs_nat ls"
proof (induction ls)
  case Nil
  then show ?case by (simp add: be_nat_def limbs_nat_def)
next
  case (Cons l ls)
  have "(256::nat) ^ (8 * length ls) = 2 ^ (64 * length ls)"
    by (simp add: power_mult)
  then show ?case
    by (simp add: be_nat_append be_nat_BE64 length_concat_BE64 limbs_nat_Cons Cons.IH)
qed

lemma length_DifficultyToTarget [simp]: "length (DifficultyToTarget d) = 32"
  by (simp add: DifficultyToTarget_def length_concat_BE64) (simp add: max_limbs_def)

lemma be_nat_DifficultyToTarget:
  assumes "d \<noteq> 0"
  shows "be_nat (DifficultyToTarget d) = (2 ^ 256 - 1) div unat d"
proof -
  have "0 < unat d" using assms by (simp add: unat_gt_0)
  moreover have "unat d \<le> 2 ^ 64" using unat_bound [of d] by simp
  moreover have "limbs_nat max_limbs = 2 ^ 256 - 1"
    by (simp add: limbs_nat_def max_limbs_def)
  ultimately show ?thesis
    using assms by (simp add: DifficultyToTarget_def be_nat_concat_BE64 limbs_nat_div_limbs)
qed



end
