(* ===== verification/Transaction.thy ===== *)
theory Transaction
  imports Crypto
begin

text \<open>
  Transactions and their canonical wire format (\<open>src/transaction.go\<close>, and \<open>Size\<close> of
  \<open>src/block.go\<close>): the data types, \<open>Serialize\<close>, \<open>SigningHash\<close>, \<open>TxID\<close> and
  \<open>DeserializeTx\<close>.  The interface between a field's encoder and its decoder is the locale
  \<open>wire_codec\<close>; it is interpreted for 32-byte ring entries, for transaction outputs and for
  transaction inputs, and lists of any of them are handled once, inside the locale.
\<close>

section \<open>Data\<close>

definition MemoSize :: nat where
  "MemoSize = 128"

record TxOutput =
  Commitment :: hash
  PublicKey :: hash
  RangeProof :: bytes
  EncryptedAmount :: bytes
  EncryptedMemo :: bytes

record TxInput =
  KeyImage :: hash
  RingMembers :: "hash list"
  RingCommitments :: "hash list"
  PseudoOutput :: hash
  RingSignature :: bytes

record Transaction =
  TxVersion :: byte
  Inputs :: "TxInput list"
  Outputs :: "TxOutput list"
  Fee :: u64
  TxPublicKey :: hash

definition IsCoinbase :: "Transaction \<Rightarrow> bool" where
  "IsCoinbase tx \<longleftrightarrow> length (Inputs tx) = 0"

section \<open>Serialisation\<close>

definition output_size :: "TxOutput \<Rightarrow> nat" where
  "output_size out = 32 + 32 + 8 + MemoSize + 4 + length (RangeProof out)"

definition input_size :: "TxInput \<Rightarrow> nat" where
  "input_size inp =
     (let ringSize = length (RingMembers inp)
      in 32 + 32 + 4 + ringSize * 32 + ringSize * 32 + 4 + length (RingSignature inp))"

text \<open>\<open>(*Transaction).Size\<close> of \<open>block.go\<close>, which block-size enforcement uses.\<close>

definition Size :: "Transaction \<Rightarrow> nat" where
  "Size tx = 1 + 32 + 4 + 4 + 8
     + sum_list (map output_size (Outputs tx)) + sum_list (map input_size (Inputs tx))"

definition prefix_chunks :: "Transaction \<Rightarrow> chunk list" where
  "prefix_chunks tx =
     [PutChunk [TxVersion tx], CopyChunk (TxPublicKey tx),
      PutChunk (PutUint32 (word_of_nat (length (Inputs tx)))),
      PutChunk (PutUint32 (word_of_nat (length (Outputs tx)))),
      PutChunk (PutUint64 (Fee tx))]"

definition output_chunks :: "TxOutput \<Rightarrow> chunk list" where
  "output_chunks out =
     [CopyChunk (PublicKey out), CopyChunk (Commitment out), CopyChunk (EncryptedAmount out),
      CopyChunk (EncryptedMemo out),
      PutChunk (PutUint32 (word_of_nat (length (RangeProof out)))), CopyChunk (RangeProof out)]"

definition input_chunks :: "TxInput \<Rightarrow> chunk list" where
  "input_chunks inp =
     [CopyChunk (KeyImage inp), CopyChunk (PseudoOutput inp),
      PutChunk (PutUint32 (word_of_nat (length (RingMembers inp))))]
     @ map CopyChunk (RingMembers inp) @ map CopyChunk (RingCommitments inp)
     @ [PutChunk (PutUint32 (word_of_nat (length (RingSignature inp)))),
        CopyChunk (RingSignature inp)]"

text \<open>
  \<open>Serialize\<close> sizes its buffer with the length of \<open>RingMembers\<close> for both ring slices and
  then writes all of \<open>RingCommitments\<close>.  When the two slices differ in length the writes do
  not match the buffer: it panics (\<open>None\<close>), truncates, or leaves zero bytes.
\<close>

definition Serialize :: "Transaction \<Rightarrow> bytes option" where
  "Serialize tx =
     fill_buf (1 + 32 + 4 + 4 + 8
        + sum_list (map output_size (Outputs tx)) + sum_list (map input_size (Inputs tx)))
       (prefix_chunks tx @ concat (map output_chunks (Outputs tx))
        @ concat (map input_chunks (Inputs tx)))"

definition TxID :: "crypto \<Rightarrow> Transaction \<Rightarrow> hash option" where
  "TxID C tx = map_option (sha3_Sum256 C) (Serialize tx)"

text \<open>The signed prefix: everything but the inputs.\<close>

definition signing_prefix :: "Transaction \<Rightarrow> bytes option" where
  "signing_prefix tx =
     fill_buf (1 + 32 + 4 + 4 + 8 + sum_list (map output_size (Outputs tx)))
       (prefix_chunks tx @ concat (map output_chunks (Outputs tx)))"

definition SigningHash :: "crypto \<Rightarrow> Transaction \<Rightarrow> hash option" where
  "SigningHash C tx = map_option (sha3_Sum256 C) (signing_prefix tx)"

section \<open>Parsing\<close>

definition maxInputs :: nat where "maxInputs = 256"
definition maxOutputs :: nat where "maxOutputs = 256"
definition maxRingSize :: nat where "maxRingSize = RingSize"
definition maxProofSize :: nat where "maxProofSize = 1024"
definition maxSigSize :: nat where "maxSigSize = 96 + 64 * RingSize"
definition minHeaderSize :: nat where "minHeaderSize = 1 + 32 + 4 + 4 + 8"

datatype decode_error =
    TooShort nat | TooManyInputs u32 | TooManyOutputs u32
  | OutputTruncated nat | ProofTooLong nat u32 | ProofTruncated nat
  | InputTruncated nat | RingTooLarge nat u32 | RingMembersTruncated nat
  | RingCommitmentsTruncated nat | SigLenTruncated nat | SigTooLong nat u32 | SigTruncated nat
  | TrailingBytes nat

text \<open>The parser keeps \<open>data\<close> and an offset; the model keeps \<open>data[off:]\<close>.  A check
  \<open>off+n > len(data)\<close> is \<open>length rest < n\<close>.\<close>

fun parse_many :: "(nat \<Rightarrow> bytes \<Rightarrow> 'e + ('a \<times> bytes)) \<Rightarrow> nat \<Rightarrow> nat \<Rightarrow> bytes \<Rightarrow> 'e + ('a list \<times> bytes)"
where
  "parse_many p i 0 rest = Inr ([], rest)"
| "parse_many p i (Suc n) rest =
     (case p i rest of Inl e \<Rightarrow> Inl e
      | Inr (x, rest') \<Rightarrow>
          (case parse_many p (Suc i) n rest' of Inl e \<Rightarrow> Inl e
           | Inr (xs, rest'') \<Rightarrow> Inr (x # xs, rest'')))"

fun parse_key :: "nat \<Rightarrow> bytes \<Rightarrow> decode_error + (hash \<times> bytes)" where
  "parse_key i rest = Inr (take 32 rest, drop 32 rest)"

definition parse_output :: "nat \<Rightarrow> bytes \<Rightarrow> decode_error + (TxOutput \<times> bytes)" where
  "parse_output i rest =
     (if length rest < 32 + 32 + 8 + MemoSize + 4 then Inl (OutputTruncated i)
      else let pk = take 32 rest; rest = drop 32 rest;
               cm = take 32 rest; rest = drop 32 rest;
               ea = take 8 rest; rest = drop 8 rest;
               em = take MemoSize rest; rest = drop MemoSize rest;
               proofLen = Uint32 rest; rest = drop 4 rest
        in if maxProofSize < unat proofLen then Inl (ProofTooLong i proofLen)
           else if length rest < unat proofLen then Inl (ProofTruncated i)
           else Inr (\<lparr>Commitment = cm, PublicKey = pk, RangeProof = take (unat proofLen) rest,
                      EncryptedAmount = ea, EncryptedMemo = em\<rparr>, drop (unat proofLen) rest))"

definition parse_input :: "nat \<Rightarrow> bytes \<Rightarrow> decode_error + (TxInput \<times> bytes)" where
  "parse_input i rest =
     (if length rest < 32 + 32 + 4 then Inl (InputTruncated i)
      else let ki = take 32 rest; rest = drop 32 rest;
               po = take 32 rest; rest = drop 32 rest;
               ringSize = Uint32 rest; rest = drop 4 rest;
               needed = unat ringSize * 32
        in if maxRingSize < unat ringSize then Inl (RingTooLarge i ringSize)
           else if length rest < needed then Inl (RingMembersTruncated i)
           else (case parse_many parse_key 0 (unat ringSize) rest of Inl e \<Rightarrow> Inl e
             | Inr (members, rest) \<Rightarrow>
                if length rest < needed then Inl (RingCommitmentsTruncated i)
                else (case parse_many parse_key 0 (unat ringSize) rest of Inl e \<Rightarrow> Inl e
                  | Inr (commitments, rest) \<Rightarrow>
                     if length rest < 4 then Inl (SigLenTruncated i)
                     else let sigLen = Uint32 rest; rest = drop 4 rest
                       in if maxSigSize < unat sigLen then Inl (SigTooLong i sigLen)
                          else if length rest < unat sigLen then Inl (SigTruncated i)
                          else Inr (\<lparr>KeyImage = ki, RingMembers = members,
                                     RingCommitments = commitments, PseudoOutput = po,
                                     RingSignature = take (unat sigLen) rest\<rparr>,
                                    drop (unat sigLen) rest))))"

definition DeserializeTx :: "bytes \<Rightarrow> decode_error + Transaction" where
  "DeserializeTx data =
     (if length data < minHeaderSize then Inl (TooShort (length data))
      else let version = hd data; rest = tl data;
               txPubKey = take 32 rest; rest = drop 32 rest;
               inputCount = Uint32 rest; rest = drop 4 rest
        in if maxInputs < unat inputCount then Inl (TooManyInputs inputCount)
           else let outputCount = Uint32 rest; rest = drop 4 rest
             in if maxOutputs < unat outputCount then Inl (TooManyOutputs outputCount)
                else let fee = Uint64 rest; rest = drop 8 rest
                  in (case parse_many parse_output 0 (unat outputCount) rest of Inl e \<Rightarrow> Inl e
                      | Inr (outputs, rest) \<Rightarrow>
                        (case parse_many parse_input 0 (unat inputCount) rest of Inl e \<Rightarrow> Inl e
                         | Inr (inputs, rest) \<Rightarrow>
                            if rest \<noteq> [] then Inl (TrailingBytes (length rest))
                            else Inr \<lparr>TxVersion = version, Inputs = inputs, Outputs = outputs,
                                      Fee = fee, TxPublicKey = txPubKey\<rparr>)))"

section \<open>Well-formed transactions\<close>

text \<open>What the Go types say of the values (array lengths), \<open>go_*\<close>; and what the parser's
  limits add to it, \<open>wf_*\<close>.\<close>

definition go_output :: "TxOutput \<Rightarrow> bool" where
  "go_output out \<longleftrightarrow> length (Commitment out) = 32 \<and> length (PublicKey out) = 32
     \<and> length (EncryptedAmount out) = 8 \<and> length (EncryptedMemo out) = MemoSize"

definition go_input :: "TxInput \<Rightarrow> bool" where
  "go_input inp \<longleftrightarrow> length (KeyImage inp) = 32 \<and> length (PseudoOutput inp) = 32
     \<and> (\<forall>k \<in> set (RingMembers inp). length k = 32)
     \<and> (\<forall>k \<in> set (RingCommitments inp). length k = 32)"

definition go_tx :: "Transaction \<Rightarrow> bool" where
  "go_tx tx \<longleftrightarrow> length (TxPublicKey tx) = 32
     \<and> list_all go_output (Outputs tx) \<and> list_all go_input (Inputs tx)"

text \<open>Both ring slices of every input have one length, as \<open>Serialize\<close> expects.\<close>

definition rings_aligned :: "Transaction \<Rightarrow> bool" where
  "rings_aligned tx \<longleftrightarrow>
     list_all (\<lambda>inp. length (RingCommitments inp) = length (RingMembers inp)) (Inputs tx)"

definition wf_output :: "TxOutput \<Rightarrow> bool" where
  "wf_output out \<longleftrightarrow> go_output out \<and> length (RangeProof out) \<le> maxProofSize"

definition wf_input :: "TxInput \<Rightarrow> bool" where
  "wf_input inp \<longleftrightarrow> go_input inp
     \<and> length (RingCommitments inp) = length (RingMembers inp)
     \<and> length (RingMembers inp) \<le> maxRingSize
     \<and> length (RingSignature inp) \<le> maxSigSize"

definition wf_tx :: "Transaction \<Rightarrow> bool" where
  "wf_tx tx \<longleftrightarrow> length (TxPublicKey tx) = 32
     \<and> length (Inputs tx) \<le> maxInputs \<and> length (Outputs tx) \<le> maxOutputs
     \<and> list_all wf_output (Outputs tx) \<and> list_all wf_input (Inputs tx)"

lemmas wf_output_defs = wf_output_def go_output_def
lemmas wf_input_defs = wf_input_def go_input_def

lemmas limit_defs = maxInputs_def maxOutputs_def maxRingSize_def maxProofSize_def
  maxSigSize_def minHeaderSize_def MemoSize_def RingSize_def

section \<open>The codec interface\<close>

text \<open>A decoder reads back what the encoder wrote, and leaves what follows
  (\<open>wire_decodes\<close>); a codec is also canonical: whatever decodes is the encoding of its
  result (\<open>wire_codec\<close>).\<close>

locale wire_decodes =
  fixes enc :: "'a \<Rightarrow> bytes"
    and dec :: "nat \<Rightarrow> bytes \<Rightarrow> 'e + ('a \<times> bytes)"
    and ok :: "'a \<Rightarrow> bool"
  assumes dec_enc: "ok x \<Longrightarrow> dec i (enc x @ rest) = Inr (x, rest)"
begin

lemma many_enc:
  "list_all ok xs \<Longrightarrow> length xs = n
   \<Longrightarrow> parse_many dec i n (concat (map enc xs) @ rest) = Inr (xs, rest)"
  by (induction xs arbitrary: i n) (auto simp: dec_enc)

end

locale wire_codec = wire_decodes +
  assumes enc_dec: "dec i bs = Inr (x, rest) \<Longrightarrow> bs = enc x @ rest \<and> ok x"
begin

lemma enc_many:
  "parse_many dec i n bs = Inr (xs, rest)
   \<Longrightarrow> bs = concat (map enc xs) @ rest \<and> list_all ok xs \<and> length xs = n"
proof (induction n arbitrary: i bs xs)
  case 0
  then show ?case by simp
next
  case (Suc n)
  then obtain x rest' ys where d: "dec i bs = Inr (x, rest')"
    and m: "parse_many dec (Suc i) n rest' = Inr (ys, rest)" and xs: "xs = x # ys"
    by (auto split: sum.splits)
  from enc_dec [OF d] Suc.IH [OF m] xs show ?case by simp
qed

end

definition enc_output :: "TxOutput \<Rightarrow> bytes" where
  "enc_output out = concat (map chunk_data (output_chunks out))"

definition enc_input :: "TxInput \<Rightarrow> bytes" where
  "enc_input inp = concat (map chunk_data (input_chunks inp))"

definition enc_prefix :: "Transaction \<Rightarrow> bytes" where
  "enc_prefix tx = concat (map chunk_data (prefix_chunks tx))"

lemma unat_u32_small: "n < 2 ^ 32 \<Longrightarrow> unat (word_of_nat n :: u32) = n"
  by (simp add: unat_of_nat)

lemma u32_unat_le: "unat w \<le> n \<Longrightarrow> n < 2 ^ 32 \<Longrightarrow> word_of_nat (unat w) = (w :: u32)"
  by simp

interpretation key_codec: wire_decodes "\<lambda>k. k" parse_key "\<lambda>k. length k = 32"
  by unfold_locales simp

lemma parse_keys_inv:
  "parse_many parse_key i n bs = Inr (ks, rest) \<Longrightarrow> n * 32 \<le> length bs
   \<Longrightarrow> bs = concat ks @ rest \<and> length ks = n \<and> (\<forall>k \<in> set ks. length k = 32)
     \<and> length bs = n * 32 + length rest"
proof (induction n arbitrary: i bs ks)
  case 0
  then show ?case by simp
next
  case (Suc n)
  have k: "parse_key i bs = Inr (take 32 bs, drop 32 bs)" by simp
  from Suc.prems(1) obtain ys where m: "parse_many parse_key (Suc i) n (drop 32 bs) = Inr (ys, rest)"
    and ks: "ks = take 32 bs # ys"
    by (auto simp: k simp del: parse_key.simps split: sum.splits)
  have len: "n * 32 \<le> length (drop 32 bs)" using Suc.prems(2) by simp
  have IH: "drop 32 bs = concat ys @ rest" "length ys = n" "\<forall>k \<in> set ys. length k = 32"
    "length (drop 32 bs) = n * 32 + length rest"
    using Suc.IH [OF m len] by blast+
  have "bs = take 32 bs @ concat ys @ rest"
    by (metis IH(1) append_take_drop_id)
  moreover have "length bs = Suc n * 32 + length rest"
    using IH(4) Suc.prems(2) by simp
  ultimately show ?case using IH(2,3) Suc.prems(2) ks by simp
qed

lemma parse_keys_total: "\<exists>ks rest. parse_many parse_key i n bs = Inr (ks, rest)"
proof (induction n arbitrary: i bs)
  case (Suc n)
  from Suc.IH [of "Suc i" "drop 32 bs"] show ?case
    by auto
qed simp

lemma output_dec_enc: "wf_output out \<Longrightarrow> parse_output i (enc_output out @ rest) = Inr (out, rest)"
  by (simp add: parse_output_def enc_output_def output_chunks_def wf_output_defs limit_defs
      unat_u32_small)

lemma output_enc_dec:
  assumes "parse_output i bs = Inr (out, rest)"
  shows "bs = enc_output out @ rest \<and> wf_output out"
proof -
  let ?d = "drop 32 (drop 32 bs)"
  let ?e = "drop MemoSize (drop 8 ?d)"
  let ?n = "unat (Uint32 ?e)"
  have len: "32 + 32 + 8 + MemoSize + 4 \<le> length bs" and n: "?n \<le> maxProofSize"
    "?n \<le> length (drop 4 ?e)"
    and out: "out = \<lparr>Commitment = take 32 (drop 32 bs), PublicKey = take 32 bs,
      RangeProof = take ?n (drop 4 ?e), EncryptedAmount = take 8 ?d,
      EncryptedMemo = take MemoSize (drop 8 ?d)\<rparr>" and rest: "rest = drop ?n (drop 4 ?e)"
    using assms by (auto simp: parse_output_def Let_def MemoSize_def split: if_splits)
  have put: "PutUint32 (word_of_nat (length (RangeProof out))) = take 4 ?e"
    using n len by (simp add: out Put_Uint32 MemoSize_def)
  have "bs = take 32 bs @ take 32 (drop 32 bs) @ take 8 ?d @ take MemoSize (drop 8 ?d)
      @ take 4 ?e @ take ?n (drop 4 ?e) @ rest"
    unfolding rest by (simp only: append_take_drop_id)
  then have "bs = enc_output out @ rest"
    unfolding enc_output_def output_chunks_def put [symmetric] by (simp add: out put)
  moreover have "wf_output out"
    using n len by (simp add: wf_output_defs out MemoSize_def)
  ultimately show ?thesis by simp
qed

interpretation output_codec: wire_codec enc_output parse_output wf_output
  by unfold_locales (blast intro: output_dec_enc dest: output_enc_dec)+

lemma concat_chunks_map [simp]: "concat (map chunk_data (map CopyChunk ks)) = concat ks"
  by (induction ks) auto

lemma enc_input_eq:
  "enc_input inp = KeyImage inp @ PseudoOutput inp
     @ PutUint32 (word_of_nat (length (RingMembers inp)))
     @ concat (RingMembers inp) @ concat (RingCommitments inp)
     @ PutUint32 (word_of_nat (length (RingSignature inp))) @ RingSignature inp"
  by (simp add: enc_input_def input_chunks_def comp_def)

lemma length_concat32: "\<forall>k \<in> set ks. length k = 32 \<Longrightarrow> length (concat ks) = 32 * length ks"
  by (induction ks) auto

lemma input_dec_enc:
  assumes "wf_input inp"
  shows "parse_input i (enc_input inp @ rest) = Inr (inp, rest)"
proof -
  let ?n = "length (RingMembers inp)"
  have mem: "list_all (\<lambda>k. length k = 32) (RingMembers inp)"
    and com: "list_all (\<lambda>k. length k = 32) (RingCommitments inp)"
    and lc: "length (RingCommitments inp) = ?n"
    using assms by (simp_all add: wf_input_defs list_all_iff)
  have n: "unat (word_of_nat ?n :: u32) = ?n" "\<not> maxRingSize < ?n"
    using assms by (auto simp: wf_input_defs limit_defs intro: unat_u32_small)
  have sg: "unat (word_of_nat (length (RingSignature inp)) :: u32) = length (RingSignature inp)"
    "\<not> maxSigSize < length (RingSignature inp)"
    using assms by (auto simp: wf_input_defs limit_defs intro: unat_u32_small)
  have lens: "length (concat (RingMembers inp)) = 32 * ?n"
    "length (concat (RingCommitments inp)) = 32 * ?n"
    using assms by (simp_all add: wf_input_defs length_concat32)
  note keys = key_codec.many_enc [where i = 0, OF mem refl, simplified]
    key_codec.many_enc [where i = 0, OF com lc, simplified]
  show ?thesis
    using assms n sg lens
    by (simp add: parse_input_def enc_input_eq wf_input_defs keys)
qed

lemma input_enc_dec:
  assumes "parse_input i bs = Inr (inp, rest)"
  shows "bs = enc_input inp @ rest \<and> wf_input inp"
proof -
  let ?d = "drop 32 (drop 32 bs)"
  let ?n = "unat (Uint32 ?d)"
  obtain ms r1 where ms: "parse_many parse_key 0 ?n (drop 4 ?d) = Inr (ms, r1)"
    using parse_keys_total by blast
  obtain cs r2 where cs: "parse_many parse_key 0 ?n r1 = Inr (cs, r2)"
    using parse_keys_total by blast
  let ?s = "unat (Uint32 r2)"
  have len: "68 \<le> length bs" and n: "?n \<le> maxRingSize" "?n * 32 \<le> length (drop 4 ?d)"
    "?n * 32 \<le> length r1" and s: "4 \<le> length r2" "?s \<le> maxSigSize" "?s \<le> length (drop 4 r2)"
    and inp: "inp = \<lparr>KeyImage = take 32 bs, RingMembers = ms, RingCommitments = cs,
      PseudoOutput = take 32 (drop 32 bs), RingSignature = take ?s (drop 4 r2)\<rparr>"
    and rest: "rest = drop ?s (drop 4 r2)"
    using assms ms cs by (auto simp: parse_input_def Let_def split: if_splits)
  note km = parse_keys_inv [OF ms n(2)] and kc = parse_keys_inv [OF cs n(3)]
  have put: "PutUint32 (word_of_nat (length ms)) = take 4 ?d"
    "PutUint32 (word_of_nat (length (RingSignature inp))) = take 4 r2"
    using km len s by (simp_all add: inp Put_Uint32)
  have "r2 = take 4 r2 @ take ?s (drop 4 r2) @ rest"
    unfolding rest by (simp only: append_take_drop_id)
  moreover have "r1 = concat cs @ r2" "drop 4 ?d = concat ms @ r1"
    using kc km by blast+
  moreover have "bs = take 32 bs @ take 32 (drop 32 bs) @ take 4 ?d @ drop 4 ?d"
    by (simp only: append_take_drop_id)
  ultimately have "bs = take 32 bs @ take 32 (drop 32 bs) @ take 4 ?d @ concat ms @ concat cs
      @ take 4 r2 @ take ?s (drop 4 r2) @ rest"
    by metis
  then have "bs = enc_input inp @ rest"
    unfolding enc_input_eq using put by (simp add: inp)
  moreover have "wf_input inp"
    using n s len km kc by (simp add: wf_input_defs inp)
  ultimately show ?thesis by simp
qed

interpretation input_codec: wire_codec enc_input parse_input wf_input
  by unfold_locales (blast intro: input_dec_enc dest: input_enc_dec)+

section \<open>The canonical encoding\<close>

definition enc_tx :: "Transaction \<Rightarrow> bytes" where
  "enc_tx tx = enc_prefix tx @ concat (map enc_output (Outputs tx))
     @ concat (map enc_input (Inputs tx))"

definition chunks_len :: "chunk list \<Rightarrow> nat" where
  "chunks_len cs = sum_list (map (length \<circ> chunk_data) cs)"

lemma chunks_len_append [simp]: "chunks_len (xs @ ys) = chunks_len xs + chunks_len ys"
  by (simp add: chunks_len_def)

lemma chunks_len_concat: "chunks_len (concat xss) = sum_list (map chunks_len xss)"
  by (induction xss) (auto simp: chunks_len_def)

lemma chunks_len_prefix: "length (TxPublicKey tx) = 32 \<Longrightarrow> chunks_len (prefix_chunks tx) = 49"
  by (simp add: chunks_len_def prefix_chunks_def)

lemma chunks_len_output: "go_output out \<Longrightarrow> chunks_len (output_chunks out) = output_size out"
  by (simp add: chunks_len_def output_chunks_def output_size_def go_output_def)

lemma sum_list_const: "\<forall>k \<in> set ks. length k = n \<Longrightarrow> sum_list (map length ks) = n * length ks"
  by (induction ks) auto

lemma chunks_len_input:
  "go_input inp \<Longrightarrow> length (RingCommitments inp) = length (RingMembers inp)
   \<Longrightarrow> chunks_len (input_chunks inp) = input_size inp"
  by (simp add: chunks_len_def input_chunks_def input_size_def go_input_def comp_def
      sum_list_const [where n = 32] Let_def)

lemma sum_list_map_cong: "list_all (\<lambda>x. f x = g x) xs \<Longrightarrow> sum_list (map f xs) = sum_list (map g xs)"
  by (induction xs) auto

lemma concat_chunks:
  "concat (map chunk_data (concat (map f xs))) = concat (map (\<lambda>x. concat (map chunk_data (f x))) xs)"
  by (induction xs) auto

lemma Serialize_aligned:
  assumes "go_tx tx" and "rings_aligned tx"
  shows "Serialize tx = Some (enc_tx tx)"
proof -
  have "sum_list (map (chunks_len \<circ> output_chunks) (Outputs tx)) = sum_list (map output_size (Outputs tx))"
    using assms(1) by (intro sum_list_map_cong) (auto simp: go_tx_def list_all_iff chunks_len_output)
  moreover have "sum_list (map (chunks_len \<circ> input_chunks) (Inputs tx)) = sum_list (map input_size (Inputs tx))"
    using assms
    by (intro sum_list_map_cong) (auto simp: go_tx_def rings_aligned_def list_all_iff chunks_len_input)
  ultimately have "chunks_len (prefix_chunks tx @ concat (map output_chunks (Outputs tx))
        @ concat (map input_chunks (Inputs tx)))
      = 1 + 32 + 4 + 4 + 8
        + sum_list (map output_size (Outputs tx)) + sum_list (map input_size (Inputs tx))"
    using assms(1) by (simp add: chunks_len_concat chunks_len_prefix go_tx_def)
  then have "Serialize tx = Some (concat (map chunk_data (prefix_chunks tx
      @ concat (map output_chunks (Outputs tx)) @ concat (map input_chunks (Inputs tx)))))"
    unfolding Serialize_def by (intro fill_buf_exact) (simp add: chunks_len_def)
  then show ?thesis
    by (simp add: enc_tx_def enc_prefix_def concat_chunks enc_output_def enc_input_def cong: map_cong)
qed

lemma length_fill_buf_opt: "pred_option (\<lambda>bs. length bs = room) (fill_buf room cs)"
proof (induction room cs rule: fill_buf.induct)
  case (2 room xs cs)
  then show ?case by (cases "fill_buf (room - length xs) cs") auto
next
  case (3 room xs cs)
  then show ?case by (cases "fill_buf (room - length xs) cs") auto
qed simp

lemma length_fill_buf: "fill_buf room cs = Some bs \<Longrightarrow> length bs = room"
  using length_fill_buf_opt [of room cs] by simp

lemma wf_tx_go: "wf_tx tx \<Longrightarrow> go_tx tx \<and> rings_aligned tx"
  by (auto simp: wf_tx_def go_tx_def rings_aligned_def list_all_iff wf_output_def wf_input_def)

lemma DeserializeTx_enc_tx:
  assumes "wf_tx tx"
  shows "DeserializeTx (enc_tx tx) = Inr tx"
proof -
  have c: "unat (word_of_nat (length (Inputs tx)) :: u32) = length (Inputs tx)"
    "unat (word_of_nat (length (Outputs tx)) :: u32) = length (Outputs tx)"
    "\<not> maxInputs < length (Inputs tx)" "\<not> maxOutputs < length (Outputs tx)"
    using assms by (auto simp: wf_tx_def limit_defs intro: unat_u32_small)
  have "parse_many parse_input 0 (length (Inputs tx)) (concat (map enc_input (Inputs tx)) @ [])
      = Inr (Inputs tx, [])"
    using assms by (intro input_codec.many_enc) (simp_all add: wf_tx_def)
  moreover have "parse_many parse_output 0 (length (Outputs tx))
      (concat (map enc_output (Outputs tx)) @ concat (map enc_input (Inputs tx)))
      = Inr (Outputs tx, concat (map enc_input (Inputs tx)))"
    using assms by (intro output_codec.many_enc) (simp_all add: wf_tx_def)
  ultimately show ?thesis
    using assms c
    by (simp add: DeserializeTx_def enc_tx_def enc_prefix_def prefix_chunks_def wf_tx_def
        minHeaderSize_def)
qed

lemma DeserializeTx_inv:
  assumes "DeserializeTx bs = Inr tx"
  shows "bs = enc_tx tx \<and> wf_tx tx"
proof -
  obtain v bs' where bs: "bs = v # bs'"
    using assms by (cases bs) (auto simp: DeserializeTx_def minHeaderSize_def)
  let ?d = "drop 32 bs'"
  let ?e = "drop 4 ?d"
  have len: "48 \<le> length bs'" and ci: "unat (Uint32 ?d) \<le> maxInputs"
    and co: "unat (Uint32 ?e) \<le> maxOutputs"
    using assms by (auto simp: bs DeserializeTx_def minHeaderSize_def Let_def split: if_splits)
  obtain outs r ins where
    po: "parse_many parse_output 0 (unat (Uint32 ?e)) (drop 8 (drop 4 ?e)) = Inr (outs, r)"
    and pin: "parse_many parse_input 0 (unat (Uint32 ?d)) r = Inr (ins, [])"
    and tx: "tx = \<lparr>TxVersion = v, Inputs = ins, Outputs = outs, Fee = Uint64 (drop 4 ?e),
      TxPublicKey = take 32 bs'\<rparr>"
    using assms
    by (auto simp: bs DeserializeTx_def minHeaderSize_def Let_def split: if_splits sum.splits)
  note o = output_codec.enc_many [OF po] and i = input_codec.enc_many [OF pin]
  have put: "PutUint32 (word_of_nat (length ins)) = take 4 ?d"
    "PutUint32 (word_of_nat (length outs)) = take 4 ?e"
    "PutUint64 (Fee tx) = take 8 (drop 4 ?e)"
    using o i len by (simp_all add: tx Put_Uint32 Put_Uint64)
  have "enc_tx tx
      = v # take 32 bs' @ take 4 ?d @ take 4 ?e @ take 8 (drop 4 ?e) @ drop 8 (drop 4 ?e)"
    using o i put by (simp add: tx enc_tx_def enc_prefix_def prefix_chunks_def)
  also have "\<dots> = bs"
    unfolding bs by (simp only: append_take_drop_id)
  finally have "bs = enc_tx tx" ..
  moreover have "wf_tx tx"
    using o i ci co len by (simp add: wf_tx_def tx)
  ultimately show ?thesis by simp
qed

section \<open>Properties\<close>

text \<open>C13. The wire format is canonical: \<open>DeserializeTx\<close> accepts a byte string exactly when it
  is the serialisation of a transaction within the protocol limits, and it then returns that
  transaction.  So decoding inverts encoding, re-encoding a decoded transaction gives back the
  same bytes (no trailing or alternative encodings), and every transaction within the limits
  is decodable.\<close>

theorem tx_wire_canonical: "DeserializeTx bs = Inr tx \<longleftrightarrow> wf_tx tx \<and> Serialize tx = Some bs"
proof
  assume "DeserializeTx bs = Inr tx"
  then have "bs = enc_tx tx" "wf_tx tx" using DeserializeTx_inv by blast+
  then show "wf_tx tx \<and> Serialize tx = Some bs"
    using Serialize_aligned wf_tx_go by blast
next
  assume "wf_tx tx \<and> Serialize tx = Some bs"
  then have "bs = enc_tx tx" "wf_tx tx" using Serialize_aligned wf_tx_go by force+
  then show "DeserializeTx bs = Inr tx" using DeserializeTx_enc_tx by simp
qed

lemma sum_list_bound: "list_all (\<lambda>x. f x \<le> b) xs \<Longrightarrow> sum_list (map f xs) \<le> length xs * (b :: nat)"
  by (induction xs) auto

lemma wf_tx_Size:
  assumes "wf_tx tx"
  shows "Size tx \<le> 881713"
proof -
  have "sum_list (map output_size (Outputs tx)) \<le> length (Outputs tx) * 1228"
    using assms
    by (intro sum_list_bound) (auto simp: wf_tx_def list_all_iff wf_output_def output_size_def limit_defs)
  moreover have "sum_list (map input_size (Inputs tx)) \<le> length (Inputs tx) * 2216"
    using assms
    by (intro sum_list_bound)
      (fastforce simp: wf_tx_def list_all_iff wf_input_def input_size_def limit_defs Let_def)
  ultimately show ?thesis
    using assms by (simp add: Size_def wf_tx_def limit_defs)
qed

text \<open>C20. \<open>Size\<close>, which enforces the consensus limit on block sizes, is the exact length of the
  serialisation; and every transaction that decodes is at most 881713 bytes long, so it fits
  into a block of \<open>MaxBlockSize\<close> (1048576) bytes.\<close>

theorem decoded_size_exact:
  assumes "DeserializeTx bs = Inr tx"
  shows "length bs = Size tx \<and> length bs \<le> 881713"
proof -
  have "Serialize tx = Some bs" "wf_tx tx"
    using assms DeserializeTx_inv Serialize_aligned wf_tx_go by blast+
  then show ?thesis
    using length_fill_buf wf_tx_Size by (fastforce simp: Serialize_def Size_def)
qed

text \<open>A small transaction without inputs and outputs, as the decoder sees it.\<close>

definition sample_tx :: Transaction where
  "sample_tx = \<lparr>TxVersion = 1, Inputs = [], Outputs = [], Fee = 7, TxPublicKey = replicate 32 5\<rparr>"

lemma sample_tx_decodes: "DeserializeTx (enc_tx sample_tx) = Inr sample_tx"
  by (rule DeserializeTx_enc_tx) (simp add: wf_tx_def sample_tx_def)

theorem decoded_size_exact_witness:
  "length (enc_tx sample_tx) = Size sample_tx \<and> length (enc_tx sample_tx) \<le> 881713"
  using decoded_size_exact [OF sample_tx_decodes] .

end
