(* ===== verification/TxValidation.thy ===== *)
theory TxValidation
  imports Transaction
begin

text \<open>
  Consensus validation of a single transaction (\<open>ValidateTransaction\<close>,
  \<open>verifyCommitmentBalance\<close> and \<open>validateCoinbase\<close> of \<open>src/transaction.go\<close>).

  The caller passes two closures.  The spent check reads the chain state only; the ring-member
  check may rebuild an index and so changes it: it takes the state \<open>'s\<close> and returns the next
  one.  What a ring-member check promises is the locale \<open>ring_checker\<close>.
\<close>

datatype balance_error =
    BalanceNoOutputs | BalanceNoInputs | BadPseudoOutput nat crypto_error
  | BadCommitmentPoint nat crypto_error | FeeCommitment crypto_error | AddFee crypto_error
  | BalanceDifference crypto_error | Unbalanced

datatype tx_error =
    UnsupportedVersion byte
  | CoinbaseHasInputs | CoinbaseFee | CoinbaseOutputs | CoinbaseZeroMemo
  | CoinbaseRangeProof nat crypto_error
  | RingCheckerMissing | ZeroMemo nat | DuplicateKeyImage nat
  | WrongRingSize nat nat | WrongRingCommitments nat nat | NotCanonical nat nat
  | BadRingCT nat crypto_error | BadRingCTPayload nat crypto_error
  | KeyImageMismatch nat | PseudoOutputMismatch nat | DoubleSpend nat
  | BadRangeProof nat crypto_error | CommitmentBalance balance_error
  | SigningPanic

type_synonym KeyImageChecker = "hash \<Rightarrow> bool"
type_synonym 's RingMemberChecker = "'s \<Rightarrow> hash \<Rightarrow> hash \<Rightarrow> bool \<times> 's"

section \<open>Commitment balance\<close>

fun sum_commitments :: "crypto \<Rightarrow> (nat \<Rightarrow> crypto_error \<Rightarrow> balance_error) \<Rightarrow> nat \<Rightarrow> bytes \<Rightarrow> bytes list
    \<Rightarrow> balance_error + bytes" where
  "sum_commitments C bad i acc [] = Inr acc"
| "sum_commitments C bad i acc (c # cs) =
     (case CommitmentAdd C acc c of
        Inl e \<Rightarrow> Inl (bad i e)
      | Inr acc' \<Rightarrow> sum_commitments C bad (Suc i) acc' cs)"

definition verifyCommitmentBalance :: "crypto \<Rightarrow> Transaction \<Rightarrow> balance_error + unit" where
  "verifyCommitmentBalance C tx =
     (case map Commitment (Outputs tx) of [] \<Rightarrow> Inl BalanceNoOutputs
      | o1 # outs \<Rightarrow>
     (case map PseudoOutput (Inputs tx) of [] \<Rightarrow> Inl BalanceNoInputs
      | p1 # pseudos \<Rightarrow>
     (case sum_commitments C BadPseudoOutput 1 p1 pseudos of Inl e \<Rightarrow> Inl e
      | Inr pseudoSum \<Rightarrow>
     (case sum_commitments C BadCommitmentPoint 1 o1 outs of Inl e \<Rightarrow> Inl e
      | Inr outputSum \<Rightarrow>
     (case CreateFeeCommitment C (Fee tx) of Inl e \<Rightarrow> Inl (FeeCommitment e)
      | Inr feeCommitment \<Rightarrow>
     (case CommitmentAdd C outputSum feeCommitment of Inl e \<Rightarrow> Inl (AddFee e)
      | Inr outputPlusFee \<Rightarrow>
     (case CommitmentSub C pseudoSum outputPlusFee of Inl e \<Rightarrow> Inl (BalanceDifference e)
      | Inr diff \<Rightarrow>
          if \<not> CommitmentIsZero C diff then Inl Unbalanced else Inr ())))))))"

section \<open>Coinbase\<close>

fun check_range_proofs :: "crypto \<Rightarrow> (nat \<Rightarrow> crypto_error \<Rightarrow> tx_error) \<Rightarrow> nat \<Rightarrow> TxOutput list
    \<Rightarrow> tx_error + unit" where
  "check_range_proofs C bad i [] = Inr ()"
| "check_range_proofs C bad i (out # outs) =
     (case VerifyRangeProof C (Commitment out) (RangeProof out) of
        Inl e \<Rightarrow> Inl (bad i e)
      | Inr _ \<Rightarrow> check_range_proofs C bad (Suc i) outs)"

definition zeroMemo :: bytes where
  "zeroMemo = replicate MemoSize 0"

definition validateCoinbase :: "crypto \<Rightarrow> Transaction \<Rightarrow> tx_error + unit" where
  "validateCoinbase C tx =
     (if length (Inputs tx) \<noteq> 0 then Inl CoinbaseHasInputs
      else if Fee tx \<noteq> 0 then Inl CoinbaseFee
      else case Outputs tx of
        [out] \<Rightarrow> if EncryptedMemo out = zeroMemo then Inl CoinbaseZeroMemo
                 else check_range_proofs C CoinbaseRangeProof 0 [out]
      | _ \<Rightarrow> Inl CoinbaseOutputs)"

definition coinbase_tag :: bytes where
  "coinbase_tag = go_string ''blocknet_coinbase_consensus_blinding''"

definition deriveCoinbaseConsensusBlinding :: "crypto \<Rightarrow> hash \<Rightarrow> u64 \<Rightarrow> u32 \<Rightarrow> hash" where
  "deriveCoinbaseConsensusBlinding C txPublicKey blockHeight outputIndex =
     sha3_Sum256 C (coinbase_tag @ txPublicKey @ PutUint64 blockHeight @ PutUint32 outputIndex)"

section \<open>Transactions with inputs\<close>

fun check_memos :: "nat \<Rightarrow> TxOutput list \<Rightarrow> tx_error + unit" where
  "check_memos i [] = Inr ()"
| "check_memos i (out # outs) =
     (if EncryptedMemo out = zeroMemo then Inl (ZeroMemo i) else check_memos (Suc i) outs)"

text \<open>The loop over \<open>seen\<close>, the key images met so far.\<close>

fun check_dups :: "hash set \<Rightarrow> nat \<Rightarrow> TxInput list \<Rightarrow> tx_error + unit" where
  "check_dups seen i [] = Inr ()"
| "check_dups seen i (inp # inps) =
     (if KeyImage inp \<in> seen then Inl (DuplicateKeyImage i)
      else check_dups (insert (KeyImage inp) seen) (Suc i) inps)"

text \<open>The loop over the ring members of input \<open>i\<close>; the sizes were checked before it.\<close>

fun check_ring :: "'s RingMemberChecker \<Rightarrow> nat \<Rightarrow> nat \<Rightarrow> hash list \<Rightarrow> hash list \<Rightarrow> 's
    \<Rightarrow> (tx_error + unit) \<times> 's" where
  "check_ring check i j (m # ms) (c # cs) s =
     (case check s m c of
        (False, s') \<Rightarrow> (Inl (NotCanonical i j), s')
      | (True, s') \<Rightarrow> check_ring check i (Suc j) ms cs s')"
| "check_ring check i j _ _ s = (Inr (), s)"

definition check_signature :: "crypto \<Rightarrow> Transaction \<Rightarrow> KeyImageChecker \<Rightarrow> nat \<Rightarrow> TxInput
    \<Rightarrow> tx_error + unit" where
  "check_signature C tx isSpent i inp =
     (case SigningHash C tx of None \<Rightarrow> Inl SigningPanic
      | Some sigHash \<Rightarrow>
        let ringSig = \<lparr>Signature = RingSignature inp, SigRingSize = length (RingMembers inp)\<rparr> in
        (case VerifyRingCT C (RingMembers inp) (RingCommitments inp) sigHash ringSig of
           Inl e \<Rightarrow> Inl (BadRingCT i e)
         | Inr _ \<Rightarrow>
        (case ExtractRingCTBinding ringSig of
           Inl e \<Rightarrow> Inl (BadRingCTPayload i e)
         | Inr (sigKeyImage, sigPseudoOutput) \<Rightarrow>
             if sigKeyImage \<noteq> KeyImage inp then Inl (KeyImageMismatch i)
             else if sigPseudoOutput \<noteq> PseudoOutput inp then Inl (PseudoOutputMismatch i)
             else if isSpent sigKeyImage then Inl (DoubleSpend i)
             else Inr ())))"

definition check_input :: "crypto \<Rightarrow> Transaction \<Rightarrow> KeyImageChecker \<Rightarrow> 's RingMemberChecker
    \<Rightarrow> nat \<Rightarrow> TxInput \<Rightarrow> 's \<Rightarrow> (tx_error + unit) \<times> 's" where
  "check_input C tx isSpent check i inp s =
     (if length (RingMembers inp) \<noteq> RingSize
      then (Inl (WrongRingSize i (length (RingMembers inp))), s)
      else if length (RingCommitments inp) \<noteq> RingSize
      then (Inl (WrongRingCommitments i (length (RingCommitments inp))), s)
      else case check_ring check i 0 (RingMembers inp) (RingCommitments inp) s of
        (Inl e, s') \<Rightarrow> (Inl e, s')
      | (Inr _, s') \<Rightarrow> (check_signature C tx isSpent i inp, s'))"

fun check_inputs :: "crypto \<Rightarrow> Transaction \<Rightarrow> KeyImageChecker \<Rightarrow> 's RingMemberChecker
    \<Rightarrow> nat \<Rightarrow> TxInput list \<Rightarrow> 's \<Rightarrow> (tx_error + unit) \<times> 's" where
  "check_inputs C tx isSpent check i [] s = (Inr (), s)"
| "check_inputs C tx isSpent check i (inp # inps) s =
     (case check_input C tx isSpent check i inp s of
        (Inl e, s') \<Rightarrow> (Inl e, s')
      | (Inr _, s') \<Rightarrow> check_inputs C tx isSpent check (Suc i) inps s')"

definition ValidateTransaction :: "crypto \<Rightarrow> Transaction \<Rightarrow> KeyImageChecker
    \<Rightarrow> 's RingMemberChecker option \<Rightarrow> 's \<Rightarrow> (tx_error + unit) \<times> 's" where
  "ValidateTransaction C tx isSpent isCanonicalRingMember s =
     (if TxVersion tx \<noteq> 1 then (Inl (UnsupportedVersion (TxVersion tx)), s)
      else if IsCoinbase tx then (validateCoinbase C tx, s)
      else case isCanonicalRingMember of None \<Rightarrow> (Inl RingCheckerMissing, s)
      | Some check \<Rightarrow>
     (case check_memos 0 (Outputs tx) of Inl e \<Rightarrow> (Inl e, s)
      | Inr _ \<Rightarrow>
     (case (if 1 < length (Inputs tx) then check_dups {} 0 (Inputs tx) else Inr ()) of
        Inl e \<Rightarrow> (Inl e, s)
      | Inr _ \<Rightarrow>
     (case check_inputs C tx isSpent check 0 (Inputs tx) s of (Inl e, s') \<Rightarrow> (Inl e, s')
      | (Inr _, s') \<Rightarrow>
     (case check_range_proofs C BadRangeProof 0 (Outputs tx) of Inl e \<Rightarrow> (Inl e, s')
      | Inr _ \<Rightarrow>
     (case verifyCommitmentBalance C tx of
        Inl e \<Rightarrow> (Inl (CommitmentBalance e), s')
      | Inr _ \<Rightarrow> (Inr (), s')))))))"

section \<open>What validation means\<close>

text \<open>The declarative consensus rules for one transaction, over a pure ring-membership
  predicate.\<close>

definition coinbase_valid :: "crypto \<Rightarrow> Transaction \<Rightarrow> bool" where
  "coinbase_valid C tx \<longleftrightarrow> Fee tx = 0 \<and>
     (\<exists>out. Outputs tx = [out] \<and> EncryptedMemo out \<noteq> zeroMemo
        \<and> VerifyRangeProof C (Commitment out) (RangeProof out) = Inr ())"

definition input_valid :: "crypto \<Rightarrow> Transaction \<Rightarrow> KeyImageChecker \<Rightarrow> (hash \<Rightarrow> hash \<Rightarrow> bool)
    \<Rightarrow> TxInput \<Rightarrow> bool" where
  "input_valid C tx isSpent canon inp \<longleftrightarrow>
     length (RingMembers inp) = RingSize \<and> length (RingCommitments inp) = RingSize
     \<and> (\<forall>j < RingSize. canon (RingMembers inp ! j) (RingCommitments inp ! j))
     \<and> (\<exists>sigHash. SigningHash C tx = Some sigHash
          \<and> VerifyRingCT C (RingMembers inp) (RingCommitments inp) sigHash
              \<lparr>Signature = RingSignature inp, SigRingSize = RingSize\<rparr> = Inr ())
     \<and> ExtractRingCTBinding \<lparr>Signature = RingSignature inp, SigRingSize = RingSize\<rparr>
         = Inr (KeyImage inp, PseudoOutput inp)
     \<and> \<not> isSpent (KeyImage inp)"

definition spend_valid :: "crypto \<Rightarrow> Transaction \<Rightarrow> KeyImageChecker \<Rightarrow> (hash \<Rightarrow> hash \<Rightarrow> bool) \<Rightarrow> bool"
where
  "spend_valid C tx isSpent canon \<longleftrightarrow>
     (\<forall>out \<in> set (Outputs tx). EncryptedMemo out \<noteq> zeroMemo
        \<and> VerifyRangeProof C (Commitment out) (RangeProof out) = Inr ())
     \<and> distinct (map KeyImage (Inputs tx))
     \<and> (\<forall>inp \<in> set (Inputs tx). input_valid C tx isSpent canon inp)
     \<and> verifyCommitmentBalance C tx = Inr ()"

definition tx_valid :: "crypto \<Rightarrow> Transaction \<Rightarrow> KeyImageChecker \<Rightarrow> (hash \<Rightarrow> hash \<Rightarrow> bool) \<Rightarrow> bool"
where
  "tx_valid C tx isSpent canon \<longleftrightarrow> TxVersion tx = 1
     \<and> (if IsCoinbase tx then coinbase_valid C tx else spend_valid C tx isSpent canon)"

text \<open>The early-return pattern \<open>if err != nil { return err }\<close>.\<close>

lemma seq_ok:
  "fst (case x of Inl e \<Rightarrow> (Inl (f e), s) | Inr u \<Rightarrow> k) = Inr () \<longleftrightarrow> x = Inr () \<and> fst k = Inr ()"
  for x :: "'e + unit" and k :: "('f + unit) \<times> 's"
  by (cases x) auto

lemma check_memos_ok: "check_memos i outs = Inr () \<longleftrightarrow> (\<forall>out \<in> set outs. EncryptedMemo out \<noteq> zeroMemo)"
  by (induction outs arbitrary: i) auto

lemma check_range_proofs_ok:
  "check_range_proofs C bad i outs = Inr ()
   \<longleftrightarrow> (\<forall>out \<in> set outs. VerifyRangeProof C (Commitment out) (RangeProof out) = Inr ())"
  by (induction outs arbitrary: i) (auto split: sum.splits)

lemma check_dups_ok:
  "check_dups seen i inps = Inr ()
   \<longleftrightarrow> distinct (map KeyImage inps) \<and> seen \<inter> KeyImage ` set inps = {}"
  by (induction inps arbitrary: seen i) auto

lemma dup_check_ok:
  "(if 1 < length inps then check_dups {} 0 inps else Inr ()) = Inr () \<longleftrightarrow> distinct (map KeyImage inps)"
proof (cases "1 < length inps")
  case False
  then have "inps = [] \<or> (\<exists>i. inps = [i])"
    by (cases inps; cases "tl inps") auto
  then show ?thesis using False by auto
qed (simp add: check_dups_ok)

lemma validateCoinbase_ok:
  "IsCoinbase tx \<Longrightarrow> validateCoinbase C tx = Inr () \<longleftrightarrow> coinbase_valid C tx"
  by (auto simp: validateCoinbase_def coinbase_valid_def IsCoinbase_def
      split: list.splits sum.splits)

lemma check_signature_ok:
  assumes "length (RingMembers inp) = RingSize"
  shows "check_signature C tx isSpent i inp = Inr () \<longleftrightarrow>
     (\<exists>sigHash. SigningHash C tx = Some sigHash
          \<and> VerifyRingCT C (RingMembers inp) (RingCommitments inp) sigHash
              \<lparr>Signature = RingSignature inp, SigRingSize = RingSize\<rparr> = Inr ())
     \<and> ExtractRingCTBinding \<lparr>Signature = RingSignature inp, SigRingSize = RingSize\<rparr>
         = Inr (KeyImage inp, PseudoOutput inp)
     \<and> \<not> isSpent (KeyImage inp)"
  using assms
  by (auto simp: check_signature_def Let_def split: option.splits sum.splits prod.splits)

section \<open>The ring-member checker interface\<close>

text \<open>A stateful check that answers for a fixed predicate while an invariant on the state
  holds, and keeps that invariant.\<close>

locale ring_checker =
  fixes check :: "'s RingMemberChecker"
    and canon :: "hash \<Rightarrow> hash \<Rightarrow> bool"
    and inv :: "'s \<Rightarrow> bool"
  assumes check_value: "inv s \<Longrightarrow> fst (check s m c) = canon m c"
    and check_keeps: "inv s \<Longrightarrow> inv (snd (check s m c))"
begin

lemma ring_ok:
  assumes "inv s" and "length ms = length cs"
  shows "(fst (check_ring check i j ms cs s) = Inr () \<longleftrightarrow> (\<forall>k < length ms. canon (ms ! k) (cs ! k)))
    \<and> inv (snd (check_ring check i j ms cs s))"
  using assms(2,1)
proof (induction ms cs arbitrary: j s rule: list_induct2)
  case (Cons m ms c cs)
  obtain b s' where ch: "check s m c = (b, s')" by fastforce
  then have "b = canon m c" "inv s'"
    using check_value [OF Cons.prems, of m c] check_keeps [OF Cons.prems, of m c] by simp_all
  with Cons.IH [of s' "Suc j"] ch show ?case
    by (cases b) (auto simp: less_Suc_eq_0_disj)
qed simp

lemma input_ok:
  assumes "inv s"
  shows "(fst (check_input C tx isSpent check i inp s) = Inr () \<longleftrightarrow> input_valid C tx isSpent canon inp)
    \<and> inv (snd (check_input C tx isSpent check i inp s))"
proof (cases "length (RingMembers inp) = RingSize \<and> length (RingCommitments inp) = RingSize")
  case True
  obtain r s' where cr: "check_ring check i 0 (RingMembers inp) (RingCommitments inp) s = (r, s')"
    by fastforce
  with ring_ok [OF assms, of "RingMembers inp" "RingCommitments inp" i 0] True
  have "r = Inr () \<longleftrightarrow> (\<forall>k < RingSize. canon (RingMembers inp ! k) (RingCommitments inp ! k))" "inv s'"
    by auto
  with True cr show ?thesis
    by (cases r) (auto simp: check_input_def input_valid_def check_signature_ok)
qed (auto simp: check_input_def input_valid_def assms)

lemma inputs_ok:
  assumes "inv s"
  shows "(fst (check_inputs C tx isSpent check i inps s) = Inr ()
      \<longleftrightarrow> (\<forall>inp \<in> set inps. input_valid C tx isSpent canon inp))
    \<and> inv (snd (check_inputs C tx isSpent check i inps s))"
  using assms
proof (induction inps arbitrary: i s)
  case (Cons inp inps)
  obtain r s' where ci: "check_input C tx isSpent check i inp s = (r, s')" by fastforce
  with input_ok [OF Cons.prems, of C tx isSpent i inp]
  have "r = Inr () \<longleftrightarrow> input_valid C tx isSpent canon inp" "inv s'" by auto
  with Cons.IH [of s' "Suc i"] ci show ?case by (cases r) auto
qed simp

lemma transaction_ok:
  assumes "inv s"
  shows "(fst (ValidateTransaction C tx isSpent (Some check) s) = Inr ()
      \<longleftrightarrow> tx_valid C tx isSpent canon)
    \<and> inv (snd (ValidateTransaction C tx isSpent (Some check) s))"
proof (cases "TxVersion tx = 1 \<and> \<not> IsCoinbase tx")
  case True
  obtain r s' where ci: "check_inputs C tx isSpent check 0 (Inputs tx) s = (r, s')" by fastforce
  have ok: "r = Inr () \<longleftrightarrow> (\<forall>inp \<in> set (Inputs tx). input_valid C tx isSpent canon inp)" "inv s'"
    using inputs_ok [OF assms, of C tx isSpent 0 "Inputs tx"] ci by auto
  have "fst (ValidateTransaction C tx isSpent (Some check) s) = Inr () \<longleftrightarrow> spend_valid C tx isSpent canon"
    using True dup_check_ok [of "Inputs tx"]
    by (auto simp: ValidateTransaction_def ci seq_ok ok(1) check_memos_ok
        check_range_proofs_ok spend_valid_def simp del: check_dups.simps)
  moreover have "inv (snd (ValidateTransaction C tx isSpent (Some check) s))"
    using True assms ok(2) by (simp add: ValidateTransaction_def ci split: sum.split)
  ultimately show ?thesis using True by (simp add: tx_valid_def)
qed (auto simp: ValidateTransaction_def tx_valid_def validateCoinbase_ok assms)

end

end
