(* ===== verification/Memo.thy ===== *)
theory Memo
  imports Transaction
begin

text \<open>
  Memo envelopes (\<open>src/wallet/memo.go\<close>, constants in \<open>src/protocol/params/memo.go\<close> and
  \<open>network.go\<close>) and the amount mask \<open>EncryptAmount\<close> (\<open>src/crypto.go\<close>).

  The random padding is the
  argument \<open>rand_Read\<close>: the bytes the generator delivers for a request of \<open>n\<close> bytes, or
  \<^const>\<open>None\<close> when it fails.
\<close>

definition MemoEnvelopeVersion :: byte where "MemoEnvelopeVersion = 1"
definition MemoPayloadMax :: nat where "MemoPayloadMax = 124"

lemmas memo_consts = MemoSize_def MemoEnvelopeVersion_def MemoPayloadMax_def

definition NetworkID :: "bool \<Rightarrow> bytes" where
  "NetworkID isTestnet = go_string (if isTestnet then ''blocknet_testnet'' else ''blocknet_mainnet'')"

definition MemoBlockDomainSep :: "bool \<Rightarrow> bytes" where
  "MemoBlockDomainSep isTestnet = NetworkID isTestnet"

definition xor_bytes :: "bytes \<Rightarrow> bytes \<Rightarrow> bytes" where
  "xor_bytes as bs = map2 (XOR) as bs"

definition memoChecksum :: "crypto \<Rightarrow> bytes \<Rightarrow> hash" where
  "memoChecksum C payload =
     sha3_Sum256 C (go_string ''blocknet_memo_checksum''
       @ PutUint16 (word_of_nat (length payload)) @ payload)"

definition deriveMemoMask :: "crypto \<Rightarrow> bool \<Rightarrow> hash \<Rightarrow> u32 \<Rightarrow> bytes" where
  "deriveMemoMask C isTestnet sharedSecret outputIndex =
     (let seed = sha3_Sum256 C (sharedSecret @ go_string ''memo'' @ PutUint32 outputIndex
                   @ MemoBlockDomainSep isTestnet)
      in concat (map (\<lambda>i. sha3_Sum256 C (seed @ PutUint32 (word_of_nat i))) [0..<4]))"

datatype memo_error = MemoTooLong nat | PaddingFailure | PaddingShort nat nat

definition buildMemoEnvelope :: "crypto \<Rightarrow> (nat \<Rightarrow> bytes option) \<Rightarrow> bytes \<Rightarrow> memo_error + bytes" where
  "buildMemoEnvelope C rand_Read memo =
     (if MemoPayloadMax < length memo then Inl (MemoTooLong (length memo))
      else let head = [MemoEnvelopeVersion, word_of_nat (length memo)] @ take 2 (memoChecksum C memo);
               padStart = 4 + length memo
           in if padStart < MemoSize
              then (case rand_Read (MemoSize - padStart) of
                      None \<Rightarrow> Inl PaddingFailure
                    | Some pad \<Rightarrow>
                        if length pad \<noteq> MemoSize - padStart
                        then Inl (PaddingShort (length pad) (MemoSize - padStart))
                        else Inr (head @ memo @ pad))
              else Inr (head @ memo))"

definition EncryptMemo :: "crypto \<Rightarrow> bool \<Rightarrow> (nat \<Rightarrow> bytes option) \<Rightarrow> bytes \<Rightarrow> hash \<Rightarrow> u32
    \<Rightarrow> memo_error + bytes" where
  "EncryptMemo C isTestnet rand_Read memo sharedSecret outputIndex =
     (case buildMemoEnvelope C rand_Read memo of
        Inl e \<Rightarrow> Inl e
      | Inr envelope \<Rightarrow> Inr (xor_bytes envelope (deriveMemoMask C isTestnet sharedSecret outputIndex)))"

text \<open>\<open>DecryptMemo\<close> returns the payload, or \<^const>\<open>None\<close> where the code returns \<open>(nil, false)\<close>.\<close>

definition DecryptMemo :: "crypto \<Rightarrow> bool \<Rightarrow> bytes \<Rightarrow> hash \<Rightarrow> u32 \<Rightarrow> bytes option" where
  "DecryptMemo C isTestnet encrypted sharedSecret outputIndex =
     (let plain = xor_bytes encrypted (deriveMemoMask C isTestnet sharedSecret outputIndex) in
      if plain ! 0 \<noteq> MemoEnvelopeVersion then None
      else let len = unat (plain ! 1) in
      if MemoPayloadMax < len then None
      else let payload = take len (drop 4 plain);
               expected = take 2 (memoChecksum C payload) in
      if plain ! 2 \<noteq> expected ! 0 \<or> plain ! 3 \<noteq> expected ! 1 then None
      else Some payload)"

definition EncryptAmount :: "crypto \<Rightarrow> u64 \<Rightarrow> hash \<Rightarrow> u32 \<Rightarrow> bytes" where
  "EncryptAmount C amount sharedSecret outputIndex =
     xor_bytes (PutUint64 amount)
       (take 8 (sha3_Sum256 C (go_string ''blocknet_amount'' @ sharedSecret @ PutUint32 outputIndex)))"

section \<open>Masking is an involution\<close>

lemma length_xor_bytes [len_simps]: "length (xor_bytes as bs) = min (length as) (length bs)"
  by (simp add: xor_bytes_def)

lemma xor_bytes_cancel: "length as \<le> length bs \<Longrightarrow> xor_bytes (xor_bytes as bs) bs = as"
  by (induction as bs rule: list_induct2') (auto simp: xor_bytes_def xor.assoc)

lemma length_mask: "sha3_32 C \<Longrightarrow> length (deriveMemoMask C t s i) = MemoSize"
  by (simp add: deriveMemoMask_def Let_def sha3_len MemoSize_def upt_rec)

lemma envelope_cases:
  assumes "buildMemoEnvelope C rand memo = Inr env"
  obtains pad where
    "env = MemoEnvelopeVersion # word_of_nat (length memo) # take 2 (memoChecksum C memo) @ memo @ pad"
    "length memo \<le> MemoPayloadMax" "length pad = 124 - length memo"
  using assms that [of "[]"] that
  by (auto simp: buildMemoEnvelope_def Let_def memo_consts split: if_splits option.splits)

lemma open_envelope:
  assumes "sha3_32 C" and "buildMemoEnvelope C rand memo = Inr env"
  shows "length env = MemoSize" and "env ! 0 = MemoEnvelopeVersion" and "unat (env ! 1) = length memo"
    and "take (length memo) (drop 4 env) = memo" and "[env ! 2, env ! 3] = take 2 (memoChecksum C memo)"
proof -
  obtain pad where env:
    "env = MemoEnvelopeVersion # word_of_nat (length memo) # take 2 (memoChecksum C memo) @ memo @ pad"
    and len: "length memo \<le> MemoPayloadMax" "length pad = 124 - length memo"
    using assms(2) by (rule envelope_cases)
  obtain a b where ck: "take 2 (memoChecksum C memo) = [a, b]"
    using sha3_len [OF assms(1)]
    by (cases "memoChecksum C memo" rule: remdups_adj.cases) (auto simp: memoChecksum_def numeral_2_eq_2 dest: arg_cong [of _ _ length])
  show "length env = MemoSize" "env ! 0 = MemoEnvelopeVersion" "unat (env ! 1) = length memo"
    "take (length memo) (drop 4 env) = memo" "[env ! 2, env ! 3] = take 2 (memoChecksum C memo)"
    using len by (simp_all add: env ck memo_consts unat_of_nat)
qed

lemma EncryptMemo_total:
  "length memo \<le> MemoPayloadMax
   \<Longrightarrow> \<exists>ct. EncryptMemo C t (\<lambda>n. Some (replicate n p)) memo secret i = Inr ct"
  by (auto simp: EncryptMemo_def buildMemoEnvelope_def Let_def)

lemma memo_opens:
  assumes "sha3_32 C"
    and "EncryptMemo C testnet rand memo secret i = Inr ct"
  shows "length ct = MemoSize \<and> DecryptMemo C testnet ct secret i = Some memo"
proof -
  obtain env where env: "buildMemoEnvelope C rand memo = Inr env"
    and ct: "ct = xor_bytes env (deriveMemoMask C testnet secret i)"
    using assms(2) by (auto simp: EncryptMemo_def split: sum.splits)
  note open_env = open_envelope [OF assms(1) env]
  have plain: "xor_bytes ct (deriveMemoMask C testnet secret i) = env"
    using open_env(1) by (simp add: ct xor_bytes_cancel length_mask [OF assms(1)])
  have "length memo \<le> MemoPayloadMax" using env by (rule envelope_cases)
  moreover have "env ! 2 = take 2 (memoChecksum C memo) ! 0" "env ! 3 = take 2 (memoChecksum C memo) ! 1"
    by (simp_all add: open_env(5) [symmetric])
  ultimately have "DecryptMemo C testnet ct secret i = Some memo"
    by (simp add: DecryptMemo_def plain open_env(2-4) Let_def del: One_nat_def)
  moreover have "length ct = MemoSize"
    using open_env(1) by (simp add: ct len_simps length_mask [OF assms(1)])
  ultimately show ?thesis by simp
qed

text \<open>C19.  A memo that \<open>EncryptMemo\<close> accepts is returned unchanged by \<open>DecryptMemo\<close> under the same
  shared secret and output index, and the ciphertext has the consensus size of 128 bytes:
  version, length byte, checksum and random padding never get in the way, for every payload of
  up to 124 bytes.\<close>

theorem memo_round_trip:
  assumes "sha3_32 C"
    and "EncryptMemo C testnet rand memo secret i = Inr ct"
  shows "length ct = MemoSize \<and> DecryptMemo C testnet ct secret i = Some memo"
  using assms by (rule memo_opens)

theorem memo_round_trip_witness:
  "\<exists>ct. EncryptMemo sample_crypto False (\<lambda>n. Some (replicate n 9)) [1, 2, 3] (replicate 32 7) 0 = Inr ct
     \<and> length ct = MemoSize
     \<and> DecryptMemo sample_crypto False ct (replicate 32 7) 0 = Some [1, 2, 3]"
proof -
  obtain ct where
    ct: "EncryptMemo sample_crypto False (\<lambda>n. Some (replicate n 9)) [1, 2, 3] (replicate 32 7) 0 = Inr ct"
    using EncryptMemo_total [of "[1, 2, 3]" sample_crypto False 9 "replicate 32 7" 0]
    by (auto simp: MemoPayloadMax_def)
  show ?thesis
    by (rule exI [of _ ct], rule conjI, rule ct, rule memo_round_trip [OF sample_crypto_sha3 ct])
qed

end
