(* ===== verification/BlockFormat.thy ===== *)
theory BlockFormat
  imports TxValidation Memo
begin

text \<open>
  Blocks and block headers (\<open>src/block.go\<close>, lines 48--227): canonical header serialisation,
  hashing, block size and the Merkle root.
\<close>

record BlockHeader =
  Version :: u32
  Height :: u64
  PrevHash :: hash
  MerkleRoot :: hash
  Timestamp :: i64
  Difficulty :: u64
  Nonce :: u64

record Block =
  Header :: BlockHeader
  Transactions :: "Transaction list"

definition MaxBlockSize :: nat where "MaxBlockSize = 1048576"

definition blockHeaderSerializedSize :: nat where
  "blockHeaderSerializedSize = 4 + 8 + 32 + 32 + 8 + 8 + 8"

definition blockHeaderSerializedSizeNoNonce :: nat where
  "blockHeaderSerializedSizeNoNonce = 4 + 8 + 32 + 32 + 8 + 8"

text \<open>Both serialisers write the fields one after the other into a buffer of the constant size;
  the hash fields are \<open>[32]byte\<close> arrays, which is \<open>go_header\<close>.\<close>

definition go_header :: "BlockHeader \<Rightarrow> bool" where
  "go_header h \<longleftrightarrow> length (PrevHash h) = 32 \<and> length (MerkleRoot h) = 32"

definition SerializeForPoW :: "BlockHeader \<Rightarrow> bytes" where
  "SerializeForPoW h =
     PutUint32 (Version h) @ PutUint64 (Height h) @ PrevHash h @ MerkleRoot h
     @ PutUint64 (Timestamp h) @ PutUint64 (Difficulty h)"

definition serializeFull :: "BlockHeader \<Rightarrow> bytes" where
  "serializeFull h =
     PutUint32 (Version h) @ PutUint64 (Height h) @ PrevHash h @ MerkleRoot h
     @ PutUint64 (Timestamp h) @ PutUint64 (Difficulty h) @ PutUint64 (Nonce h)"

definition header_Hash :: "crypto \<Rightarrow> BlockHeader \<Rightarrow> hash" where
  "header_Hash C h = sha3_Sum256 C (serializeFull h)"

definition Hash :: "crypto \<Rightarrow> Block \<Rightarrow> hash" where
  "Hash C b = header_Hash C (Header b)"

definition block_Size :: "Block \<Rightarrow> nat" where
  "block_Size b = blockHeaderSerializedSize + sum_list (map Size (Transactions b))"

section \<open>Merkle root\<close>

definition pad_even :: "hash list \<Rightarrow> hash list" where
  "pad_even hashes = (if length hashes mod 2 = 1 then hashes @ [last hashes] else hashes)"

fun next_level :: "crypto \<Rightarrow> hash list \<Rightarrow> hash list" where
  "next_level C (a # b # rest) = sha3_Sum256 C (a @ b) # next_level C rest"
| "next_level C _ = []"

lemma length_next_level: "length (next_level C hs) = length hs div 2"
  by (induction C hs rule: next_level.induct) auto

lemma length_pad_even: "length (pad_even hs) = length hs + length hs mod 2"
  by (auto simp: pad_even_def)

lemma next_level_shorter:
  "1 < length hs \<Longrightarrow> length (next_level C (pad_even hs)) < length hs"
  unfolding length_next_level length_pad_even by presburger

function computeMerkleRoot :: "crypto \<Rightarrow> hash list \<Rightarrow> hash" where
  "computeMerkleRoot C hashes =
     (if length hashes = 0 then replicate 32 0
      else if length hashes = 1 then hashes ! 0
      else computeMerkleRoot C (next_level C (pad_even hashes)))"
  by pat_completeness auto
termination
  by (relation "measure (\<lambda>(C, hs). length hs)")
    (auto intro!: next_level_shorter Suc_lessI)

declare computeMerkleRoot.simps [simp del]

text \<open>The transaction identifiers in order; \<^const>\<open>None\<close> where serialising one panics.\<close>

definition tx_ids :: "crypto \<Rightarrow> Transaction list \<Rightarrow> hash list option" where
  "tx_ids C txs = those (map (TxID C) txs)"

definition ComputeMerkleRoot :: "crypto \<Rightarrow> Block \<Rightarrow> hash option" where
  "ComputeMerkleRoot C b =
     (if length (Transactions b) = 0 then Some (replicate 32 0)
      else map_option (computeMerkleRoot C) (tx_ids C (Transactions b)))"

section \<open>Headers are encoded injectively\<close>

lemma PutUint64_inject [simp]: "PutUint64 a = PutUint64 b \<longleftrightarrow> a = b"
  by (metis Uint_Put(2))

lemma PutUint32_inject [simp]: "PutUint32 a = PutUint32 b \<longleftrightarrow> a = b"
  by (metis Uint_Put(1))

lemma serializeFull_split: "serializeFull h = SerializeForPoW h @ PutUint64 (Nonce h)"
  by (simp add: serializeFull_def SerializeForPoW_def)

lemma pow_bytes_inject:
  assumes "go_header g" "go_header h" "SerializeForPoW g = SerializeForPoW h"
  shows "Version g = Version h \<and> Height g = Height h \<and> PrevHash g = PrevHash h
    \<and> MerkleRoot g = MerkleRoot h \<and> Timestamp g = Timestamp h \<and> Difficulty g = Difficulty h"
  using assms by (simp add: SerializeForPoW_def go_header_def append_eq_append_conv length_Put)

lemma length_SerializeForPoW:
  "go_header h \<Longrightarrow> length (SerializeForPoW h) = blockHeaderSerializedSizeNoNonce"
  by (simp add: SerializeForPoW_def go_header_def blockHeaderSerializedSizeNoNonce_def length_Put)

text \<open>C18.  The canonical header encoding has exactly 100 bytes, its first 92 bytes are the
  proof-of-work input (everything but the nonce), and it is injective: two headers with the same
  bytes agree on every field, so the block hash commits to the whole header.\<close>

theorem header_encoding_canonical:
  assumes "go_header g" "go_header h"
  shows "length (serializeFull h) = blockHeaderSerializedSize
    \<and> take blockHeaderSerializedSizeNoNonce (serializeFull h) = SerializeForPoW h
    \<and> (serializeFull g = serializeFull h \<longleftrightarrow> g = h)"
proof -
  have "g = h" if "serializeFull g = serializeFull h"
  proof -
    have "SerializeForPoW g = SerializeForPoW h" "Nonce g = Nonce h"
      using that assms length_SerializeForPoW
      by (auto simp: serializeFull_split append_eq_append_conv)
    with pow_bytes_inject [OF assms] show ?thesis by simp
  qed
  then show ?thesis
    using length_SerializeForPoW [OF assms(2)]
    by (auto simp: serializeFull_split length_Put blockHeaderSerializedSize_def
        blockHeaderSerializedSizeNoNonce_def)
qed

definition sample_header :: BlockHeader where
  "sample_header = \<lparr>Version = 1, Height = 3, PrevHash = replicate 32 1, MerkleRoot = replicate 32 2,
     Timestamp = 1771207118, Difficulty = 4, Nonce = 9\<rparr>"

theorem header_encoding_canonical_witness:
  "go_header sample_header \<and> length (serializeFull sample_header) = 100
   \<and> serializeFull sample_header \<noteq> serializeFull (sample_header\<lparr>Nonce := 10\<rparr>)"
  using header_encoding_canonical [of "sample_header\<lparr>Nonce := 10\<rparr>" sample_header]
    header_encoding_canonical [of sample_header sample_header]
  by (auto simp: go_header_def sample_header_def blockHeaderSerializedSize_def)

section \<open>The Merkle root commits to the transactions\<close>

text \<open>The 64-byte strings hashed while a root is computed.\<close>

fun level_inputs :: "hash list \<Rightarrow> bytes list" where
  "level_inputs (a # b # rest) = (a @ b) # level_inputs rest"
| "level_inputs _ = []"

function merkle_inputs :: "crypto \<Rightarrow> hash list \<Rightarrow> bytes set" where
  "merkle_inputs C hashes =
     (if length hashes \<le> 1 then {}
      else set (level_inputs (pad_even hashes)) \<union> merkle_inputs C (next_level C (pad_even hashes)))"
  by pat_completeness auto
termination
  by (relation "measure (\<lambda>(C, hs). length hs)")
    (auto intro!: next_level_shorter Suc_lessI)

declare merkle_inputs.simps [simp del]

lemma merkle_step:
  assumes "1 < length hs"
  shows "computeMerkleRoot C hs = computeMerkleRoot C (next_level C (pad_even hs))"
    and "merkle_inputs C hs
      = set (level_inputs (pad_even hs)) \<union> merkle_inputs C (next_level C (pad_even hs))"
  using assms by (auto simp: computeMerkleRoot.simps [of C hs] merkle_inputs.simps [of C hs])

lemma next_level_map: "next_level C hs = map (sha3_Sum256 C) (level_inputs hs)"
  by (induction C hs rule: next_level.induct) auto

lemma length_level_inputs: "length (level_inputs hs) = length hs div 2"
  by (induction hs rule: level_inputs.induct) auto

lemma level_inputs_inject:
  "\<lbrakk>level_inputs xs = level_inputs ys; length xs = length ys; even (length xs);
    \<forall>x \<in> set xs. length x = 32; \<forall>y \<in> set ys. length y = 32\<rbrakk> \<Longrightarrow> xs = ys"
proof (induction xs arbitrary: ys rule: level_inputs.induct)
  case (1 a b rest)
  then obtain c d rest' where "ys = c # d # rest'"
    by (metis length_Suc_conv list.size(4))
  with 1 show ?case by auto
qed auto

lemma pad_even_inject:
  assumes "length xs = length ys" "pad_even xs = pad_even ys"
  shows "xs = ys"
  using assms by (auto simp: pad_even_def split: if_splits)

lemma even_pad_even: "even (length (pad_even hs))"
  unfolding length_pad_even by presburger

lemma set_pad_even: "set (pad_even hs) = set hs"
  by (cases hs) (auto simp: pad_even_def)

lemma next_level_len: "sha3_32 C \<Longrightarrow> h \<in> set (next_level C hs) \<Longrightarrow> length h = 32"
  by (auto simp: next_level_map sha3_len)

text \<open>C15.  The Merkle root binds the list of transaction identifiers: two lists of the same length
  with the same root are equal, unless two different 64-byte strings that were hashed on the way
  collide under SHA3-256.\<close>

theorem merkle_root_binding:
  assumes "sha3_32 C" "length xs = length ys"
    and "\<forall>x \<in> set xs. length x = 32" "\<forall>y \<in> set ys. length y = 32"
    and "inj_on (sha3_Sum256 C) (merkle_inputs C xs \<union> merkle_inputs C ys)"
    and "computeMerkleRoot C xs = computeMerkleRoot C ys"
  shows "xs = ys"
  using assms(2-6)
proof (induction "length xs" arbitrary: xs ys rule: less_induct)
  case less
  show ?case
  proof (cases "length xs \<le> 1")
    case True
    with less.prems show ?thesis
      by (cases xs; cases ys) (auto simp: computeMerkleRoot.simps [of C])
  next
    case False
    let ?nx = "next_level C (pad_even xs)" and ?ny = "next_level C (pad_even ys)"
    have in_x: "merkle_inputs C xs = set (level_inputs (pad_even xs)) \<union> merkle_inputs C ?nx"
      and in_y: "merkle_inputs C ys = set (level_inputs (pad_even ys)) \<union> merkle_inputs C ?ny"
      using False less.prems(1) merkle_step(2) by auto
    have root: "computeMerkleRoot C ?nx = computeMerkleRoot C ?ny"
      using less.prems(1,5) False merkle_step(1) [of xs C] merkle_step(1) [of ys C] by simp
    have inj: "inj_on (sha3_Sum256 C) (merkle_inputs C ?nx \<union> merkle_inputs C ?ny)"
      using less.prems(4) by (rule inj_on_subset) (auto simp: in_x in_y)
    have len: "length ?nx < length xs" "length ?nx = length ?ny"
      using False less.prems(1) next_level_shorter [of xs C] by (auto simp: length_next_level length_pad_even)
    have l32: "\<forall>x \<in> set (next_level C hs). length x = 32" for hs
      using next_level_len [OF assms(1)] by blast
    have "?nx = ?ny" by (rule less.hyps [OF len l32 l32 inj root])
    moreover have "inj_on (sha3_Sum256 C) (set (level_inputs (pad_even xs)) \<union> set (level_inputs (pad_even ys)))"
      using less.prems(4) by (rule inj_on_subset) (auto simp: in_x in_y)
    ultimately have "level_inputs (pad_even xs) = level_inputs (pad_even ys)"
      unfolding next_level_map by (rule map_inj_on)
    then have "pad_even xs = pad_even ys"
      by (rule level_inputs_inject)
        (use less.prems(1-3) in \<open>simp_all add: even_pad_even set_pad_even length_pad_even\<close>)
    with less.prems(1) show ?thesis by (rule pad_even_inject)
  qed
qed

text \<open>Two leaves under a hash that keeps 16 bytes of each half: no collision arises, so a list with
  another last leaf has another root.\<close>

definition half_crypto :: crypto where
  "half_crypto = sample_crypto\<lparr>sha3_Sum256 := (\<lambda>bs. take 32 (take 16 bs @ take 16 (drop 32 bs) @ replicate 32 0))\<rparr>"

lemma half_crypto_32: "sha3_32 half_crypto"
  by (auto simp: sha3_32_def half_crypto_def min_def)

theorem merkle_root_binding_witness:
  "computeMerkleRoot half_crypto [replicate 32 1, replicate 32 2]
   \<noteq> computeMerkleRoot half_crypto [replicate 32 1, replicate 32 3]"
proof
  assume "computeMerkleRoot half_crypto [replicate 32 1, replicate 32 2]
    = computeMerkleRoot half_crypto [replicate 32 1, replicate 32 3]"
  moreover have "inj_on (sha3_Sum256 half_crypto)
      (merkle_inputs half_crypto [replicate 32 1, replicate 32 2]
       \<union> merkle_inputs half_crypto [replicate 32 1, replicate 32 3])"
    by (simp add: merkle_step(2) pad_even_def merkle_inputs.simps [of _ "[_]"] half_crypto_def replicate_eq_replicate)
  ultimately have "[replicate 32 1, replicate 32 2] = [replicate 32 1, replicate 32 (3 :: byte)]"
    by (intro merkle_root_binding [OF half_crypto_32]) simp_all
  then show False by simp
qed

end
