(* ===== verification/GoSort.thy ===== *)
theory GoSort
  imports Prelude
begin

text \<open>
  The exchange sort the sources write out by hand: for the median time in \<open>src/block.go\<close> and for
  the fee order in \<open>src/mempool.go\<close>.  For \<open>i\<close> and then \<open>j > i\<close>, the elements are swapped when the
  one at \<open>j\<close> belongs before the one at \<open>i\<close>.
\<close>

definition swap_at :: "nat \<Rightarrow> nat \<Rightarrow> 'a list \<Rightarrow> 'a list" where
  "swap_at i j xs = xs[i := xs ! j, j := xs ! i]"

definition swap_step :: "('a \<Rightarrow> 'a \<Rightarrow> bool) \<Rightarrow> nat \<Rightarrow> nat \<Rightarrow> 'a list \<Rightarrow> 'a list" where
  "swap_step lt i j xs = (if lt (xs ! j) (xs ! i) then swap_at i j xs else xs)"

definition sort_inner :: "('a \<Rightarrow> 'a \<Rightarrow> bool) \<Rightarrow> nat \<Rightarrow> 'a list \<Rightarrow> 'a list" where
  "sort_inner lt i xs = fold (swap_step lt i) [Suc i..<length xs] xs"

definition exchange_sort :: "('a \<Rightarrow> 'a \<Rightarrow> bool) \<Rightarrow> 'a list \<Rightarrow> 'a list" where
  "exchange_sort lt xs = fold (sort_inner lt) [0..<length xs] xs"

section \<open>Swapping two elements\<close>

lemma length_swap_at [simp]: "length (swap_at i j xs) = length xs"
  by (simp add: swap_at_def)

lemma mset_swap_at [simp]: "i < length xs \<Longrightarrow> j < length xs \<Longrightarrow> mset (swap_at i j xs) = mset xs"
  by (simp add: swap_at_def mset_swap)

lemma nth_swap_at:
  "i < length xs \<Longrightarrow> j < length xs \<Longrightarrow> k < length xs
   \<Longrightarrow> swap_at i j xs ! k = (if k = j then xs ! i else if k = i then xs ! j else xs ! k)"
  by (auto simp: swap_at_def nth_list_update)

section \<open>The sort sorts\<close>

text \<open>After the inner loop up to \<open>k\<close>: the first \<open>i\<close> elements are unchanged, position \<open>i\<close> holds a
  minimum of positions \<open>i..<k\<close>, and the list is a permutation.\<close>

lemma swap_steps:
  fixes key :: "'a \<Rightarrow> 'k::linorder"
  assumes lt: "\<And>a b. lt a b = (key a < key b)" and "i < length xs" "Suc i \<le> k" "k \<le> length xs"
  defines "ys \<equiv> fold (swap_step lt i) [Suc i..<k] xs"
  shows "length ys = length xs \<and> take i ys = take i xs \<and> mset ys = mset xs
    \<and> (\<forall>j. i \<le> j \<and> j < k \<longrightarrow> key (ys ! i) \<le> key (ys ! j))"
  unfolding ys_def using assms(3,4)
proof (induction k rule: dec_induct)
  case base
  then show ?case by (auto simp: le_less_Suc_eq)
next
  case (step k)
  define zs where "zs = fold (swap_step lt i) [Suc i..<k] xs"
  have zs: "length zs = length xs" "take i zs = take i xs" "mset zs = mset xs"
    "\<And>j. i \<le> j \<Longrightarrow> j < k \<Longrightarrow> key (zs ! i) \<le> key (zs ! j)"
    using step.IH step.prems unfolding zs_def by auto
  have eq: "fold (swap_step lt i) [Suc i..<Suc k] xs = swap_step lt i k zs"
    using step.hyps by (simp add: zs_def)
  have ki: "k < length zs" "i < length zs" "i < k" using step zs(1) assms(2) by auto
  have "key (swap_step lt i k zs ! i) \<le> key (swap_step lt i k zs ! j)" if "i \<le> j" "j < Suc k" for j
    using that zs(4) [of j] ki by (auto simp: swap_step_def lt nth_swap_at less_Suc_eq)
  moreover have "take i (swap_step lt i k zs) = take i zs"
    using ki by (auto simp: swap_step_def swap_at_def take_update_cancel)
  ultimately show ?case unfolding eq using zs ki by (simp add: swap_step_def)
qed

lemma in_set_drop_nth: "x \<in> set (drop i xs) \<longleftrightarrow> (\<exists>j. i \<le> j \<and> j < length xs \<and> x = xs ! j)"
proof
  assume "x \<in> set (drop i xs)"
  then obtain k where "k < length xs - i" "x = xs ! (i + k)" by (auto simp: in_set_conv_nth)
  then show "\<exists>j. i \<le> j \<and> j < length xs \<and> x = xs ! j" by (intro exI [of _ "i + k"]) auto
next
  assume "\<exists>j. i \<le> j \<and> j < length xs \<and> x = xs ! j"
  then obtain j where "i \<le> j" "j < length xs" "x = xs ! j" by blast
  then show "x \<in> set (drop i xs)"
    by (auto simp: in_set_conv_nth intro!: exI [of _ "j - i"])
qed

lemma set_drop_perm:
  assumes "mset ys = mset xs" "take i ys = take i xs" shows "set (drop i ys) = set (drop i xs)"
proof -
  have "mset (take i ys) + mset (drop i ys) = mset (take i xs) + mset (drop i xs)"
    using assms(1) by (metis append_take_drop_id mset_append)
  then have "mset (drop i ys) = mset (drop i xs)" using assms(2) by simp
  then show ?thesis by (rule mset_eq_setD)
qed

text \<open>After the outer loop up to \<open>k\<close>: the first \<open>k\<close> elements are in order and below the rest.\<close>

definition sorted_upto :: "('a \<Rightarrow> 'k::linorder) \<Rightarrow> nat \<Rightarrow> 'a list \<Rightarrow> bool" where
  "sorted_upto key k xs \<longleftrightarrow> (\<forall>i j. i < k \<and> i \<le> j \<and> j < length xs \<longrightarrow> key (xs ! i) \<le> key (xs ! j))"

lemma sort_inner_ok:
  fixes key :: "'a \<Rightarrow> 'k::linorder"
  assumes lt: "\<And>a b. lt a b = (key a < key b)" and "i < length xs" "sorted_upto key i xs"
  shows "length (sort_inner lt i xs) = length xs \<and> mset (sort_inner lt i xs) = mset xs
    \<and> sorted_upto key (Suc i) (sort_inner lt i xs)"
proof -
  define ys where "ys = sort_inner lt i xs"
  have ys: "length ys = length xs" "take i ys = take i xs" "mset ys = mset xs"
    "\<And>j. i \<le> j \<Longrightarrow> j < length xs \<Longrightarrow> key (ys ! i) \<le> key (ys ! j)"
    using swap_steps [of lt key i xs "length xs"] assms unfolding ys_def sort_inner_def by auto
  have "key (ys ! a) \<le> key (ys ! b)" if "a < Suc i" "a \<le> b" "b < length ys" for a b
  proof (cases "a = i")
    case False
    with that have a: "a < i" by simp
    then have ya: "ys ! a = xs ! a" using ys(2) by (metis nth_take)
    show ?thesis
    proof (cases "b < i")
      case True
      then have "ys ! b = xs ! b" using ys(2) by (metis nth_take)
      then show ?thesis using assms a that True unfolding sorted_upto_def ya by simp
    next
      case False
      then have "ys ! b \<in> set (drop i ys)" using that(3)
        by (auto simp: in_set_drop_nth intro!: exI [of _ b])
      then obtain c where "ys ! b = xs ! c" "i \<le> c" "c < length xs"
        using set_drop_perm [OF ys(3,2)] by (auto simp: in_set_drop_nth)
      then show ?thesis using assms(3) a unfolding sorted_upto_def ya by simp
    qed
  qed (use ys that in auto)
  then show ?thesis using ys unfolding sorted_upto_def ys_def [symmetric] by auto
qed

lemma exchange_sort_upto:
  fixes key :: "'a \<Rightarrow> 'k::linorder"
  assumes lt: "\<And>a b. lt a b = (key a < key b)" and "k \<le> length xs"
  shows "length (fold (sort_inner lt) [0..<k] xs) = length xs \<and> mset (fold (sort_inner lt) [0..<k] xs) = mset xs
    \<and> sorted_upto key k (fold (sort_inner lt) [0..<k] xs)"
  using assms(2)
proof (induction k)
  case 0
  then show ?case by (simp add: sorted_upto_def)
next
  case (Suc k)
  then show ?case using sort_inner_ok [of lt key k "fold (sort_inner lt) [0..<k] xs", OF lt] by simp
qed

lemma exchange_sort_ok:
  fixes key :: "'a \<Rightarrow> 'k::linorder"
  assumes lt: "\<And>a b. lt a b = (key a < key b)"
  shows "mset (exchange_sort lt xs) = mset xs" "sorted (map key (exchange_sort lt xs))"
  using exchange_sort_upto [of lt key "length xs" xs, OF lt]
  by (auto simp: exchange_sort_def sorted_upto_def sorted_iff_nth_mono)

text \<open>The last round of the outer loop has nothing to compare.\<close>

lemma sort_inner_last: "length xs \<le> Suc i \<Longrightarrow> sort_inner lt i xs = xs"
  by (simp add: sort_inner_def)

end
