(* ===== verification/Difficulty.thy ===== *)
theory Difficulty
  imports BlockFormat GoSort
begin

text \<open>
  Difficulty adjustment and median time (\<open>src/block.go\<close>): \<open>computeLWMA\<close>, the local
  \<open>computeLWMAFrom\<close> of \<open>VerifyChainWithCheckpoints\<close>, \<open>expectedDifficultyFromParent\<close> and
  \<open>medianTimestampFromParent\<close>.

  The loop body and the final division are written out four times in the source; here they are
  \<open>lwma_step\<close> and \<open>lwma_finish\<close>.  A block getter changes the caches of its chain, so it takes the
  chain state and returns the next one.
\<close>

definition LWMAWindow :: nat where "LWMAWindow = 60"
definition MinDifficulty :: u64 where "MinDifficulty = 4"
definition BlockIntervalSec :: i64 where "BlockIntervalSec = 300"
definition LWMAMinSolvetime :: i64 where "LWMAMinSolvetime = 1"
definition LWMAMaxSolvetime :: i64 where "LWMAMaxSolvetime = BlockIntervalSec * 6"

lemmas lwma_consts = LWMAWindow_def MinDifficulty_def BlockIntervalSec_def LWMAMinSolvetime_def
  LWMAMaxSolvetime_def

abbreviation bts :: "Block \<Rightarrow> i64" where "bts b \<equiv> Timestamp (Header b)"
abbreviation bdiff :: "Block \<Rightarrow> u64" where "bdiff b \<equiv> Difficulty (Header b)"
abbreviation bheight :: "Block \<Rightarrow> u64" where "bheight b \<equiv> Height (Header b)"
abbreviation bprev :: "Block \<Rightarrow> hash" where "bprev b \<equiv> PrevHash (Header b)"

section \<open>LWMA\<close>

definition clamp_solvetime :: "i64 \<Rightarrow> i64" where
  "clamp_solvetime solvetime =
     (let solvetime = (if sint solvetime < sint LWMAMinSolvetime then LWMAMinSolvetime else solvetime)
      in if sint LWMAMaxSolvetime < sint solvetime then LWMAMaxSolvetime else solvetime)"

definition lwma_step :: "Block \<Rightarrow> Block \<Rightarrow> nat \<Rightarrow> i64 \<times> u64 \<Rightarrow> i64 \<times> u64" where
  "lwma_step prev cur i sums =
     (fst sums + clamp_solvetime (bts cur - bts prev) * word_of_nat i, snd sums + bdiff cur)"

definition lwma_finish :: "i64 \<times> u64 \<Rightarrow> u64" where
  "lwma_finish sums =
     (let weightSum = word_of_nat (LWMAWindow * (LWMAWindow + 1) div 2);
          avgDifficulty = snd sums div word_of_nat LWMAWindow;
          expectedWeightedSum = BlockIntervalSec * weightSum;
          weightedSolvetimeSum = (if sint (fst sums) < 1 then 1 else fst sums);
          newDiff = avgDifficulty * expectedWeightedSum div weightedSolvetimeSum
      in if newDiff < MinDifficulty then MinDifficulty else newDiff)"

text \<open>The loop over a window \<open>blocks[0..LWMAWindow]\<close>.\<close>

definition lwma_window :: "Block list \<Rightarrow> u64" where
  "lwma_window blocks =
     lwma_finish (fold (\<lambda>i. lwma_step (blocks ! (i - 1)) (blocks ! i) i) [1..<Suc LWMAWindow] (0, 0))"

definition computeLWMA :: "Block list \<Rightarrow> u64 \<Rightarrow> u64" where
  "computeLWMA blocks height =
     lwma_finish (fold (\<lambda>i. let idx = height - word_of_nat LWMAWindow + word_of_nat i
                            in lwma_step (blocks ! unat (idx - 1)) (blocks ! unat idx) i)
                    [1..<Suc LWMAWindow] (0, 0))"

fun lwma_from :: "(u64 \<Rightarrow> Block option) \<Rightarrow> u64 \<Rightarrow> nat list \<Rightarrow> i64 \<times> u64 \<Rightarrow> (i64 \<times> u64) option" where
  "lwma_from get parentHeight [] sums = Some sums"
| "lwma_from get parentHeight (i # is) sums =
     (let idx = parentHeight - word_of_nat LWMAWindow + word_of_nat i in
      case (get idx, get (idx - 1)) of
        (Some cur, Some prev) \<Rightarrow> lwma_from get parentHeight is (lwma_step prev cur i sums)
      | _ \<Rightarrow> None)"

definition computeLWMAFrom :: "(u64 \<Rightarrow> Block option) \<Rightarrow> u64 \<Rightarrow> u64 option" where
  "computeLWMAFrom get parentHeight =
     map_option lwma_finish (lwma_from get parentHeight [1..<Suc LWMAWindow] (0, 0))"

section \<open>Parent context\<close>

type_synonym 's block_getter = "'s \<Rightarrow> hash \<Rightarrow> Block option \<times> 's"

datatype context_error = InsufficientAncestors | MissingAncestor u64 | NoTimestamps | BadMedianWindow

text \<open>The downward loop that fills \<open>blocks[i], ..., blocks[0]\<close>.\<close>

fun collect_window :: "'s block_getter \<Rightarrow> nat \<Rightarrow> Block \<Rightarrow> Block list \<Rightarrow> 's
    \<Rightarrow> (context_error + Block list) \<times> 's" where
  "collect_window get 0 current acc s = (Inr (current # acc), s)"
| "collect_window get (Suc i) current acc s =
     (if bheight current = 0 then (Inl InsufficientAncestors, s)
      else case get s (bprev current) of
        (None, s') \<Rightarrow> (Inl (MissingAncestor (bheight current - 1)), s')
      | (Some parent, s') \<Rightarrow> collect_window get i parent (current # acc) s')"

definition expectedDifficultyFromParent :: "'s block_getter \<Rightarrow> Block \<Rightarrow> 's
    \<Rightarrow> (context_error + u64) \<times> 's" where
  "expectedDifficultyFromParent getParent parent s =
     (if bheight parent < word_of_nat LWMAWindow then (Inr MinDifficulty, s)
      else case collect_window getParent LWMAWindow parent [] s of
        (Inl e, s') \<Rightarrow> (Inl e, s')
      | (Inr blocks, s') \<Rightarrow> (Inr (lwma_window blocks), s'))"

fun collect_timestamps :: "'s block_getter \<Rightarrow> nat \<Rightarrow> Block \<Rightarrow> 's \<Rightarrow> i64 list \<times> 's" where
  "collect_timestamps get 0 current s = ([], s)"
| "collect_timestamps get (Suc n) current s =
     (if bheight current = 0 then ([bts current], s)
      else case get s (bprev current) of
        (None, s') \<Rightarrow> ([bts current], s')
      | (Some parent, s') \<Rightarrow> apfst ((#) (bts current)) (collect_timestamps get n parent s'))"

section \<open>Median time past\<close>

definition median_of :: "i64 list \<Rightarrow> i64" where
  "median_of xs = exchange_sort (\<lambda>a b. sint a < sint b) xs ! (length xs div 2)"

definition medianTimestampFromParent :: "'s block_getter \<Rightarrow> Block \<Rightarrow> nat \<Rightarrow> 's
    \<Rightarrow> (context_error + i64) \<times> 's" where
  "medianTimestampFromParent getParent parent n s =
     (if n = 0 then (Inl BadMedianWindow, s)
      else case collect_timestamps getParent n parent s of (timestamps, s') \<Rightarrow>
        if timestamps = [] then (Inl NoTimestamps, s') else (Inr (median_of timestamps), s'))"

section \<open>The sort sorts\<close>

lemma exchange_sort_sorts: "exchange_sort (\<lambda>a b. sint a < sint b) xs = sort_key sint xs" for xs :: "i64 list"
proof -
  let ?ys = "exchange_sort (\<lambda>a b. sint a < sint b) xs"
  have s: "mset ?ys = mset xs" and "sorted (map sint ?ys)"
    using exchange_sort_ok [of "\<lambda>a b. sint a < sint b" sint xs] by auto
  moreover have "filter (\<lambda>x. sint k = sint x) ?ys = filter (\<lambda>x. sint k = sint x) xs"
    for k :: i64
  proof -
    have "filter (\<lambda>x. sint k = sint x) zs = replicate (count (mset zs) k) k" for zs :: "i64 list"
      by (auto simp: replicate_count_mset_eq_filter_eq intro!: filter_cong dest: signed_word_eqI)
    then show ?thesis by (simp add: s)
  qed
  ultimately show ?thesis using s \<open>sorted (map sint ?ys)\<close> by (intro properties_for_sort_key [symmetric])
qed

section \<open>LWMA over the integers\<close>

definition solvetime :: "Block \<Rightarrow> Block \<Rightarrow> nat" where
  "solvetime prev cur = nat (min 1800 (max 1 (sint (bts cur - bts prev))))"

definition weighted_time :: "Block list \<Rightarrow> nat \<Rightarrow> nat" where
  "weighted_time ws n = (\<Sum>i = 1..n. i * solvetime (ws ! (i - 1)) (ws ! i))"

definition difficulty_sum :: "Block list \<Rightarrow> nat \<Rightarrow> nat" where
  "difficulty_sum ws n = (\<Sum>i = 1..n. unat (bdiff (ws ! i)))"

lemma clamp_nat: "unat (clamp_solvetime (bts cur - bts prev)) = solvetime prev cur"
proof -
  have "sint (clamp_solvetime s) = min 1800 (max 1 (sint s))" for s
    by (auto simp: clamp_solvetime_def Let_def lwma_consts)
  then have "int (unat (clamp_solvetime s)) = min 1800 (max 1 (sint s))" for s
    by (subst unat_sint) auto
  then show ?thesis unfolding solvetime_def by (metis nat_int)
qed

lemma solvetime_bounds: "1 \<le> solvetime p c" "solvetime p c \<le> 1800"
  by (auto simp: solvetime_def)

lemma weighted_bounds:
  "2 * weighted_time ws n \<le> 1800 * (n * (n + 1))" "n * (n + 1) \<le> 2 * weighted_time ws n"
proof -
  have "(\<Sum>i = 1..n. i) \<le> weighted_time ws n" "weighted_time ws n \<le> (\<Sum>i = 1..n. i * 1800)"
    unfolding weighted_time_def by (rule sum_mono; use solvetime_bounds in simp)+
  moreover have "2 * (\<Sum>i = 1..n. i) = n * (n + 1)"
    using gauss_sum_from_Suc_0 [of n, where ?'a = nat] by simp
  moreover have "(\<Sum>i = 1..n. i * 1800) = (\<Sum>i = 1..n. i) * 1800"
    by (simp add: sum_distrib_right)
  ultimately show "2 * weighted_time ws n \<le> 1800 * (n * (n + 1))" "n * (n + 1) \<le> 2 * weighted_time ws n"
    by linarith+
qed

lemma lwma_fold:
  assumes "n \<le> 60" "difficulty_sum ws n < 2 ^ 64"
  defines "r \<equiv> fold (\<lambda>i. lwma_step (ws ! (i - 1)) (ws ! i) i) [1..<Suc n] (0, 0)"
  shows "unat (fst r) = weighted_time ws n \<and> unat (snd r) = difficulty_sum ws n"
  unfolding r_def using assms(1,2)
proof (induction n)
  case 0
  then show ?case by (simp add: weighted_time_def difficulty_sum_def)
next
  case (Suc n)
  define q where "q = fold (\<lambda>i. lwma_step (ws ! (i - 1)) (ws ! i) i) [1..<Suc n] (0, 0)"
  have d: "difficulty_sum ws (Suc n) = difficulty_sum ws n + unat (bdiff (ws ! Suc n))"
    and w: "weighted_time ws (Suc n) = weighted_time ws n + Suc n * solvetime (ws ! n) (ws ! Suc n)"
    by (simp_all add: difficulty_sum_def weighted_time_def)
  have q: "unat (fst q) = weighted_time ws n" "unat (snd q) = difficulty_sum ws n"
    using Suc d unfolding q_def by auto
  have step: "fold (\<lambda>i. lwma_step (ws ! (i - 1)) (ws ! i) i) [1..<Suc (Suc n)] (0, 0)
      = lwma_step (ws ! n) (ws ! Suc n) (Suc n) q"
    by (simp add: q_def)
  have wb: "weighted_time ws (Suc n) < 2 ^ 64"
    using weighted_bounds(1) [of ws "Suc n"] Suc.prems(1)
      mult_le_mono [of "Suc n" 60 "Suc n + 1" 61] by simp
  have "unat (clamp_solvetime (bts (ws ! Suc n) - bts (ws ! n)) * word_of_nat (Suc n) :: u64)
      = Suc n * solvetime (ws ! n) (ws ! Suc n)"
    using wb Suc.prems(1) unfolding w
    by (subst unat_mult_lem [THEN iffD1]) (auto simp: clamp_nat unat_of_nat mult.commute simp del: of_nat_Suc)
  then show ?case
    unfolding step using q wb Suc.prems(2) unfolding w d
    by (simp add: lwma_step_def unat_add_no_wrap del: of_nat_Suc)
qed

lemma lwma_finish_nat:
  assumes w: "0 < unat (fst s)" "unat (fst s) < 2 ^ 63"
    and d: "unat (snd s) div 60 * 549000 < 2 ^ 64"
  shows "unat (lwma_finish s) = max 4 (unat (snd s) div 60 * 549000 div unat (fst s))"
proof -
  have "\<not> sint (fst s) < 1" using w sint_small [of "fst s"] by linarith
  moreover have "unat (snd s div 60 * 549000 :: u64) = unat (snd s) div 60 * 549000"
    using d by (subst unat_mult_lem [THEN iffD1]) (auto simp: unat_div)
  ultimately show ?thesis
    by (simp add: lwma_finish_def Let_def lwma_consts unat_div word_less_nat_alt max_def not_less)
qed

text \<open>C16.  Difficulty retargeting computes, in exact integer arithmetic, the average difficulty of the
  window scaled by the ratio of the expected to the weighted actual solve time, floored at
  \<open>MinDifficulty\<close>; one retarget divides the average by at most 6 and multiplies it by at most 300.
  No 64-bit operation wraps while the difficulties of the window stay at or below
  33,000,000,000,000.\<close>

theorem lwma_exact:
  assumes small: "\<forall>i \<in> {1..60}. unat (bdiff (ws ! i)) \<le> 33000000000000"
  defines "avg \<equiv> difficulty_sum ws 60 div 60"
  shows "unat (lwma_window ws) = max 4 (avg * 549000 div weighted_time ws 60)
    \<and> avg div 6 \<le> unat (lwma_window ws) \<and> unat (lwma_window ws) \<le> max 4 (300 * avg)"
proof -
  have "difficulty_sum ws 60 \<le> of_nat (card {1..60 :: nat}) * 33000000000000"
    unfolding difficulty_sum_def using small by (intro sum_bounded_above) auto
  then have d: "difficulty_sum ws 60 \<le> 60 * 33000000000000" by simp
  then have avg: "avg \<le> 33000000000000" unfolding avg_def by (simp add: div_le_mono)
  have w: "weighted_time ws 60 \<le> 3294000" "1830 \<le> weighted_time ws 60"
    using weighted_bounds(1) [of ws 60] weighted_bounds(2) [of 60 ws] by simp_all
  define r where "r = fold (\<lambda>i. lwma_step (ws ! (i - 1)) (ws ! i) i) [1..<Suc 60] (0, 0)"
  have r: "unat (fst r) = weighted_time ws 60" "unat (snd r) = difficulty_sum ws 60"
    using lwma_fold [of 60 ws] d unfolding r_def by auto
  have "unat (lwma_window ws) = max 4 (avg * 549000 div weighted_time ws 60)"
    using lwma_finish_nat [of r] r w avg
    by (simp add: lwma_window_def LWMAWindow_def avg_def r_def del: upt_Suc)
  moreover have "avg div 6 \<le> avg * 549000 div weighted_time ws 60"
  proof -
    have "avg div 6 = avg * 549000 div 3294000" by (simp add: div_mult2_eq [symmetric])
    also have "\<dots> \<le> avg * 549000 div weighted_time ws 60" using w by (intro div_le_mono2) auto
    finally show ?thesis .
  qed
  moreover have "avg * 549000 div weighted_time ws 60 \<le> 300 * avg"
  proof -
    have "avg * 549000 div weighted_time ws 60 \<le> avg * 549000 div 1830"
      using w by (intro div_le_mono2) auto
    then show ?thesis by simp
  qed
  ultimately show ?thesis by auto
qed

definition sample_block :: "u64 \<Rightarrow> Block" where
  "sample_block h = \<lparr>Header = sample_header\<lparr>Height := h, Timestamp := 300 * h, Difficulty := 1000\<rparr>,
     Transactions = []\<rparr>"

theorem lwma_exact_witness:
  "unat (lwma_window (map (sample_block \<circ> word_of_nat) [0..<61])) \<le> 300000
   \<and> 166 \<le> unat (lwma_window (map (sample_block \<circ> word_of_nat) [0..<61]))"
proof -
  let ?ws = "map (sample_block \<circ> word_of_nat) [0..<61]"
  have d: "bdiff (?ws ! i) = 1000" if "i \<in> {1..60}" for i
    using that by (simp add: sample_block_def nth_map del: upt_rec_numeral)
  then have "difficulty_sum ?ws 60 = (\<Sum>i = 1..60::nat. 1000)"
    unfolding difficulty_sum_def by (intro sum.cong) simp_all
  then have "difficulty_sum ?ws 60 = 60000" by simp
  moreover have "\<forall>i \<in> {1..60}. unat (bdiff (?ws ! i)) \<le> 33000000000000" using d by simp
  note conjunct2 [OF lwma_exact [OF this]]
  ultimately show ?thesis by simp
qed

text \<open>C17.  The exchange sort of the median computation is a sort: it returns the timestamps in
  ascending signed order, so the value compared against is the (upper) median, and exactly the
  given timestamps are used.\<close>

theorem median_is_upper_median:
  "exchange_sort (\<lambda>a b. sint a < sint b) xs = sort_key sint xs \<and> median_of xs = sort_key sint xs ! (length xs div 2)"
  by (simp add: exchange_sort_sorts median_of_def)

end
