(* ===== verification/BlockValidation.thy ===== *)
theory BlockValidation
  imports Difficulty
begin

text \<open>
  Contextual block validation (\<open>src/block.go\<close>, \<open>validateBlockWithContext\<close> and its helpers, the
  genesis rules, and \<open>GetBlockReward\<close> of \<open>src/miner.go\<close>).

  \<open>validateBlockWithContext\<close> receives the chain through closures: a block getter and a ring-member
  check, both of which may change the caches, and a spent check.  Times are the successive
  readings of \<open>time.Now().Unix()\<close>.  The emission curve is computed in float64 by the source; its
  truncated value per month is the parameter \<open>float_reward\<close>.
\<close>

record net_params =
  IsTestnet :: bool
  float_reward :: "u64 \<Rightarrow> u64"

section \<open>Emission\<close>

definition TailEmission :: u64 where "TailEmission = 200000000"
definition MonthsToTail :: u64 where "MonthsToTail = 48"
definition BlocksPerMonth :: u64 where "BlocksPerMonth = 30 * 24 * 60 * 60 div 300"

definition GetBlockReward :: "net_params \<Rightarrow> u64 \<Rightarrow> u64" where
  "GetBlockReward P height =
     (let month = height div BlocksPerMonth in
      if MonthsToTail \<le> month then TailEmission
      else let reward = float_reward P month in
           if reward < TailEmission then TailEmission else reward)"

section \<open>Genesis\<close>

definition ActiveGenesisMessage :: "net_params \<Rightarrow> bytes" where
  "ActiveGenesisMessage P = go_string (if IsTestnet P then ''Blocknet Testnet Genesis 2026''
     else ''Wired 2026/02/15 - The Nothing That Has the Potential to Be Anything'')"

definition ActiveGenesisTimestamp :: "net_params \<Rightarrow> i64" where
  "ActiveGenesisTimestamp P = (if IsTestnet P then 1772000000 else 1771207118)"

definition GenesisPrevHash :: "crypto \<Rightarrow> net_params \<Rightarrow> hash" where
  "GenesisPrevHash C P = sha3_Sum256 C (ActiveGenesisMessage P)"

definition GetGenesisBlock :: "crypto \<Rightarrow> net_params \<Rightarrow> Block" where
  "GetGenesisBlock C P =
     \<lparr>Header = \<lparr>Version = 1, Height = 0, PrevHash = GenesisPrevHash C P, MerkleRoot = replicate 32 0,
        Timestamp = ActiveGenesisTimestamp P, Difficulty = MinDifficulty, Nonce = 0\<rparr>,
      Transactions = []\<rparr>"

datatype coinbase_error =
    CoinbaseOutputCount nat | CoinbaseCommitmentFailed crypto_error | CoinbaseCommitmentMismatch
  | CoinbaseAmountMismatch | CoinbaseMemoNotEmpty

datatype block_error =
    BadBlockVersion
  | GenesisHeight | GenesisPrev | GenesisTimestamp | GenesisDifficulty | GenesisNonce
  | GenesisTransactions | GenesisMerkleRoot
  | OrphanBlock | HeightLinkage u64 u64 | NotAfterParent | TipHeight u64 u64
  | DifficultyContext context_error | WrongDifficulty u64 u64
  | MedianContext context_error | NotAfterMedian i64 i64 | TooFarInFuture
  | BelowMinDifficulty u64 | BadProofOfWork | BlockTooLarge nat
  | NoTransactions | FirstNotCoinbase | MultipleCoinbase
  | BadTransaction nat tx_error | DuplicateInBlock nat nat
  | BadCoinbase coinbase_error | MerklePanic | WrongMerkleRoot
  | CheckpointMismatch u64 | StaleBlock | WrongHeight u64 u64

definition validateGenesisBlock :: "crypto \<Rightarrow> net_params \<Rightarrow> Block \<Rightarrow> block_error + unit" where
  "validateGenesisBlock C P block =
     (let header = Header block in
      if Height header \<noteq> 0 then Inl GenesisHeight
      else if PrevHash header \<noteq> GenesisPrevHash C P then Inl GenesisPrev
      else if Timestamp header \<noteq> ActiveGenesisTimestamp P then Inl GenesisTimestamp
      else if Difficulty header \<noteq> MinDifficulty then Inl GenesisDifficulty
      else if Nonce header \<noteq> 0 then Inl GenesisNonce
      else if length (Transactions block) \<noteq> 0 then Inl GenesisTransactions
      else if MerkleRoot header \<noteq> replicate 32 0 then Inl GenesisMerkleRoot
      else if MaxBlockSize < block_Size block then Inl (BlockTooLarge (block_Size block))
      else Inr ())"

section \<open>Proof of work, time and coinbase rules\<close>

definition validatePoW :: "crypto \<Rightarrow> BlockHeader \<Rightarrow> bool" where
  "validatePoW C header =
     (case PowHash C (SerializeForPoW header) (Nonce header) of
        Inl _ \<Rightarrow> False
      | Inr h \<Rightarrow> PowCheckTarget h (DifficultyToTarget (Difficulty header)))"

definition TimestampFuturLimit :: i64 where "TimestampFuturLimit = 2 * 60 * 60"

definition validateTimestampWithMedian :: "BlockHeader \<Rightarrow> i64 \<Rightarrow> i64 \<Rightarrow> block_error + unit" where
  "validateTimestampWithMedian header medianTime now =
     (if sint (Timestamp header) \<le> sint medianTime then Inl (NotAfterMedian (Timestamp header) medianTime)
      else if sint (now + TimestampFuturLimit) < sint (Timestamp header) then Inl TooFarInFuture
      else Inr ())"

definition validateCoinbaseConsensus :: "crypto \<Rightarrow> net_params \<Rightarrow> Transaction \<Rightarrow> u64
    \<Rightarrow> coinbase_error + unit" where
  "validateCoinbaseConsensus C P coinbase blockHeight =
     (case Outputs coinbase of
        [out] \<Rightarrow>
          (let expectedReward = GetBlockReward P blockHeight;
               expectedBlinding = deriveCoinbaseConsensusBlinding C (TxPublicKey coinbase) blockHeight 0
           in case CreatePedersenCommitmentWithBlinding C expectedReward expectedBlinding of
                Inl e \<Rightarrow> Inl (CoinbaseCommitmentFailed e)
              | Inr expectedCommitment \<Rightarrow>
                  if Commitment out \<noteq> expectedCommitment then Inl CoinbaseCommitmentMismatch
                  else if EncryptedAmount out \<noteq> EncryptAmount C expectedReward expectedBlinding 0
                  then Inl CoinbaseAmountMismatch
                  else if DecryptMemo C (IsTestnet P) (EncryptedMemo out) expectedBlinding 0 \<noteq> Some []
                  then Inl CoinbaseMemoNotEmpty
                  else Inr ())
      | outs \<Rightarrow> Inl (CoinbaseOutputCount (length outs)))"

section \<open>The transactions of a block\<close>

fun mark_images :: "nat \<Rightarrow> nat \<Rightarrow> TxInput list \<Rightarrow> hash set \<Rightarrow> block_error + hash set" where
  "mark_images i j [] seen = Inr seen"
| "mark_images i j (inp # inps) seen =
     (if KeyImage inp \<in> seen then Inl (DuplicateInBlock i j)
      else mark_images i (Suc j) inps (insert (KeyImage inp) seen))"

fun check_txs :: "crypto \<Rightarrow> KeyImageChecker \<Rightarrow> 's RingMemberChecker \<Rightarrow> nat \<Rightarrow> Transaction list
    \<Rightarrow> hash set \<Rightarrow> 's \<Rightarrow> (block_error + unit) \<times> 's" where
  "check_txs C isSpent check i [] seen s = (Inr (), s)"
| "check_txs C isSpent check i (tx # txs) seen s =
     (case ValidateTransaction C tx isSpent (Some check) s of
        (Inl e, s') \<Rightarrow> (Inl (BadTransaction i e), s')
      | (Inr _, s') \<Rightarrow>
          if IsCoinbase tx then check_txs C isSpent check (Suc i) txs seen s'
          else case mark_images i 0 (Inputs tx) seen of
            Inl e \<Rightarrow> (Inl e, s')
          | Inr seen' \<Rightarrow> check_txs C isSpent check (Suc i) txs seen' s')"

text \<open>From the size check on: nothing below reads the parent any more.\<close>

definition validate_body :: "crypto \<Rightarrow> net_params \<Rightarrow> KeyImageChecker \<Rightarrow> 's RingMemberChecker \<Rightarrow> Block
    \<Rightarrow> 's \<Rightarrow> (block_error + unit) \<times> 's" where
  "validate_body C P isSpent check block s =
     (if MaxBlockSize < block_Size block then (Inl (BlockTooLarge (block_Size block)), s)
      else case Transactions block of
        [] \<Rightarrow> (Inl NoTransactions, s)
      | coinbase # others \<Rightarrow>
          if \<not> IsCoinbase coinbase then (Inl FirstNotCoinbase, s)
          else if \<exists>tx \<in> set others. IsCoinbase tx then (Inl MultipleCoinbase, s)
          else case check_txs C isSpent check 0 (coinbase # others) {} s of
            (Inl e, s') \<Rightarrow> (Inl e, s')
          | (Inr _, s') \<Rightarrow>
             (case validateCoinbaseConsensus C P coinbase (bheight block) of
                Inl e \<Rightarrow> (Inl (BadCoinbase e), s')
              | Inr _ \<Rightarrow>
             (case ComputeMerkleRoot C block of
                None \<Rightarrow> (Inl MerklePanic, s')
              | Some merkleRoot \<Rightarrow>
                  if merkleRoot \<noteq> MerkleRoot (Header block) then (Inl WrongMerkleRoot, s')
                  else (Inr (), s'))))"

definition validate_time :: "crypto \<Rightarrow> bool \<Rightarrow> (nat \<Rightarrow> i64) \<Rightarrow> i64 \<Rightarrow> BlockHeader \<Rightarrow> block_error + unit" where
  "validate_time C skipPoW now medianTime header =
     (case validateTimestampWithMedian header medianTime (now 0) of
        Inl e \<Rightarrow> Inl e
      | Inr _ \<Rightarrow>
          if Difficulty header < MinDifficulty then Inl (BelowMinDifficulty (Difficulty header))
          else if sint (now 1 + TimestampFuturLimit) < sint (Timestamp header) then Inl TooFarInFuture
          else if \<not> skipPoW \<and> \<not> validatePoW C header then Inl BadProofOfWork
          else Inr ())"

definition validateBlockWithContext :: "crypto \<Rightarrow> net_params \<Rightarrow> (nat \<Rightarrow> i64) \<Rightarrow> Block \<Rightarrow> hash \<Rightarrow> u64
    \<Rightarrow> 's block_getter \<Rightarrow> KeyImageChecker \<Rightarrow> 's RingMemberChecker \<Rightarrow> bool \<Rightarrow> 's
    \<Rightarrow> (block_error + unit) \<times> 's" where
  "validateBlockWithContext C P now block bestHash tipHeight getParent isSpent check skipPoW s =
     (let header = Header block in
      if Version header = 0 then (Inl BadBlockVersion, s)
      else if Height header = 0 then (validateGenesisBlock C P block, s)
      else case getParent s (PrevHash header) of
        (None, s1) \<Rightarrow> (Inl OrphanBlock, s1)
      | (Some parent, s1) \<Rightarrow>
          if Height header \<noteq> bheight parent + 1
          then (Inl (HeightLinkage (bheight parent) (Height header)), s1)
          else if sint (Timestamp header) \<le> sint (bts parent) then (Inl NotAfterParent, s1)
          else if PrevHash header = bestHash \<and> Height header \<noteq> tipHeight + 1
          then (Inl (TipHeight (tipHeight + 1) (Height header)), s1)
          else case expectedDifficultyFromParent getParent parent s1 of
            (Inl e, s2) \<Rightarrow> (Inl (DifficultyContext e), s2)
          | (Inr expectedDifficulty, s2) \<Rightarrow>
              if Difficulty header \<noteq> expectedDifficulty
              then (Inl (WrongDifficulty expectedDifficulty (Difficulty header)), s2)
              else case medianTimestampFromParent getParent parent 11 s2 of
                (Inl e, s3) \<Rightarrow> (Inl (MedianContext e), s3)
              | (Inr medianTime, s3) \<Rightarrow>
                 (case validate_time C skipPoW now medianTime header of
                    Inl e \<Rightarrow> (Inl e, s3)
                  | Inr _ \<Rightarrow> validate_body C P isSpent check block s3))"

section \<open>Block getters\<close>

text \<open>What a cached block getter promises: it only returns blocks of \<open>lookup\<close> and keeps the
  invariant of the caches; a \<open>block_source\<close> in addition finds every block of \<open>lookup\<close>.\<close>

locale block_reader =
  fixes get :: "'s block_getter"
    and lookup :: "hash \<Rightarrow> Block option"
    and inv :: "'s \<Rightarrow> bool"
  assumes get_sound: "inv s \<Longrightarrow> fst (get s h) = Some b \<Longrightarrow> lookup h = Some b"
    and get_keeps: "inv s \<Longrightarrow> inv (snd (get s h))"

text \<open>The same functions run over a plain lookup, with nothing to cache.\<close>

definition pure_get :: "(hash \<Rightarrow> Block option) \<Rightarrow> unit block_getter" where
  "pure_get lookup u h = (lookup h, ())"

locale block_source = block_reader +
  assumes get_finds: "inv s \<Longrightarrow> lookup h = Some b \<Longrightarrow> fst (get s h) = Some b"
begin

lemma get_eq: "inv s \<Longrightarrow> fst (get s h) = lookup h"
  by (metis get_finds get_sound option.exhaust)

lemma window_pure:
  assumes "inv s"
  shows "fst (collect_window get i b acc s) = fst (collect_window (pure_get lookup) i b acc ())
    \<and> inv (snd (collect_window get i b acc s))"
  using assms
proof (induction i arbitrary: b acc s)
  case (Suc i)
  obtain r s' where g: "get s (bprev b) = (r, s')" by fastforce
  have "r = lookup (bprev b)" "inv s'"
    using get_eq [OF Suc.prems, of "bprev b"] get_keeps [OF Suc.prems, of "bprev b"] g by simp_all
  with Suc g show ?case by (auto simp: pure_get_def split: option.splits)
qed simp

lemma timestamps_pure:
  assumes "inv s"
  shows "fst (collect_timestamps get n b s) = fst (collect_timestamps (pure_get lookup) n b ())
    \<and> inv (snd (collect_timestamps get n b s))"
  using assms
proof (induction n arbitrary: b s)
  case (Suc n)
  obtain r s' where g: "get s (bprev b) = (r, s')" by fastforce
  have "r = lookup (bprev b)" "inv s'"
    using get_eq [OF Suc.prems, of "bprev b"] get_keeps [OF Suc.prems, of "bprev b"] g by simp_all
  with Suc g show ?case by (auto simp: pure_get_def split: option.splits)
qed simp

lemma difficulty_pure:
  assumes "inv s"
  shows "fst (expectedDifficultyFromParent get b s) = fst (expectedDifficultyFromParent (pure_get lookup) b ())
    \<and> inv (snd (expectedDifficultyFromParent get b s))"
  using window_pure [OF assms, of LWMAWindow b "[]"] assms
  by (auto simp: expectedDifficultyFromParent_def split: prod.splits sum.splits)

lemma median_pure:
  assumes "inv s"
  shows "fst (medianTimestampFromParent get b n s) = fst (medianTimestampFromParent (pure_get lookup) b n ())
    \<and> inv (snd (medianTimestampFromParent get b n s))"
  using timestamps_pure [OF assms, of n b] assms
  by (auto simp: medianTimestampFromParent_def split: prod.splits)

end

section \<open>What block validation means\<close>

definition tx_images :: "Transaction list \<Rightarrow> hash list" where
  "tx_images txs = concat (map (map KeyImage \<circ> Inputs) txs)"

definition block_images :: "Block \<Rightarrow> hash list" where
  "block_images block = tx_images (Transactions block)"

definition body_valid :: "crypto \<Rightarrow> net_params \<Rightarrow> KeyImageChecker \<Rightarrow> (hash \<Rightarrow> hash \<Rightarrow> bool) \<Rightarrow> Block \<Rightarrow> bool"
where
  "body_valid C P isSpent canon block \<longleftrightarrow>
     block_Size block \<le> MaxBlockSize
     \<and> (\<exists>coinbase others. Transactions block = coinbase # others \<and> IsCoinbase coinbase
          \<and> (\<forall>tx \<in> set others. \<not> IsCoinbase tx)
          \<and> validateCoinbaseConsensus C P coinbase (bheight block) = Inr ())
     \<and> (\<forall>tx \<in> set (Transactions block). tx_valid C tx isSpent canon)
     \<and> distinct (block_images block)
     \<and> ComputeMerkleRoot C block = Some (MerkleRoot (Header block))"

definition linked_valid :: "crypto \<Rightarrow> net_params \<Rightarrow> (nat \<Rightarrow> i64) \<Rightarrow> hash \<Rightarrow> u64 \<Rightarrow> (hash \<Rightarrow> Block option)
    \<Rightarrow> bool \<Rightarrow> Block \<Rightarrow> Block \<Rightarrow> bool" where
  "linked_valid C P now bestHash tipHeight lookup skipPoW block parent \<longleftrightarrow>
     bheight block = bheight parent + 1
     \<and> sint (bts parent) < sint (bts block)
     \<and> (bprev block = bestHash \<longrightarrow> bheight block = tipHeight + 1)
     \<and> fst (expectedDifficultyFromParent (pure_get lookup) parent ()) = Inr (bdiff block)
     \<and> (\<exists>medianTime. fst (medianTimestampFromParent (pure_get lookup) parent 11 ()) = Inr medianTime
          \<and> validate_time C skipPoW now medianTime (Header block) = Inr ())"

definition block_valid :: "crypto \<Rightarrow> net_params \<Rightarrow> (nat \<Rightarrow> i64) \<Rightarrow> hash \<Rightarrow> u64 \<Rightarrow> (hash \<Rightarrow> Block option)
    \<Rightarrow> KeyImageChecker \<Rightarrow> (hash \<Rightarrow> hash \<Rightarrow> bool) \<Rightarrow> bool \<Rightarrow> Block \<Rightarrow> bool" where
  "block_valid C P now bestHash tipHeight lookup isSpent canon skipPoW block \<longleftrightarrow>
     Version (Header block) \<noteq> 0
     \<and> (if bheight block = 0 then validateGenesisBlock C P block = Inr ()
        else (\<exists>parent. lookup (bprev block) = Some parent
               \<and> linked_valid C P now bestHash tipHeight lookup skipPoW block parent)
             \<and> body_valid C P isSpent canon block)"

lemma mark_images_ok:
  "(\<exists>seen'. mark_images i j inps seen = Inr seen') \<longleftrightarrow>
     distinct (map KeyImage inps) \<and> seen \<inter> KeyImage ` set inps = {}"
  by (induction inps arbitrary: j seen) auto

lemma mark_images_seen: "mark_images i j inps seen = Inr seen' \<Longrightarrow> seen' = seen \<union> KeyImage ` set inps"
  by (induction inps arbitrary: j seen) (auto split: if_splits)

lemma tx_images_Cons [simp]: "tx_images (tx # txs) = map KeyImage (Inputs tx) @ tx_images txs"
  and tx_images_Nil [simp]: "tx_images [] = []"
  by (simp_all add: tx_images_def)

lemma coinbase_no_images: "IsCoinbase tx \<Longrightarrow> Inputs tx = []"
  by (simp add: IsCoinbase_def)

context ring_checker
begin

lemma txs_ok:
  assumes "inv s"
  shows "(fst (check_txs C isSpent check i txs seen s) = Inr () \<longleftrightarrow>
      (\<forall>tx \<in> set txs. tx_valid C tx isSpent canon)
      \<and> distinct (tx_images txs) \<and> seen \<inter> set (tx_images txs) = {})
    \<and> inv (snd (check_txs C isSpent check i txs seen s))"
  using assms
proof (induction txs arbitrary: i seen s)
  case (Cons tx txs)
  obtain r s' where v: "ValidateTransaction C tx isSpent (Some check) s = (r, s')" by fastforce
  have ok: "r = Inr () \<longleftrightarrow> tx_valid C tx isSpent canon" "inv s'"
    using transaction_ok [OF Cons.prems, of C tx isSpent] v by auto
  show ?case
  proof (cases "r = Inr () \<and> \<not> IsCoinbase tx")
    case True
    show ?thesis
    proof (cases "mark_images i 0 (Inputs tx) seen")
      case (Inl e)
      then have "\<not> (distinct (map KeyImage (Inputs tx)) \<and> seen \<inter> KeyImage ` set (Inputs tx) = {})"
        using mark_images_ok [of i 0 "Inputs tx" seen] by auto
      with Inl True v ok show ?thesis by auto
    next
      case (Inr seen')
      then have "distinct (map KeyImage (Inputs tx)) \<and> seen \<inter> KeyImage ` set (Inputs tx) = {}"
        using mark_images_ok [of i 0 "Inputs tx" seen] by blast
      with Inr True v ok Cons.IH [OF ok(2), of "Suc i" seen'] mark_images_seen [OF Inr]
      show ?thesis by auto
    qed
  next
    case False
    with v ok Cons.IH [OF ok(2), of "Suc i" seen] show ?thesis
      by (cases r) (auto simp: coinbase_no_images)
  qed
qed simp

lemma body_ok:
  assumes "inv s"
  shows "(fst (validate_body C P isSpent check block s) = Inr () \<longleftrightarrow> body_valid C P isSpent canon block)
    \<and> inv (snd (validate_body C P isSpent check block s))"
proof (cases "Transactions block")
  case Nil
  then show ?thesis using assms by (simp add: validate_body_def body_valid_def)
next
  case (Cons coinbase others)
  obtain r s' where t: "check_txs C isSpent check 0 (coinbase # others) {} s = (r, s')" by fastforce
  have ok: "r = Inr () \<longleftrightarrow> (\<forall>tx \<in> set (Transactions block). tx_valid C tx isSpent canon)
      \<and> distinct (block_images block)" "inv s'"
    using txs_ok [OF assms, of C isSpent 0 "coinbase # others" "{}"] t Cons
    by (auto simp: block_images_def)
  let ?coin = "IsCoinbase coinbase \<and> (\<forall>tx \<in> set others. \<not> IsCoinbase tx)"
  have "fst (validate_body C P isSpent check block s) = Inr () \<longleftrightarrow>
      block_Size block \<le> MaxBlockSize \<and> ?coin \<and> r = Inr ()
      \<and> validateCoinbaseConsensus C P coinbase (bheight block) = Inr ()
      \<and> ComputeMerkleRoot C block = Some (MerkleRoot (Header block))"
    using Cons t by (auto simp: validate_body_def not_less split: sum.split option.split)
  moreover have "inv (snd (validate_body C P isSpent check block s))"
    using Cons t ok(2) assms by (simp add: validate_body_def split: sum.split option.split)
  ultimately show ?thesis using ok(1) Cons by (auto simp: body_valid_def)
qed

end

text \<open>A view of the chain that offers both.\<close>

locale chain_view = block_source get lookup inv + ring_checker check canon inv
  for get :: "'s block_getter" and lookup :: "hash \<Rightarrow> Block option" and inv :: "'s \<Rightarrow> bool"
    and check :: "'s RingMemberChecker" and canon :: "hash \<Rightarrow> hash \<Rightarrow> bool"
begin

lemma block_ok:
  assumes "inv s"
  shows "(fst (validateBlockWithContext C P now block bestHash tipHeight get isSpent check skipPoW s) = Inr ()
      \<longleftrightarrow> block_valid C P now bestHash tipHeight lookup isSpent canon skipPoW block)
    \<and> inv (snd (validateBlockWithContext C P now block bestHash tipHeight get isSpent check skipPoW s))"
proof (cases "Version (Header block) \<noteq> 0 \<and> bheight block \<noteq> 0 \<and> lookup (bprev block) \<noteq> None")
  case False
  with get_eq [OF assms, of "bprev block"] get_keeps [OF assms, of "bprev block"] assms show ?thesis
    by (auto simp: validateBlockWithContext_def block_valid_def Let_def split: prod.split)
next
  case True
  then obtain parent where p: "lookup (bprev block) = Some parent" by blast
  obtain s1 where g: "get s (bprev block) = (Some parent, s1)"
    using get_eq [OF assms, of "bprev block"] p by (metis prod.collapse)
  have i1: "inv s1" using get_keeps [OF assms, of "bprev block"] g by simp
  obtain d s2 where d: "expectedDifficultyFromParent get parent s1 = (d, s2)" by fastforce
  have d': "d = fst (expectedDifficultyFromParent (pure_get lookup) parent ())" "inv s2"
    using difficulty_pure [OF i1, of parent] d by simp_all
  obtain m s3 where m: "medianTimestampFromParent get parent 11 s2 = (m, s3)" by fastforce
  have m': "m = fst (medianTimestampFromParent (pure_get lookup) parent 11 ())" "inv s3"
    using median_pure [OF d'(2), of parent 11] m by simp_all
  note body = body_ok [OF m'(2), of C P isSpent block]
  show ?thesis
  proof (cases "bheight block = bheight parent + 1 \<and> sint (bts parent) < sint (bts block)
      \<and> (bprev block = bestHash \<longrightarrow> bheight block = tipHeight + 1) \<and> d = Inr (bdiff block)")
    case False
    then show ?thesis using True p g d d'(2) i1
      by (cases d) (auto simp: validateBlockWithContext_def block_valid_def linked_valid_def Let_def not_less
          d'(1) [symmetric])
  next
    case links: True
    show ?thesis
    proof (cases "\<exists>t. m = Inr t \<and> validate_time C skipPoW now t (Header block) = Inr ()")
      case False
      then show ?thesis using True p g d m m'(2) links
        by (cases m) (auto simp: validateBlockWithContext_def block_valid_def linked_valid_def Let_def
            d'(1) [symmetric] m'(1) [symmetric] split: sum.split)
    next
      case times: True
      then show ?thesis using True p g d m m'(2) links body
        by (auto simp: validateBlockWithContext_def block_valid_def linked_valid_def Let_def
            d'(1) [symmetric] m'(1) [symmetric])
    qed
  qed
qed

end

end
