(* ===== verification/Storage.thy ===== *)
theory Storage
  imports BlockValidation "HOL-Library.AList"
begin

text \<open>
  The persistent store (\<open>src/storage.go\<close>).

  The bbolt database is a library: a bucket is an opaque type \<open>'b\<close>, and the record \<open>bolt\<close> holds the
  calls the source makes on it.  \<open>bput\<close> and \<open>bdelete\<close> may fail; \<open>bcommit n\<close> says whether the
  commit of the \<open>n\<close>-th write transaction succeeds.  \<open>bolt_ok\<close> is the documented key-value
  behaviour.  A write transaction works on a copy of the buckets that becomes visible only when
  its function returns no error and the commit succeeds.

  Stored values are either raw bytes or the JSON text of a block or an output, which is
  represented by the value it encodes.
\<close>

record UTXO =
  UTXO_TxID :: hash
  OutputIndex :: u32
  Output :: TxOutput
  BlockHeight :: u64

datatype dbval = Raw bytes | BlockJSON Block | UTXOJSON UTXO

record 'b bolt =
  bget :: "'b \<Rightarrow> bytes \<Rightarrow> dbval option"
  bput :: "'b \<Rightarrow> bytes \<Rightarrow> dbval \<Rightarrow> 'b option"
  bdelete :: "'b \<Rightarrow> bytes \<Rightarrow> 'b option"
  bforeach :: "'b \<Rightarrow> (bytes \<times> dbval) list"
  bcommit :: "nat \<Rightarrow> bool"

definition bolt_ok :: "'b bolt \<Rightarrow> bool" where
  "bolt_ok B \<longleftrightarrow>
     (\<forall>b k v b' k'. bput B b k v = Some b' \<longrightarrow> bget B b' k' = (if k' = k then Some v else bget B b k'))
   \<and> (\<forall>b k b' k'. bdelete B b k = Some b' \<longrightarrow> bget B b' k' = (if k' = k then None else bget B b k'))
   \<and> (\<forall>b. distinct (map fst (bforeach B b)) \<and> map_of (bforeach B b) = bget B b)"

record 'b buckets =
  bucketBlocks :: 'b
  bucketHeights :: 'b
  bucketOutputs :: 'b
  bucketKeyImages :: 'b
  bucketMeta :: 'b

record 'b storage =
  db :: "'b buckets"
  updates :: nat

datatype storage_error =
    ParentMissing | PutFailed | DeleteFailed | CommitFailed | MarshalPanic
  | HeightWithoutTip | BadTipLength nat | BadHeightLength nat
  | CommitHeightMismatch u64 u64 | CommitHashMismatch | NonGenesisOnEmpty u64
  | TipHeightLinkage u64 u64 | TipHashLinkage
  | NothingToConnect | ReorgOnEmpty | DisconnectTooDeep nat | NewHeightMismatch u64 u64
  | DisconnectHeight nat | DisconnectIndexMissing u64 | DisconnectHash nat | DisconnectLinkage u64
  | DisconnectGenesis | ReorgBaseMissing | ConnectHeight nat | ConnectParent nat | NewTipMismatch

definition bindE :: "'e + 'a \<Rightarrow> ('a \<Rightarrow> 'e + 'c) \<Rightarrow> 'e + 'c" where
  "bindE x f = (case x of Inl e \<Rightarrow> Inl e | Inr y \<Rightarrow> f y)"

lemma bindE_Inr_iff: "bindE x f = Inr z \<longleftrightarrow> (\<exists>y. x = Inr y \<and> f y = Inr z)"
  by (auto simp: bindE_def split: sum.splits)

lemma bindE_simps [simp]: "bindE (Inl e) f = Inl e" "bindE (Inr y) f = f y"
  by (simp_all add: bindE_def)

text \<open>\<open>db.Update\<close>: run the function on the current buckets, then commit.\<close>

definition db_Update :: "'b bolt \<Rightarrow> ('b buckets \<Rightarrow> storage_error + 'b buckets) \<Rightarrow> 'b storage
    \<Rightarrow> (storage_error + unit) \<times> 'b storage" where
  "db_Update B f st =
     (let st' = st\<lparr>updates := Suc (updates st)\<rparr> in
      case f (db st) of
        Inl e \<Rightarrow> (Inl e, st')
      | Inr bk \<Rightarrow> if bcommit B (updates st) then (Inr (), st'\<lparr>db := bk\<rparr>) else (Inl CommitFailed, st'))"

definition Put :: "'b bolt \<Rightarrow> 'b \<Rightarrow> bytes \<Rightarrow> dbval \<Rightarrow> storage_error + 'b" where
  "Put B b k v = (case bput B b k v of None \<Rightarrow> Inl PutFailed | Some b' \<Rightarrow> Inr b')"

definition Delete :: "'b bolt \<Rightarrow> 'b \<Rightarrow> bytes \<Rightarrow> storage_error + 'b" where
  "Delete B b k = (case bdelete B b k of None \<Rightarrow> Inl DeleteFailed | Some b' \<Rightarrow> Inr b')"

text \<open>Buckets \<open>heights\<close>, \<open>key_images\<close> and \<open>meta\<close> only ever hold raw bytes.\<close>

definition get_raw :: "'b bolt \<Rightarrow> 'b \<Rightarrow> bytes \<Rightarrow> bytes option" where
  "get_raw B b k = map_option (\<lambda>v. case v of Raw bs \<Rightarrow> bs | _ \<Rightarrow> []) (bget B b k)"

text \<open>\<open>copy(dst[:], data)\<close> into a zeroed \<open>[32]byte\<close>.\<close>

definition copy32 :: "bytes \<Rightarrow> hash" where
  "copy32 data = take 32 (data @ replicate 32 0)"

definition metaKeyTip :: bytes where "metaKeyTip = go_string ''tip''"
definition metaKeyHeight :: bytes where "metaKeyHeight = go_string ''height''"
definition metaKeyWork :: bytes where "metaKeyWork = go_string ''work''"

definition heightKey :: "u64 \<Rightarrow> bytes" where "heightKey h = BE_PutUint64 h"

definition outpointKey :: "hash \<Rightarrow> u32 \<Rightarrow> bytes" where
  "outpointKey txid index = txid @ BE_PutUint32 index"

definition readTipMeta :: "'b bolt \<Rightarrow> 'b \<Rightarrow> storage_error + (hash \<times> u64) option" where
  "readTipMeta B meta =
     (case get_raw B meta metaKeyTip of
        None \<Rightarrow> (case get_raw B meta metaKeyHeight of
                   Some _ \<Rightarrow> Inl HeightWithoutTip
                 | None \<Rightarrow> Inr None)
      | Some tipData \<Rightarrow>
          let heightData = (case get_raw B meta metaKeyHeight of None \<Rightarrow> [] | Some d \<Rightarrow> d) in
          if length tipData \<noteq> 32 then Inl (BadTipLength (length tipData))
          else if length heightData \<noteq> 8 then Inl (BadHeightLength (length heightData))
          else Inr (Some (copy32 tipData, BE_Uint64 heightData)))"

section \<open>Reads\<close>

definition zero_block :: Block where
  "zero_block = \<lparr>Header = \<lparr>Version = 0, Height = 0, PrevHash = replicate 32 0, MerkleRoot = replicate 32 0,
     Timestamp = 0, Difficulty = 0, Nonce = 0\<rparr>, Transactions = []\<rparr>"

text \<open>\<open>GetBlock\<close> returns the block and whether decoding failed; a value that does not decode leaves
  an empty block behind, as \<open>block = &Block{}\<close> does.\<close>

definition st_GetBlock :: "'b bolt \<Rightarrow> 'b storage \<Rightarrow> hash \<Rightarrow> Block option \<times> bool" where
  "st_GetBlock B st hash =
     (case bget B (bucketBlocks (db st)) hash of
        None \<Rightarrow> (None, False)
      | Some (BlockJSON b) \<Rightarrow> (Some b, False)
      | Some _ \<Rightarrow> (Some zero_block, True))"

definition st_HasBlock :: "'b bolt \<Rightarrow> 'b storage \<Rightarrow> hash \<Rightarrow> bool" where
  "st_HasBlock B st hash \<longleftrightarrow> bget B (bucketBlocks (db st)) hash \<noteq> None"

definition GetBlockHashByHeight :: "'b bolt \<Rightarrow> 'b storage \<Rightarrow> u64 \<Rightarrow> hash option" where
  "GetBlockHashByHeight B st height = map_option copy32 (get_raw B (bucketHeights (db st)) (heightKey height))"

text \<open>\<^term>\<open>Inl ()\<close> is a value that does not decode.\<close>

definition st_GetOutput :: "'b bolt \<Rightarrow> 'b storage \<Rightarrow> hash \<Rightarrow> u32 \<Rightarrow> unit + UTXO option" where
  "st_GetOutput B st txid index =
     (case bget B (bucketOutputs (db st)) (outpointKey txid index) of
        None \<Rightarrow> Inr None
      | Some (UTXOJSON u) \<Rightarrow> Inr (Some u)
      | Some _ \<Rightarrow> Inl ())"

fun decode_outputs :: "(bytes \<times> dbval) list \<Rightarrow> UTXO list \<times> bool" where
  "decode_outputs [] = ([], False)"
| "decode_outputs ((k, UTXOJSON u) # kvs) = apfst ((#) u) (decode_outputs kvs)"
| "decode_outputs ((k, _) # kvs) = ([], True)"

definition st_GetAllOutputs :: "'b bolt \<Rightarrow> 'b storage \<Rightarrow> UTXO list \<times> bool" where
  "st_GetAllOutputs B st = decode_outputs (bforeach B (bucketOutputs (db st)))"

definition CountOutputs :: "'b bolt \<Rightarrow> 'b storage \<Rightarrow> nat" where
  "CountOutputs B st = length (bforeach B (bucketOutputs (db st)))"

definition GetSpentKeyImageCount :: "'b bolt \<Rightarrow> 'b storage \<Rightarrow> nat" where
  "GetSpentKeyImageCount B st = length (bforeach B (bucketKeyImages (db st)))"

definition st_IsKeyImageSpent :: "'b bolt \<Rightarrow> 'b storage \<Rightarrow> hash \<Rightarrow> bool \<times> u64" where
  "st_IsKeyImageSpent B st keyImage =
     (case get_raw B (bucketKeyImages (db st)) keyImage of
        None \<Rightarrow> (False, 0)
      | Some data \<Rightarrow> (True, if length data = 8 then BE_Uint64 data else 0))"

text \<open>\<open>GetTip\<close> returns hash, height, work and whether a tip is stored.\<close>

definition get_u64 :: "bytes option \<Rightarrow> u64" where
  "get_u64 data = (case data of Some d \<Rightarrow> if length d = 8 then BE_Uint64 d else 0 | None \<Rightarrow> 0)"

definition GetTip :: "'b bolt \<Rightarrow> 'b storage \<Rightarrow> hash \<times> u64 \<times> u64 \<times> bool" where
  "GetTip B st =
     (let meta = bucketMeta (db st); tip = get_raw B meta metaKeyTip in
      (case tip of Some d \<Rightarrow> copy32 d | None \<Rightarrow> replicate 32 0,
       get_u64 (get_raw B meta metaKeyHeight), get_u64 (get_raw B meta metaKeyWork), tip \<noteq> None))"

section \<open>Writes\<close>

definition SaveBlock :: "crypto \<Rightarrow> 'b bolt \<Rightarrow> Block \<Rightarrow> 'b storage \<Rightarrow> (storage_error + unit) \<times> 'b storage" where
  "SaveBlock C B block =
     db_Update B (\<lambda>bk.
       if 0 < bheight block \<and> bget B (bucketBlocks bk) (bprev block) = None then Inl ParentMissing
       else bindE (Put B (bucketBlocks bk) (Hash C block) (BlockJSON block))
              (\<lambda>b. Inr (bk\<lparr>bucketBlocks := b\<rparr>)))"

definition SetMainChainBlock :: "'b bolt \<Rightarrow> u64 \<Rightarrow> hash \<Rightarrow> 'b storage \<Rightarrow> (storage_error + unit) \<times> 'b storage" where
  "SetMainChainBlock B height hash =
     db_Update B (\<lambda>bk. bindE (Put B (bucketHeights bk) (heightKey height) (Raw hash))
                         (\<lambda>b. Inr (bk\<lparr>bucketHeights := b\<rparr>)))"

definition RemoveMainChainBlock :: "'b bolt \<Rightarrow> u64 \<Rightarrow> 'b storage \<Rightarrow> (storage_error + unit) \<times> 'b storage" where
  "RemoveMainChainBlock B height =
     db_Update B (\<lambda>bk. bindE (Delete B (bucketHeights bk) (heightKey height))
                         (\<lambda>b. Inr (bk\<lparr>bucketHeights := b\<rparr>)))"

definition SaveOutput :: "'b bolt \<Rightarrow> UTXO \<Rightarrow> 'b storage \<Rightarrow> (storage_error + unit) \<times> 'b storage" where
  "SaveOutput B u =
     db_Update B (\<lambda>bk. bindE (Put B (bucketOutputs bk) (outpointKey (UTXO_TxID u) (OutputIndex u)) (UTXOJSON u))
                         (\<lambda>b. Inr (bk\<lparr>bucketOutputs := b\<rparr>)))"

definition MarkKeyImageSpent :: "'b bolt \<Rightarrow> hash \<Rightarrow> u64 \<Rightarrow> 'b storage \<Rightarrow> (storage_error + unit) \<times> 'b storage" where
  "MarkKeyImageSpent B keyImage height =
     db_Update B (\<lambda>bk. bindE (Put B (bucketKeyImages bk) keyImage (Raw (BE_PutUint64 height)))
                         (\<lambda>b. Inr (bk\<lparr>bucketKeyImages := b\<rparr>)))"

definition UnmarkKeyImageSpent :: "'b bolt \<Rightarrow> hash \<Rightarrow> 'b storage \<Rightarrow> (storage_error + unit) \<times> 'b storage" where
  "UnmarkKeyImageSpent B keyImage =
     db_Update B (\<lambda>bk. bindE (Delete B (bucketKeyImages bk) keyImage)
                         (\<lambda>b. Inr (bk\<lparr>bucketKeyImages := b\<rparr>)))"

definition put_tip :: "'b bolt \<Rightarrow> hash \<Rightarrow> u64 \<Rightarrow> u64 \<Rightarrow> 'b \<Rightarrow> storage_error + 'b" where
  "put_tip B hash height work meta =
     bindE (Put B meta metaKeyTip (Raw hash)) (\<lambda>meta.
     bindE (Put B meta metaKeyHeight (Raw (BE_PutUint64 height))) (\<lambda>meta.
     Put B meta metaKeyWork (Raw (BE_PutUint64 work))))"

definition SetTip :: "'b bolt \<Rightarrow> hash \<Rightarrow> u64 \<Rightarrow> u64 \<Rightarrow> 'b storage \<Rightarrow> (storage_error + unit) \<times> 'b storage" where
  "SetTip B hash height work =
     db_Update B (\<lambda>bk. bindE (put_tip B hash height work (bucketMeta bk)) (\<lambda>b. Inr (bk\<lparr>bucketMeta := b\<rparr>)))"

text \<open>Loops of writes.\<close>

fun put_all :: "'b bolt \<Rightarrow> (bytes \<times> dbval) list \<Rightarrow> 'b \<Rightarrow> storage_error + 'b" where
  "put_all B [] b = Inr b"
| "put_all B ((k, v) # kvs) b = bindE (Put B b k v) (put_all B kvs)"

fun delete_all :: "'b bolt \<Rightarrow> bytes list \<Rightarrow> 'b \<Rightarrow> storage_error + 'b" where
  "delete_all B [] b = Inr b"
| "delete_all B (k # ks) b = bindE (Delete B b k) (delete_all B ks)"

definition spent_images :: "Transaction list \<Rightarrow> hash list" where
  "spent_images txs = concat (map (\<lambda>tx. if IsCoinbase tx then [] else map KeyImage (Inputs tx)) txs)"

text \<open>The outputs of one transaction as stored records.\<close>

definition tx_utxos :: "hash \<Rightarrow> u64 \<Rightarrow> TxOutput list \<Rightarrow> UTXO list" where
  "tx_utxos txid height outs =
     map (\<lambda>(idx, out). \<lparr>UTXO_TxID = txid, OutputIndex = word_of_nat idx, Output = out, BlockHeight = height\<rparr>)
       (zip [0..<length outs] outs)"

fun block_utxos :: "crypto \<Rightarrow> u64 \<Rightarrow> Transaction list \<Rightarrow> UTXO list option" where
  "block_utxos C height [] = Some []"
| "block_utxos C height (tx # txs) =
     (case TxID C tx of
        None \<Rightarrow> None
      | Some txid \<Rightarrow> map_option ((@) (tx_utxos txid height (Outputs tx))) (block_utxos C height txs))"

definition utxo_kv :: "UTXO \<Rightarrow> bytes \<times> dbval" where
  "utxo_kv u = (outpointKey (UTXO_TxID u) (OutputIndex u), UTXOJSON u)"

record BlockCommit =
  bc_Block :: Block
  bc_Height :: u64
  bc_Hash :: hash
  bc_Work :: u64
  bc_IsMainTip :: bool
  bc_NewOutputs :: "UTXO list"
  bc_SpentKeyImgs :: "hash list"

definition check_main_tip :: "'b bolt \<Rightarrow> BlockCommit \<Rightarrow> 'b \<Rightarrow> storage_error + unit" where
  "check_main_tip B commit meta =
     bindE (readTipMeta B meta) (\<lambda>tip.
       case tip of
         None \<Rightarrow> if bc_Height commit \<noteq> 0 then Inl (NonGenesisOnEmpty (bc_Height commit)) else Inr ()
       | Some (tipHash, tipHeight) \<Rightarrow>
           if bc_Height commit \<noteq> tipHeight + 1 then Inl (TipHeightLinkage tipHeight (bc_Height commit))
           else if bprev (bc_Block commit) \<noteq> tipHash then Inl TipHashLinkage
           else Inr ())"

definition CommitBlock :: "crypto \<Rightarrow> 'b bolt \<Rightarrow> BlockCommit \<Rightarrow> 'b storage \<Rightarrow> (storage_error + unit) \<times> 'b storage"
where
  "CommitBlock C B commit st =
     (let block = bc_Block commit in
      if bc_Height commit \<noteq> bheight block then (Inl (CommitHeightMismatch (bc_Height commit) (bheight block)), st)
      else if bc_Hash commit \<noteq> Hash C block then (Inl CommitHashMismatch, st)
      else db_Update B (\<lambda>bk.
        if 0 < bheight block \<and> bget B (bucketBlocks bk) (bprev block) = None then Inl ParentMissing
        else bindE (if bc_IsMainTip commit then check_main_tip B commit (bucketMeta bk) else Inr ()) (\<lambda>_.
        bindE (Put B (bucketBlocks bk) (bc_Hash commit) (BlockJSON block)) (\<lambda>blocks.
        if \<not> bc_IsMainTip commit then Inr (bk\<lparr>bucketBlocks := blocks\<rparr>)
        else
        bindE (Put B (bucketHeights bk) (heightKey (bc_Height commit)) (Raw (bc_Hash commit))) (\<lambda>heights.
        bindE (put_all B (map utxo_kv (bc_NewOutputs commit)) (bucketOutputs bk)) (\<lambda>outputs.
        bindE (put_all B (map (\<lambda>ki. (ki, Raw (heightKey (bc_Height commit)))) (bc_SpentKeyImgs commit))
                 (bucketKeyImages bk)) (\<lambda>keyImages.
        bindE (put_tip B (bc_Hash commit) (bc_Height commit) (bc_Work commit) (bucketMeta bk)) (\<lambda>meta.
        Inr \<lparr>bucketBlocks = blocks, bucketHeights = heights, bucketOutputs = outputs,
             bucketKeyImages = keyImages, bucketMeta = meta\<rparr>))))))) st)"

section \<open>Reorganisation commits\<close>

record ReorgCommit =
  Disconnect :: "Block list"
  Connect :: "Block list"
  NewTip :: hash
  NewHeight :: u64
  NewWork :: u64

fun check_disconnect :: "crypto \<Rightarrow> 'b bolt \<Rightarrow> 'b \<Rightarrow> u64 \<Rightarrow> nat \<Rightarrow> Block option \<Rightarrow> Block list
    \<Rightarrow> storage_error + unit" where
  "check_disconnect C B heights currentHeight i prev [] = Inr ()"
| "check_disconnect C B heights currentHeight i prev (block # blocks) =
     (let expectedHeight = currentHeight - word_of_nat i in
      if bheight block \<noteq> expectedHeight then Inl (DisconnectHeight i)
      else case get_raw B heights (heightKey expectedHeight) of
        None \<Rightarrow> Inl (DisconnectIndexMissing expectedHeight)
      | Some mainHash \<Rightarrow>
          if copy32 mainHash \<noteq> Hash C block then Inl (DisconnectHash i)
          else if (case prev of None \<Rightarrow> False | Some p \<Rightarrow> bprev p \<noteq> Hash C block)
          then Inl (DisconnectLinkage (bheight block))
          else check_disconnect C B heights currentHeight (Suc i) (Some block) blocks)"

text \<open>Returns the hash of the last connected block.\<close>

fun check_connect :: "crypto \<Rightarrow> nat \<Rightarrow> hash \<Rightarrow> u64 \<Rightarrow> Block list \<Rightarrow> storage_error + hash" where
  "check_connect C i expectedPrevHash expectedHeight [] = Inr expectedPrevHash"
| "check_connect C i expectedPrevHash expectedHeight (block # blocks) =
     (if bheight block \<noteq> expectedHeight then Inl (ConnectHeight i)
      else if bprev block \<noteq> expectedPrevHash then Inl (ConnectParent i)
      else check_connect C (Suc i) (Hash C block) (expectedHeight + 1) blocks)"

definition disconnect_block :: "'b bolt \<Rightarrow> Block \<Rightarrow> 'b buckets \<Rightarrow> storage_error + 'b buckets" where
  "disconnect_block B block bk =
     bindE (Delete B (bucketHeights bk) (heightKey (bheight block))) (\<lambda>heights.
     bindE (delete_all B (spent_images (Transactions block)) (bucketKeyImages bk)) (\<lambda>keyImages.
     Inr (bk\<lparr>bucketHeights := heights, bucketKeyImages := keyImages\<rparr>)))"

definition connect_block :: "crypto \<Rightarrow> 'b bolt \<Rightarrow> Block \<Rightarrow> 'b buckets \<Rightarrow> storage_error + 'b buckets" where
  "connect_block C B block bk =
     (let hKey = heightKey (bheight block); hash = Hash C block in
      bindE (Put B (bucketBlocks bk) hash (BlockJSON block)) (\<lambda>blocks.
      bindE (Put B (bucketHeights bk) hKey (Raw hash)) (\<lambda>heights.
      case block_utxos C (bheight block) (Transactions block) of
        None \<Rightarrow> Inl MarshalPanic
      | Some us \<Rightarrow>
      bindE (put_all B (map utxo_kv us) (bucketOutputs bk)) (\<lambda>outputs.
      bindE (put_all B (map (\<lambda>ki. (ki, Raw hKey)) (spent_images (Transactions block))) (bucketKeyImages bk))
        (\<lambda>keyImages.
      Inr \<lparr>bucketBlocks = blocks, bucketHeights = heights, bucketOutputs = outputs,
           bucketKeyImages = keyImages, bucketMeta = bucketMeta bk\<rparr>)))))"

fun each_block :: "(Block \<Rightarrow> 'b buckets \<Rightarrow> storage_error + 'b buckets) \<Rightarrow> Block list \<Rightarrow> 'b buckets
    \<Rightarrow> storage_error + 'b buckets" where
  "each_block f [] bk = Inr bk"
| "each_block f (b # bs) bk = bindE (f b bk) (each_block f bs)"

text \<open>The checks before the first write: the new base and the linkage of both lists.\<close>

definition check_reorg :: "crypto \<Rightarrow> 'b bolt \<Rightarrow> ReorgCommit \<Rightarrow> 'b buckets \<Rightarrow> storage_error + unit" where
  "check_reorg C B commit bk =
     bindE (readTipMeta B (bucketMeta bk)) (\<lambda>tip.
     case tip of None \<Rightarrow> Inl ReorgOnEmpty
     | Some (currentTip, currentHeight) \<Rightarrow>
       if sint (currentHeight + 1) < int (length (Disconnect commit))
       then Inl (DisconnectTooDeep (length (Disconnect commit)))
       else let expectedNewHeight = currentHeight - word_of_nat (length (Disconnect commit))
                  + word_of_nat (length (Connect commit)) in
       if NewHeight commit \<noteq> expectedNewHeight then Inl (NewHeightMismatch expectedNewHeight (NewHeight commit))
       else bindE (check_disconnect C B (bucketHeights bk) currentHeight 0 None (Disconnect commit)) (\<lambda>_.
       bindE (if Disconnect commit = [] then Inr (currentTip, currentHeight)
              else let lowest = last (Disconnect commit) in
                   if bheight lowest = 0 then Inl DisconnectGenesis
                   else Inr (bprev lowest, bheight lowest - 1)) (\<lambda>(baseHash, baseHeight).
       if bget B (bucketBlocks bk) baseHash = None then Inl ReorgBaseMissing
       else bindE (check_connect C 0 baseHash (baseHeight + 1) (Connect commit)) (\<lambda>newTip.
       if NewTip commit \<noteq> newTip then Inl NewTipMismatch else Inr ()))))"

definition CommitReorg :: "crypto \<Rightarrow> 'b bolt \<Rightarrow> ReorgCommit \<Rightarrow> 'b storage \<Rightarrow> (storage_error + unit) \<times> 'b storage"
where
  "CommitReorg C B commit st =
     (if length (Connect commit) = 0 then (Inl NothingToConnect, st)
      else db_Update B (\<lambda>bk.
        bindE (check_reorg C B commit bk) (\<lambda>_.
        bindE (each_block (disconnect_block B) (rev (Disconnect commit)) bk) (\<lambda>bk.
        bindE (each_block (connect_block C B) (Connect commit) bk) (\<lambda>bk.
        bindE (put_tip B (NewTip commit) (NewHeight commit) (NewWork commit) (bucketMeta bk)) (\<lambda>meta.
        Inr (bk\<lparr>bucketMeta := meta\<rparr>)))))) st)"

section \<open>An executable instance\<close>

text \<open>Buckets as association lists, with writes that never fail; used to evaluate runs.\<close>

definition list_bolt :: "(bytes \<times> dbval) list bolt" where
  "list_bolt = \<lparr>bget = map_of, bput = (\<lambda>b k v. Some (AList.update k v b)),
     bdelete = (\<lambda>b k. Some (AList.delete k b)), bforeach = AList.clearjunk, bcommit = (\<lambda>_. True)\<rparr>"

lemma list_bolt_ok: "bolt_ok list_bolt"
  by (auto simp: bolt_ok_def list_bolt_def update_conv' delete_conv' map_of_clearjunk)

definition empty_store :: "(bytes \<times> dbval) list storage" where
  "empty_store = \<lparr>db = \<lparr>bucketBlocks = [], bucketHeights = [], bucketOutputs = [], bucketKeyImages = [],
     bucketMeta = []\<rparr>, updates = 0\<rparr>"

end
