(* ===== verification/Chain.thy ===== *)
theory Chain
  imports Storage
begin

text \<open>
  The chain state and its operations (\<open>src/block.go\<close>, type \<open>Chain\<close>).

  Each operation runs under the chain lock, so it is a function from the state before to the
  state after.  The LRU list holds the cached hashes, front first; \<open>cacheIndex\<close> is the set of
  hashes with an element in the list (\<open>NewChain\<close> always creates both).  Block getters touch and
  trim the caches, so they return a state.

  Loops whose number of rounds depends on stored data carry fuel, computed from the height of the
  block they start at: every round goes to a parent, which is one lower.  Running out of fuel is
  the error \<open>Diverges\<close>.
\<close>

record 'b chain =
  storage :: "'b storage"
  blocks :: "(hash, Block) fmap"
  workAt :: "(hash, u64) fmap"
  cacheCap :: nat
  cacheLRU :: "hash list"
  cacheIndex :: "hash fset"
  byHeight :: "u64 \<rightharpoonup> hash"
  timestamps :: "i64 list"
  bestHash :: hash
  height :: u64
  totalWork :: u64
  keyImages :: "hash \<rightharpoonup> u64"
  canonicalRingIndex :: "bytes set"
  canonicalRingIndexDirty :: bool
  canonicalRingIndexTip :: hash
  canonicalRingIndexReady :: bool
  trustedCheckpoints :: "(u64 \<rightharpoonup> hash) option"
  fastSyncUntilHeight :: u64

datatype chain_error =
    Invalid block_error | WorkOverflow u64 u64 | WorkBlockMissing hash | ParentWork chain_error
  | NewTipMissing | UnknownReorgTip | IncompleteChain | FinalizedBoundary u64 u64
  | PersistFailed storage_error | ReorgFailed chain_error | ForkSaveFailed storage_error
  | NotGenesis u64 | GenesisExists | MissingAtHeight u64 | BlockMissing hash
  | LoadFailed u64 | StoredWorkTooSmall | OffsetOverflow | TruncateFailed storage_error | Diverges

definition MaxReorgDepth :: u64 where "MaxReorgDepth = 100"

definition addCumulativeWork :: "u64 \<Rightarrow> u64 \<Rightarrow> chain_error + u64" where
  "addCumulativeWork parentWork blockDifficulty =
     (if - 1 - parentWork < blockDifficulty then Inl (WorkOverflow parentWork blockDifficulty)
      else Inr (parentWork + blockDifficulty))"

section \<open>Caches\<close>

definition chainProtectedBack :: u64 where
  "chainProtectedBack = max MaxReorgDepth (word_of_nat (LWMAWindow + 10))"

text \<open>The parsed environment variable, \<^const>\<open>None\<close> when unset or not a number.\<close>

definition chainCacheCapFromEnv :: "int option \<Rightarrow> nat" where
  "chainCacheCapFromEnv env =
     (let cap = (case env of Some parsed \<Rightarrow> if 0 < parsed then nat parsed else 512 | None \<Rightarrow> 512);
          cap = (if 100000 < cap then 100000 else cap);
          minCap = unat chainProtectedBack + 64
      in if cap < minCap then minCap else cap)"

definition cacheTouchLocked :: "hash \<Rightarrow> 'b chain \<Rightarrow> 'b chain" where
  "cacheTouchLocked hash c =
     (if hash |\<in>| cacheIndex c then c\<lparr>cacheLRU := hash # remove1 hash (cacheLRU c)\<rparr>
      else c\<lparr>cacheLRU := hash # cacheLRU c, cacheIndex := finsert hash (cacheIndex c)\<rparr>)"

definition cacheForgetLocked :: "hash \<Rightarrow> 'b chain \<Rightarrow> 'b chain" where
  "cacheForgetLocked hash c =
     (let c = (if hash |\<in>| cacheIndex c
               then c\<lparr>cacheLRU := remove1 hash (cacheLRU c), cacheIndex := cacheIndex c |-| {|hash|}\<rparr>
               else c)
      in c\<lparr>blocks := fmdrop hash (blocks c), workAt := fmdrop hash (workAt c)\<rparr>)"

definition cachePinnedLocked :: "'b chain \<Rightarrow> hash \<Rightarrow> bool" where
  "cachePinnedLocked c hash =
     (case fmlookup (blocks c) hash of
        None \<Rightarrow> False
      | Some b \<Rightarrow>
          byHeight c (bheight b) = Some hash
          \<and> (height c \<le> chainProtectedBack \<or> height c - chainProtectedBack \<le> bheight b))"

definition cacheOver :: "'b chain \<Rightarrow> bool" where
  "cacheOver c \<longleftrightarrow> cacheCap c < fcard (cacheIndex c) \<or> cacheCap c < fcard (fmdom (blocks c))"

text \<open>The eviction loop; \<^const>\<open>None\<close> when the fuel does not suffice.\<close>

fun trim_loop :: "nat \<Rightarrow> 'b chain \<Rightarrow> 'b chain option" where
  "trim_loop 0 c = None"
| "trim_loop (Suc fuel) c =
     (if \<not> cacheOver c \<or> cacheLRU c = [] then Some c
      else let hash = last (cacheLRU c) in
           if cachePinnedLocked c hash
           then trim_loop fuel (c\<lparr>cacheLRU := hash # butlast (cacheLRU c)\<rparr>)
           else trim_loop fuel (cacheForgetLocked hash c))"

definition trim_fuel :: "'b chain \<Rightarrow> nat" where
  "trim_fuel c = Suc (length (cacheLRU c) * Suc (length (cacheLRU c)))"

definition cacheTrimLocked :: "'b chain \<Rightarrow> 'b chain" where
  "cacheTrimLocked c =
     (if cacheCap c = 0 then c
      else case trim_loop (trim_fuel c) c of Some c' \<Rightarrow> c' | None \<Rightarrow> c)"

section \<open>Block lookup\<close>

definition getBlockByHashLocked :: "'b bolt \<Rightarrow> 'b chain block_getter" where
  "getBlockByHashLocked B c hash =
     (case fmlookup (blocks c) hash of
        Some block \<Rightarrow> (Some block, cacheTouchLocked hash c)
      | None \<Rightarrow>
          (case fst (st_GetBlock B (storage c) hash) of
             None \<Rightarrow> (None, c)
           | Some block \<Rightarrow>
               (Some block, cacheTrimLocked (cacheTouchLocked hash (c\<lparr>blocks := fmupd hash block (blocks c)\<rparr>)))))"

text \<open>\<open>GetBlock\<close> releases the lock while it reads the store; here nothing runs in between.\<close>

definition chain_GetBlock :: "'b bolt \<Rightarrow> 'b chain block_getter" where
  "chain_GetBlock B c hash =
     (case fmlookup (blocks c) hash of
        Some block \<Rightarrow> (Some block, cacheTouchLocked hash c)
      | None \<Rightarrow>
          (case fst (st_GetBlock B (storage c) hash) of
             None \<Rightarrow> (None, c)
           | Some block \<Rightarrow>
               (Some block, cacheTrimLocked (cacheTouchLocked hash (c\<lparr>blocks := fmupd hash block (blocks c)\<rparr>)))))"

definition getBlockByHeightLocked :: "'b bolt \<Rightarrow> 'b chain \<Rightarrow> u64 \<Rightarrow> Block option" where
  "getBlockByHeightLocked B c h =
     (case Option.bind (byHeight c h) (fmlookup (blocks c)) of
        Some block \<Rightarrow> Some block
      | None \<Rightarrow> Option.bind (GetBlockHashByHeight B (storage c) h) (fst \<circ> st_GetBlock B (storage c)))"

fun blocks_from :: "'b bolt \<Rightarrow> 'b chain \<Rightarrow> u64 list \<Rightarrow> Block list" where
  "blocks_from B c [] = []"
| "blocks_from B c (h # hs) =
     (case getBlockByHeightLocked B c h of None \<Rightarrow> [] | Some b \<Rightarrow> b # blocks_from B c hs)"

text \<open>The heights \<open>from, ..., to\<close> of an upward loop.\<close>

definition heights_upto :: "u64 \<Rightarrow> u64 \<Rightarrow> u64 list" where
  "heights_upto from to = map word_of_nat [unat from..<Suc (unat to)]"

definition GetBlocksByHeightRange :: "'b bolt \<Rightarrow> 'b chain \<Rightarrow> u64 \<Rightarrow> u64 \<Rightarrow> Block list" where
  "GetBlocksByHeightRange B c startHeight endHeight =
     (if endHeight < startHeight then [] else blocks_from B c (heights_upto startHeight endHeight))"

definition chain_HasBlock :: "'b bolt \<Rightarrow> 'b chain \<Rightarrow> hash \<Rightarrow> bool" where
  "chain_HasBlock B c hash \<longleftrightarrow> fmlookup (blocks c) hash \<noteq> None \<or> st_HasBlock B (storage c) hash"

section \<open>Cumulative work\<close>

fun work_loop :: "'b bolt \<Rightarrow> nat \<Rightarrow> hash \<Rightarrow> 'b chain \<Rightarrow> (chain_error + u64) \<times> 'b chain" where
  "work_loop B 0 hash c = (Inl Diverges, c)"
| "work_loop B (Suc fuel) hash c =
     (case fmlookup (workAt c) hash of
        Some work \<Rightarrow> (Inr work, c)
      | None \<Rightarrow>
     (case getBlockByHashLocked B c hash of
        (None, c) \<Rightarrow> (Inl (WorkBlockMissing hash), c)
      | (Some block, c) \<Rightarrow>
     (case (if 0 < bheight block then work_loop B fuel (bprev block) c else (Inr 0, c)) of
        (Inl e, c) \<Rightarrow> (Inl e, c)
      | (Inr parentWork, c) \<Rightarrow>
     (case addCumulativeWork parentWork (bdiff block) of
        Inl e \<Rightarrow> (Inl e, c)
      | Inr work \<Rightarrow>
          (Inr work, cacheTrimLocked (cacheTouchLocked hash (c\<lparr>workAt := fmupd hash work (workAt c)\<rparr>)))))))"

text \<open>The height of a block, read without touching the caches; only used to size fuel.\<close>

definition peek_height :: "'b bolt \<Rightarrow> 'b chain \<Rightarrow> hash \<Rightarrow> nat" where
  "peek_height B c hash =
     (case fmlookup (blocks c) hash of
        Some b \<Rightarrow> unat (bheight b)
      | None \<Rightarrow> (case fst (st_GetBlock B (storage c) hash) of Some b \<Rightarrow> unat (bheight b) | None \<Rightarrow> 0))"

definition cumulativeWorkAtLocked :: "'b bolt \<Rightarrow> hash \<Rightarrow> 'b chain \<Rightarrow> (chain_error + u64) \<times> 'b chain" where
  "cumulativeWorkAtLocked B hash c = work_loop B (Suc (peek_height B c hash)) hash c"

section \<open>Spent key images and ring members\<close>

definition isKeyImageSpentLocked :: "'b bolt \<Rightarrow> 'b chain \<Rightarrow> KeyImageChecker" where
  "isKeyImageSpentLocked B c keyImage \<longleftrightarrow>
     keyImages c keyImage \<noteq> None \<or> fst (st_IsKeyImageSpent B (storage c) keyImage)"

fun branch_walk :: "'b bolt \<Rightarrow> nat \<Rightarrow> hash \<Rightarrow> hash set \<Rightarrow> 'b chain \<Rightarrow> (chain_error + hash set) \<times> 'b chain" where
  "branch_walk B 0 currentHash branchSpent c = (Inl Diverges, c)"
| "branch_walk B (Suc fuel) currentHash branchSpent c =
     (case getBlockByHashLocked B c currentHash of
        (None, c) \<Rightarrow> (Inl (Invalid OrphanBlock), c)
      | (Some parent, c) \<Rightarrow>
          if byHeight c (bheight parent) = Some currentHash then (Inr branchSpent, c)
          else let branchSpent = branchSpent \<union> set (spent_images (Transactions parent)) in
               if bheight parent = 0 then (Inr branchSpent, c)
               else branch_walk B fuel (bprev parent) branchSpent c)"

text \<open>The closure \<open>branchAwareSpentCheckerLocked\<close> returns reads the key images of the chain, which
  validation does not change, so it is evaluated on the state after the walk.\<close>

definition branchAwareSpentCheckerLocked :: "'b bolt \<Rightarrow> hash \<Rightarrow> 'b chain
    \<Rightarrow> (chain_error + KeyImageChecker) \<times> 'b chain" where
  "branchAwareSpentCheckerLocked B parentHash c =
     (case branch_walk B (Suc (peek_height B c parentHash)) parentHash {} c of
        (Inl e, c) \<Rightarrow> (Inl e, c)
      | (Inr branchSpent, c) \<Rightarrow>
          (Inr (\<lambda>keyImage. keyImage \<in> branchSpent \<or> isKeyImageSpentLocked B c keyImage), c))"

definition canonicalRingIndexKey :: "hash \<Rightarrow> hash \<Rightarrow> bytes" where
  "canonicalRingIndexKey pubKey commitment = copy32 pubKey @ copy32 commitment"

definition output_keys :: "Block \<Rightarrow> bytes set" where
  "output_keys block =
     (\<Union>tx \<in> set (Transactions block).
        (\<lambda>out. canonicalRingIndexKey (PublicKey out) (Commitment out)) ` set (Outputs tx))"

fun index_loop :: "'b bolt \<Rightarrow> u64 list \<Rightarrow> bytes set \<Rightarrow> 'b chain \<Rightarrow> bytes set option \<times> 'b chain" where
  "index_loop B [] index c = (Some index, c)"
| "index_loop B (h # hs) index c =
     (case GetBlockHashByHeight B (storage c) h of
        None \<Rightarrow> (None, c)
      | Some hash \<Rightarrow>
          (case getBlockByHashLocked B c hash of
             (None, c) \<Rightarrow> (None, c)
           | (Some block, c) \<Rightarrow> index_loop B hs (index \<union> output_keys block) c))"

text \<open>Returns whether it succeeded.\<close>

definition ensureCanonicalRingIndexLocked :: "'b bolt \<Rightarrow> 'b chain \<Rightarrow> bool \<times> 'b chain" where
  "ensureCanonicalRingIndexLocked B c =
     (case GetTip B (storage c) of (tipHash, tipHeight, _, found) \<Rightarrow>
        if \<not> found
        then (True, c\<lparr>canonicalRingIndex := {}, canonicalRingIndexTip := replicate 32 0,
                      canonicalRingIndexReady := True, canonicalRingIndexDirty := False\<rparr>)
        else if \<not> canonicalRingIndexDirty c \<and> canonicalRingIndexReady c \<and> canonicalRingIndexTip c = tipHash
        then (True, c)
        else case index_loop B (heights_upto 0 tipHeight) {} c of
               (None, c) \<Rightarrow> (False, c)
             | (Some index, c) \<Rightarrow>
                 (True, c\<lparr>canonicalRingIndex := index, canonicalRingIndexTip := tipHash,
                          canonicalRingIndexReady := True, canonicalRingIndexDirty := False\<rparr>))"

definition isCanonicalRingMemberLocked :: "'b bolt \<Rightarrow> 'b chain RingMemberChecker" where
  "isCanonicalRingMemberLocked B c pubKey commitment =
     (case ensureCanonicalRingIndexLocked B c of
        (False, c) \<Rightarrow> (False, c)
      | (True, c) \<Rightarrow> (canonicalRingIndexKey pubKey commitment \<in> canonicalRingIndex c, c))"

section \<open>Validation against the chain\<close>

definition SetTrustedCheckpoints :: "(u64, hash) fmap \<Rightarrow> u64 \<Rightarrow> 'b chain \<Rightarrow> 'b chain" where
  "SetTrustedCheckpoints checkpoints maxHeight c =
     (if fmdom checkpoints = {||} \<or> maxHeight = 0
      then c\<lparr>trustedCheckpoints := None, fastSyncUntilHeight := 0\<rparr>
      else c\<lparr>trustedCheckpoints := Some (fmlookup checkpoints), fastSyncUntilHeight := maxHeight\<rparr>)"

definition shouldSkipPoWLocked :: "'b chain \<Rightarrow> u64 \<Rightarrow> bool \<Rightarrow> bool" where
  "shouldSkipPoWLocked c h extendsTip =
     (if \<not> extendsTip then False
      else if trustedCheckpoints c = None \<or> fastSyncUntilHeight c = 0 then False
      else if fastSyncUntilHeight c \<le> height c then False
      else 0 < h \<and> h \<le> fastSyncUntilHeight c)"

definition checkpoint_ok :: "crypto \<Rightarrow> 'b chain \<Rightarrow> Block \<Rightarrow> bool" where
  "checkpoint_ok C c block =
     (case trustedCheckpoints c of
        None \<Rightarrow> True
      | Some cps \<Rightarrow>
          if 0 < fastSyncUntilHeight c \<and> height c < fastSyncUntilHeight c
             \<and> bheight block \<le> fastSyncUntilHeight c
          then (case cps (bheight block) of None \<Rightarrow> True | Some want \<Rightarrow> Hash C block = want)
          else True)"

definition validateBlockForProcessLocked :: "crypto \<Rightarrow> net_params \<Rightarrow> 'b bolt \<Rightarrow> (nat \<Rightarrow> i64) \<Rightarrow> Block
    \<Rightarrow> 'b chain \<Rightarrow> (chain_error + unit) \<times> 'b chain" where
  "validateBlockForProcessLocked C P B now block c =
     (case (if 0 < bheight block then branchAwareSpentCheckerLocked B (bprev block) c
            else (Inr (isKeyImageSpentLocked B c), c)) of
        (Inl e, c) \<Rightarrow> (Inl e, c)
      | (Inr isSpent, c) \<Rightarrow>
          if \<not> checkpoint_ok C c block then (Inl (Invalid (CheckpointMismatch (bheight block))), c)
          else
            let extendsTip = bprev block = bestHash c;
                skipPoW = shouldSkipPoWLocked c (bheight block) extendsTip in
            apfst (map_sum Invalid id)
              (validateBlockWithContext C P now block (bestHash c) (height c) (getBlockByHashLocked B)
                 isSpent (isCanonicalRingMemberLocked B) skipPoW c))"

section \<open>Reorganisation\<close>

text \<open>Walk from \<open>b\<close> down to height \<open>target\<close>.\<close>

fun walk_down :: "'s block_getter \<Rightarrow> nat \<Rightarrow> u64 \<Rightarrow> hash \<Rightarrow> Block \<Rightarrow> 's
    \<Rightarrow> (chain_error + hash \<times> Block) \<times> 's" where
  "walk_down get 0 target h b s = (Inl Diverges, s)"
| "walk_down get (Suc fuel) target h b s =
     (if bheight b \<le> target then (Inr (h, b), s)
      else if bheight b = 0 then (Inl IncompleteChain, s)
      else case get s (bprev b) of
        (None, s) \<Rightarrow> (Inl IncompleteChain, s)
      | (Some b', s) \<Rightarrow> walk_down get fuel target (bprev b) b' s)"

fun walk_meet :: "'s block_getter \<Rightarrow> nat \<Rightarrow> hash \<Rightarrow> Block \<Rightarrow> hash \<Rightarrow> Block \<Rightarrow> 's
    \<Rightarrow> (chain_error + hash \<times> u64) \<times> 's" where
  "walk_meet get 0 aHash aBlock bHash bBlock s = (Inl Diverges, s)"
| "walk_meet get (Suc fuel) aHash aBlock bHash bBlock s =
     (if aHash = bHash then (Inr (aHash, bheight aBlock), s)
      else if bheight aBlock = 0 \<or> bheight bBlock = 0 then (Inl IncompleteChain, s)
      else case get s (bprev aBlock) of (a, s) \<Rightarrow>
           case get s (bprev bBlock) of (b, s) \<Rightarrow>
           (case (a, b) of
              (Some aBlock', Some bBlock') \<Rightarrow> walk_meet get fuel (bprev aBlock) aBlock' (bprev bBlock) bBlock' s
            | _ \<Rightarrow> (Inl IncompleteChain, s)))"

definition findCommonAncestor :: "'s block_getter \<Rightarrow> hash \<Rightarrow> hash \<Rightarrow> 's
    \<Rightarrow> (chain_error + hash \<times> u64) \<times> 's" where
  "findCommonAncestor get aTip bTip s =
     (case get s aTip of
        (None, s) \<Rightarrow> (Inl IncompleteChain, s)
      | (Some aBlock, s) \<Rightarrow>
     (case get s bTip of
        (None, s) \<Rightarrow> (Inl IncompleteChain, s)
      | (Some bBlock, s) \<Rightarrow>
     (case walk_down get (Suc (unat (bheight aBlock))) (bheight bBlock) aTip aBlock s of
        (Inl e, s) \<Rightarrow> (Inl e, s)
      | (Inr (aHash, aBlock), s) \<Rightarrow>
     (case walk_down get (Suc (unat (bheight bBlock))) (bheight aBlock) bTip bBlock s of
        (Inl e, s) \<Rightarrow> (Inl e, s)
      | (Inr (bHash, bBlock), s) \<Rightarrow>
          walk_meet get (Suc (unat (bheight aBlock))) aHash aBlock bHash bBlock s))))"

definition findCommonAncestorLocked :: "'b bolt \<Rightarrow> hash \<Rightarrow> hash \<Rightarrow> 'b chain
    \<Rightarrow> (chain_error + hash \<times> u64) \<times> 'b chain" where
  "findCommonAncestorLocked B = findCommonAncestor (getBlockByHashLocked B)"

text \<open>Collects the path from \<open>current\<close> down to \<open>commonHash\<close>, which then comes out in ascending
  order.\<close>

fun connect_path :: "'s block_getter \<Rightarrow> nat \<Rightarrow> hash \<Rightarrow> hash \<Rightarrow> Block list \<Rightarrow> 's
    \<Rightarrow> (chain_error + Block list) \<times> 's" where
  "connect_path get 0 commonHash current acc s = (Inl Diverges, s)"
| "connect_path get (Suc fuel) commonHash current acc s =
     (if current = commonHash then (Inr acc, s)
      else case get s current of
        (None, s) \<Rightarrow> (Inl IncompleteChain, s)
      | (Some block, s) \<Rightarrow>
          if bheight block = 0 then (Inl IncompleteChain, s)
          else connect_path get fuel commonHash (bprev block) (block # acc) s)"

definition collectConnectPathLocked :: "'b bolt \<Rightarrow> hash \<Rightarrow> hash \<Rightarrow> 'b chain
    \<Rightarrow> (chain_error + Block list) \<times> 'b chain" where
  "collectConnectPathLocked B commonHash newTip c =
     connect_path (getBlockByHashLocked B) (Suc (Suc (peek_height B c newTip))) commonHash newTip [] c"

definition enforceReorgFinalityLocked :: "'b bolt \<Rightarrow> hash \<Rightarrow> 'b chain \<Rightarrow> (chain_error + unit) \<times> 'b chain" where
  "enforceReorgFinalityLocked B newTip c =
     (if height c < MaxReorgDepth then (Inr (), c)
      else case getBlockByHashLocked B c newTip of
        (None, c) \<Rightarrow> (Inl UnknownReorgTip, c)
      | (Some _, c) \<Rightarrow>
          (case findCommonAncestorLocked B (bestHash c) newTip c of
             (Inl e, c) \<Rightarrow> (Inl e, c)
           | (Inr (_, commonHeight), c) \<Rightarrow>
               let finalizedBoundary = height c - MaxReorgDepth in
               if commonHeight < finalizedBoundary
               then (Inl (FinalizedBoundary commonHeight finalizedBoundary), c)
               else (Inr (), c)))"

definition push_timestamp :: "i64 \<Rightarrow> i64 list \<Rightarrow> i64 list" where
  "push_timestamp t tss =
     (let tss = tss @ [t] in if LWMAWindow + 1 < length tss then tl tss else tss)"

definition mark_block_images :: "Block \<Rightarrow> (hash \<rightharpoonup> u64) \<Rightarrow> (hash \<rightharpoonup> u64)" where
  "mark_block_images block m = fold (\<lambda>ki m. m(ki \<mapsto> bheight block)) (spent_images (Transactions block)) m"

definition unmark_block_images :: "Block \<Rightarrow> (hash \<rightharpoonup> u64) \<Rightarrow> (hash \<rightharpoonup> u64)" where
  "unmark_block_images block m = fold (\<lambda>ki m. m(ki := None)) (spent_images (Transactions block)) m"

text \<open>The tip moves to the child \<open>newBlock\<close> of the current tip.\<close>

definition extend_tip :: "crypto \<Rightarrow> 'b bolt \<Rightarrow> hash \<Rightarrow> Block \<Rightarrow> 'b chain \<Rightarrow> (chain_error + unit) \<times> 'b chain" where
  "extend_tip C B newTip newBlock c =
     (case cumulativeWorkAtLocked B newTip c of
        (Inl e, c) \<Rightarrow> (Inl e, c)
      | (Inr newTipWork, c) \<Rightarrow>
          (case CommitReorg C B \<lparr>Disconnect = [], Connect = [newBlock], NewTip = newTip,
                  NewHeight = bheight newBlock, NewWork = newTipWork\<rparr> (storage c) of
             (Inl e, st) \<Rightarrow> (Inl (PersistFailed e), c\<lparr>storage := st\<rparr>)
           | (Inr _, st) \<Rightarrow>
               let c = c\<lparr>storage := st, bestHash := newTip, height := bheight newBlock, totalWork := newTipWork,
                         byHeight := (byHeight c)(bheight newBlock \<mapsto> newTip)\<rparr>;
                   c = cacheTouchLocked newTip c;
                   c = c\<lparr>timestamps := push_timestamp (bts newBlock) (timestamps c),
                         keyImages := mark_block_images newBlock (keyImages c),
                         canonicalRingIndexDirty := True\<rparr>
               in (Inr (), cacheTrimLocked c)))"

definition heights_down :: "u64 \<Rightarrow> u64 \<Rightarrow> u64 list" where
  "heights_down from stop = rev (map word_of_nat [Suc (unat stop)..<Suc (unat from)])"

definition forget_block :: "Block \<Rightarrow> 'b chain \<Rightarrow> 'b chain" where
  "forget_block block c =
     c\<lparr>byHeight := (byHeight c)(bheight block := None),
       keyImages := unmark_block_images block (keyImages c)\<rparr>"

definition adopt_block :: "crypto \<Rightarrow> Block \<Rightarrow> 'b chain \<Rightarrow> 'b chain" where
  "adopt_block C block c =
     (let c = cacheTouchLocked (Hash C block) c in
      c\<lparr>byHeight := (byHeight c)(bheight block \<mapsto> Hash C block),
        timestamps := push_timestamp (bts block) (timestamps c),
        keyImages := mark_block_images block (keyImages c)\<rparr>)"

definition switch_branch :: "crypto \<Rightarrow> 'b bolt \<Rightarrow> hash \<Rightarrow> Block \<Rightarrow> 'b chain \<Rightarrow> (chain_error + unit) \<times> 'b chain" where
  "switch_branch C B newTip newBlock c =
     (case enforceReorgFinalityLocked B newTip c of
        (Inl e, c) \<Rightarrow> (Inl e, c)
      | (Inr _, c) \<Rightarrow>
     (case findCommonAncestorLocked B (bestHash c) newTip c of
        (Inl e, c) \<Rightarrow> (Inl e, c)
      | (Inr (commonHash, commonHeight), c) \<Rightarrow>
     (case those (map (getBlockByHeightLocked B c) (heights_down (height c) commonHeight)) of
        None \<Rightarrow> (Inl IncompleteChain, c)
      | Some disconnect \<Rightarrow>
     (case collectConnectPathLocked B commonHash newTip c of
        (Inl e, c) \<Rightarrow> (Inl e, c)
      | (Inr connect, c) \<Rightarrow>
     (case cumulativeWorkAtLocked B newTip c of
        (Inl e, c) \<Rightarrow> (Inl e, c)
      | (Inr newTipWork, c) \<Rightarrow>
     (case CommitReorg C B \<lparr>Disconnect = disconnect, Connect = connect, NewTip = newTip,
             NewHeight = bheight newBlock, NewWork = newTipWork\<rparr> (storage c) of
        (Inl e, st) \<Rightarrow> (Inl (PersistFailed e), c\<lparr>storage := st\<rparr>)
      | (Inr _, st) \<Rightarrow>
          let c = c\<lparr>storage := st\<rparr>;
              c = fold forget_block disconnect c;
              c = fold (adopt_block C) connect c;
              c = c\<lparr>bestHash := newTip, height := bheight newBlock, totalWork := newTipWork,
                    canonicalRingIndexDirty := True\<rparr>;
              c = cacheTouchLocked newTip c
          in (Inr (), cacheTrimLocked c)))))))"

definition reorganizeTo :: "crypto \<Rightarrow> 'b bolt \<Rightarrow> hash \<Rightarrow> 'b chain \<Rightarrow> (chain_error + unit) \<times> 'b chain" where
  "reorganizeTo C B newTip c =
     (case (case fmlookup (blocks c) newTip of
              Some b \<Rightarrow> (Some b, c)
            | None \<Rightarrow>
                (case fst (st_GetBlock B (storage c) newTip) of
                   Some loaded \<Rightarrow>
                     (Some loaded,
                      cacheTrimLocked (cacheTouchLocked newTip (c\<lparr>blocks := fmupd newTip loaded (blocks c)\<rparr>)))
                 | None \<Rightarrow> (None, c))) of
        (None, c) \<Rightarrow> (Inl NewTipMissing, c)
      | (Some newBlock, c) \<Rightarrow>
          if bprev newBlock = bestHash c then extend_tip C B newTip newBlock c
          else switch_branch C B newTip newBlock c)"

section \<open>Adding blocks\<close>

definition addBlockInternal :: "crypto \<Rightarrow> 'b bolt \<Rightarrow> Block \<Rightarrow> 'b chain \<Rightarrow> (chain_error + unit) \<times> 'b chain" where
  "addBlockInternal C B block c =
     (if bheight block \<noteq> 0 then (Inl (NotGenesis (bheight block)), c)
      else case GetTip B (storage c) of (_, _, _, found) \<Rightarrow>
      if found then (Inl GenesisExists, c)
      else case addCumulativeWork 0 (bdiff block) of
        Inl e \<Rightarrow> (Inl e, c)
      | Inr blockWork \<Rightarrow>
     (case block_utxos C (bheight block) (Transactions block) of
        None \<Rightarrow> (Inl (PersistFailed MarshalPanic), c)
      | Some newOutputs \<Rightarrow>
          let hash = Hash C block;
              c = c\<lparr>keyImages := mark_block_images block (keyImages c)\<rparr> in
          case CommitBlock C B \<lparr>bc_Block = block, bc_Height = bheight block, bc_Hash = hash,
                 bc_Work = blockWork, bc_IsMainTip = True, bc_NewOutputs = newOutputs,
                 bc_SpentKeyImgs = spent_images (Transactions block)\<rparr> (storage c) of
            (Inl e, st) \<Rightarrow> (Inl (PersistFailed e), c\<lparr>storage := st\<rparr>)
          | (Inr _, st) \<Rightarrow>
              let c = cacheTouchLocked hash (c\<lparr>storage := st, blocks := fmupd hash block (blocks c)\<rparr>);
                  c = cacheTrimLocked (c\<lparr>workAt := fmupd hash blockWork (workAt c),
                        byHeight := (byHeight c)(bheight block \<mapsto> hash), bestHash := hash,
                        height := bheight block, totalWork := blockWork,
                        canonicalRingIndexDirty := True\<rparr>)
              in (Inr (), c\<lparr>timestamps := push_timestamp (bts block) (timestamps c)\<rparr>)))"

definition addGenesisBlock :: "crypto \<Rightarrow> net_params \<Rightarrow> 'b bolt \<Rightarrow> (nat \<Rightarrow> i64) \<Rightarrow> Block \<Rightarrow> 'b chain
    \<Rightarrow> (chain_error + unit) \<times> 'b chain" where
  "addGenesisBlock C P B now block c =
     (if bheight block \<noteq> 0 then (Inl (NotGenesis (bheight block)), c)
      else case GetTip B (storage c) of (_, _, _, found) \<Rightarrow>
      if found then (Inl GenesisExists, c)
      else case validateBlockForProcessLocked C P B now block c of
        (Inl e, c) \<Rightarrow> (Inl e, c)
      | (Inr _, c) \<Rightarrow> addBlockInternal C B block c)"

text \<open>\<open>ProcessBlock\<close> returns \<open>(accepted, isMainChain)\<close>.\<close>

definition ProcessBlock :: "crypto \<Rightarrow> net_params \<Rightarrow> 'b bolt \<Rightarrow> (nat \<Rightarrow> i64) \<Rightarrow> Block \<Rightarrow> 'b chain
    \<Rightarrow> (chain_error + bool \<times> bool) \<times> 'b chain" where
  "ProcessBlock C P B now block c =
     (let hash = Hash C block in
      if fmlookup (blocks c) hash \<noteq> None then (Inr (False, False), c)
      else if st_HasBlock B (storage c) hash then (Inr (False, False), c)
      else case validateBlockForProcessLocked C P B now block c of
        (Inl e, c) \<Rightarrow> (Inl e, c)
      | (Inr _, c) \<Rightarrow>
     (case (if 0 < bheight block then cumulativeWorkAtLocked B (bprev block) c else (Inr 0, c)) of
        (Inl e, c) \<Rightarrow> (Inl (ParentWork e), c)
      | (Inr parentWork, c) \<Rightarrow>
     (case addCumulativeWork parentWork (bdiff block) of
        Inl e \<Rightarrow> (Inl e, c)
      | Inr blockWork \<Rightarrow>
          let c = cacheTouchLocked hash (c\<lparr>blocks := fmupd hash block (blocks c)\<rparr>);
              c = cacheTrimLocked (c\<lparr>workAt := fmupd hash blockWork (workAt c)\<rparr>) in
          if totalWork c < blockWork
          then (case reorganizeTo C B hash c of
                  (Inl e, c) \<Rightarrow> (Inl (ReorgFailed e), cacheForgetLocked hash c)
                | (Inr _, c) \<Rightarrow> (Inr (True, True), c))
          else (case SaveBlock C B block (storage c) of
                  (Inl e, st) \<Rightarrow> (Inl (ForkSaveFailed e), c\<lparr>storage := st\<rparr>)
                | (Inr _, st) \<Rightarrow> (Inr (True, False), c\<lparr>storage := st\<rparr>)))))"

section \<open>Opening a chain\<close>

text \<open>The loop that loads the recent main chain.  \<open>c.workAt\<close> of an unknown parent reads as zero.\<close>

definition load_parent_work :: "u64 \<Rightarrow> Block \<Rightarrow> (hash, u64) fmap \<Rightarrow> u64" where
  "load_parent_work h block m =
     (if 0 < h then (case fmlookup m (bprev block) of Some w \<Rightarrow> w | None \<Rightarrow> 0) else 0)"

fun load_loop :: "'b bolt \<Rightarrow> u64 list \<Rightarrow> 'b chain \<Rightarrow> chain_error + 'b chain" where
  "load_loop B [] c = Inr c"
| "load_loop B (h # hs) c =
     (case GetBlockHashByHeight B (storage c) h of
        None \<Rightarrow> Inl (MissingAtHeight h)
      | Some hash \<Rightarrow>
     (case st_GetBlock B (storage c) hash of
        (b, err) \<Rightarrow>
          if err then Inl (LoadFailed h)
          else case b of
            None \<Rightarrow> Inl (BlockMissing hash)
          | Some block \<Rightarrow>
              let c = cacheTouchLocked hash (c\<lparr>blocks := fmupd hash block (blocks c)\<rparr>);
                  c = c\<lparr>byHeight := (byHeight c)(h \<mapsto> hash)\<rparr>
              in case addCumulativeWork (load_parent_work h block (workAt c)) (bdiff block) of
                   Inl e \<Rightarrow> Inl e
                 | Inr blockWork \<Rightarrow>
                     load_loop B hs (c\<lparr>workAt := fmupd hash blockWork (workAt c),
                       timestamps := push_timestamp (bts block) (timestamps c),
                       keyImages := fold (\<lambda>ki m. m(ki \<mapsto> h)) (spent_images (Transactions block)) (keyImages c)\<rparr>)))"

text \<open>The offset is added to every entry of a Go map, in no particular order; an overflow of any entry
  fails the whole load.\<close>

definition offset_work :: "u64 \<Rightarrow> (hash, u64) fmap \<Rightarrow> chain_error + (hash, u64) fmap" where
  "offset_work offset m =
     (if \<exists>w \<in> fset (fmran m). - 1 - w < offset then Inl OffsetOverflow else Inr (fmmap (\<lambda>w. w + offset) m))"

definition preload_start :: "u64 \<Rightarrow> u64" where
  "preload_start tipHeight =
     (let preloadBack = max (word_of_nat (LWMAWindow + 10)) MaxReorgDepth
      in if preloadBack < tipHeight then tipHeight - preloadBack else 0)"

definition fix_work :: "'b chain \<Rightarrow> chain_error + 'b chain" where
  "fix_work c =
     (let computedTipWork = (case fmlookup (workAt c) (bestHash c) of Some w \<Rightarrow> w | None \<Rightarrow> 0)
      in if totalWork c < computedTipWork then Inl StoredWorkTooSmall
         else let offset = totalWork c - computedTipWork in
           if 0 < offset
           then (case offset_work offset (workAt c) of
                   Inl e \<Rightarrow> Inl e
                 | Inr m \<Rightarrow> Inr (c\<lparr>workAt := m, canonicalRingIndexDirty := True\<rparr>))
           else Inr (c\<lparr>canonicalRingIndexDirty := True\<rparr>))"

definition loadFromStorage :: "'b bolt \<Rightarrow> 'b chain \<Rightarrow> chain_error + 'b chain" where
  "loadFromStorage B c =
     (case GetTip B (storage c) of (tipHash, tipHeight, tipWork, found) \<Rightarrow>
        if \<not> found then Inr c
        else
          case load_loop B (heights_upto (preload_start tipHeight) tipHeight)
                 (c\<lparr>bestHash := tipHash, height := tipHeight, totalWork := tipWork\<rparr>) of
            Inl e \<Rightarrow> Inl e
          | Inr c \<Rightarrow> fix_work (cacheTrimLocked c))"

text \<open>\<open>NewChain\<close> on an opened database; \<open>env\<close> is the parsed cache size.\<close>

definition NewChain :: "'b bolt \<Rightarrow> int option \<Rightarrow> 'b storage \<Rightarrow> chain_error + 'b chain" where
  "NewChain B env st =
     loadFromStorage B
       \<lparr>storage = st, blocks = fmempty, workAt = fmempty, cacheCap = chainCacheCapFromEnv env, cacheLRU = [],
        cacheIndex = {||}, byHeight = Map.empty, timestamps = [], bestHash = replicate 32 0, height = 0,
        totalWork = 0, keyImages = Map.empty, canonicalRingIndex = {}, canonicalRingIndexDirty = True,
        canonicalRingIndexTip = replicate 32 0, canonicalRingIndexReady = False,
        trustedCheckpoints = None, fastSyncUntilHeight = 0\<rparr>"

end
