(* ===== verification/Ledger.thy ===== *)
theory Ledger
  imports Storage
begin

text \<open>
  An abstract specification of the persistent store.  A \<open>ledger\<close> is a set of known blocks, the
  height index and the spent key images of the main chain, and the tip.  \<open>stores\<close> relates it to
  the five buckets, and every storage operation is shown to refine its ledger counterpart: it
  either fails and leaves the ledger as it was, or performs exactly the abstract update.
\<close>

record ledger =
  lblocks :: "hash \<rightharpoonup> Block"
  lheights :: "u64 \<rightharpoonup> hash"
  limages :: "hash \<rightharpoonup> u64"
  ltip :: "(hash \<times> u64 \<times> u64) option"

definition meta_ok :: "'b bolt \<Rightarrow> 'b \<Rightarrow> (hash \<times> u64 \<times> u64) option \<Rightarrow> bool" where
  "meta_ok B meta tip \<longleftrightarrow>
     bget B meta metaKeyTip = map_option (\<lambda>(h, n, w). Raw h) tip
   \<and> bget B meta metaKeyHeight = map_option (\<lambda>(h, n, w). Raw (BE_PutUint64 n)) tip
   \<and> bget B meta metaKeyWork = map_option (\<lambda>(h, n, w). Raw (BE_PutUint64 w)) tip
   \<and> (\<forall>h n w. tip = Some (h, n, w) \<longrightarrow> length h = 32)"

definition stores_bk :: "'b bolt \<Rightarrow> 'b buckets \<Rightarrow> ledger \<Rightarrow> bool" where
  "stores_bk B bk L \<longleftrightarrow>
     (\<forall>h. bget B (bucketBlocks bk) h = map_option BlockJSON (lblocks L h))
   \<and> (\<forall>n. bget B (bucketHeights bk) (heightKey n) = map_option Raw (lheights L n))
   \<and> (\<forall>k. bget B (bucketKeyImages bk) k = map_option (Raw \<circ> heightKey) (limages L k))
   \<and> (\<forall>n h. lheights L n = Some h \<longrightarrow> length h = 32)
   \<and> meta_ok B (bucketMeta bk) (ltip L)"

definition stores :: "'b bolt \<Rightarrow> 'b storage \<Rightarrow> ledger \<Rightarrow> bool" where
  "stores B st L \<longleftrightarrow> stores_bk B (db st) L"

section \<open>Reads\<close>

lemma copy32_id: "length h = 32 \<Longrightarrow> copy32 h = h"
  by (simp add: copy32_def)

lemma heightKey_inject [simp]: "heightKey m = heightKey n \<longleftrightarrow> m = n"
  by (simp add: heightKey_def BE_PutUint64_inject)

lemma meta_keys [simp]:
  "metaKeyTip \<noteq> metaKeyHeight" "metaKeyTip \<noteq> metaKeyWork" "metaKeyHeight \<noteq> metaKeyWork"
  "metaKeyHeight \<noteq> metaKeyTip" "metaKeyWork \<noteq> metaKeyTip" "metaKeyWork \<noteq> metaKeyHeight"
  by (simp_all add: metaKeyTip_def metaKeyHeight_def metaKeyWork_def go_string_def)

lemma length_BE: "length (BE_PutUint64 n) = 8"
  by (simp add: BE_PutUint64_def length_Put)

lemma stores_reads:
  assumes "stores B st L"
  shows "st_GetBlock B st h = (lblocks L h, False)"
    and "st_HasBlock B st h \<longleftrightarrow> lblocks L h \<noteq> None"
    and "GetBlockHashByHeight B st n = lheights L n"
    and "fst (st_IsKeyImageSpent B st k) \<longleftrightarrow> limages L k \<noteq> None"
proof -
  note s = assms [unfolded stores_def stores_bk_def]
  show "st_GetBlock B st h = (lblocks L h, False)"
    using s by (cases "lblocks L h") (auto simp: st_GetBlock_def)
  show "st_HasBlock B st h \<longleftrightarrow> lblocks L h \<noteq> None"
    using s by (auto simp: st_HasBlock_def)
  show "GetBlockHashByHeight B st n = lheights L n"
    using s by (cases "lheights L n") (auto simp: GetBlockHashByHeight_def get_raw_def copy32_id)
  show "fst (st_IsKeyImageSpent B st k) \<longleftrightarrow> limages L k \<noteq> None"
    using s by (cases "limages L k") (auto simp: st_IsKeyImageSpent_def get_raw_def)
qed

lemma stores_tip:
  assumes "stores B st L"
  shows "GetTip B st = (case ltip L of None \<Rightarrow> (replicate 32 0, 0, 0, False) | Some (h, n, w) \<Rightarrow> (h, n, w, True))"
  using assms
  by (cases "ltip L")
    (auto simp: stores_def stores_bk_def meta_ok_def GetTip_def get_raw_def get_u64_def Let_def
      copy32_id length_BE BE_roundtrip)

lemma stores_readTipMeta:
  assumes "stores_bk B bk L"
  shows "readTipMeta B (bucketMeta bk) = Inr (map_option (\<lambda>(h, n, w). (h, n)) (ltip L))"
  using assms
  by (cases "ltip L")
    (auto simp: stores_bk_def meta_ok_def readTipMeta_def get_raw_def Let_def copy32_id length_BE BE_roundtrip)

lemma updates_irrelevant [simp]: "stores B (st\<lparr>updates := n\<rparr>) L = stores B st L"
  by (simp add: stores_def)

section \<open>Writes\<close>

lemma Put_get: "bolt_ok B \<Longrightarrow> Put B b k v = Inr b' \<Longrightarrow> bget B b' = (bget B b)(k \<mapsto> v)"
  by (auto simp: bolt_ok_def Put_def fun_eq_iff split: option.splits)

lemma Delete_get: "bolt_ok B \<Longrightarrow> Delete B b k = Inr b' \<Longrightarrow> bget B b' = (bget B b)(k := None)"
  by (auto simp: bolt_ok_def Delete_def fun_eq_iff split: option.splits)

lemma put_all_get:
  "bolt_ok B \<Longrightarrow> put_all B kvs b = Inr b' \<Longrightarrow> bget B b' = fold (\<lambda>(k, v) m. m(k \<mapsto> v)) kvs (bget B b)"
  by (induction B kvs b rule: put_all.induct) (auto simp: bindE_Inr_iff Put_get)

lemma delete_all_get:
  "bolt_ok B \<Longrightarrow> delete_all B ks b = Inr b' \<Longrightarrow> bget B b' = fold (\<lambda>k m. m(k := None)) ks (bget B b)"
  by (induction B ks b rule: delete_all.induct) (auto simp: bindE_Inr_iff Delete_get)

lemma fold_put_same: "fold (\<lambda>(k, v) m. m(k \<mapsto> v)) (map (\<lambda>k. (k, v)) ks) m x = (if x \<in> set ks then Some v else m x)"
  by (induction ks arbitrary: m) auto

lemma fold_mark: "fold (\<lambda>k m. m(k \<mapsto> v)) ks m x = (if x \<in> set ks then Some v else m x)"
  by (induction ks arbitrary: m) auto

lemma fold_unmark: "fold (\<lambda>k m. m(k := None)) ks m x = (if x \<in> set ks then None else m x)"
  by (induction ks arbitrary: m) auto

lemma put_tip_ok:
  assumes "bolt_ok B" "length h = 32" "put_tip B h n w meta = Inr meta'"
  shows "meta_ok B meta' (Some (h, n, w))"
  using assms by (auto simp: put_tip_def bindE_Inr_iff meta_ok_def Put_get)

text \<open>A write transaction either fails, with the store as before, or installs what its function
  returned.\<close>

lemma db_Update_cases:
  assumes "db_Update B f st = (r, st')"
  obtains (failed) e where "r = Inl e" "db st' = db st"
  | (committed) bk where "r = Inr ()" "f (db st) = Inr bk" "db st' = bk"
  using assms by (auto simp: db_Update_def Let_def split: sum.splits if_splits)

lemma db_Update_refines:
  assumes "db_Update B f st = (r, st')" "stores B st L"
    and "\<And>bk bk'. stores_bk B bk L \<Longrightarrow> f bk = Inr bk' \<Longrightarrow> stores_bk B bk' L'"
  shows "(\<exists>e. r = Inl e) \<and> stores B st' L \<or> r = Inr () \<and> stores B st' L'"
  using assms(1) by (cases rule: db_Update_cases) (use assms(2,3) in \<open>auto simp: stores_def\<close>)

section \<open>Ledger operations\<close>

definition ledger_save :: "crypto \<Rightarrow> Block \<Rightarrow> ledger \<Rightarrow> ledger" where
  "ledger_save C block L = L\<lparr>lblocks := (lblocks L)(Hash C block \<mapsto> block)\<rparr>"

definition ledger_connect :: "crypto \<Rightarrow> Block \<Rightarrow> ledger \<Rightarrow> ledger" where
  "ledger_connect C block L =
     L\<lparr>lblocks := (lblocks L)(Hash C block \<mapsto> block),
       lheights := (lheights L)(bheight block \<mapsto> Hash C block),
       limages := (\<lambda>k. if k \<in> set (block_images block) then Some (bheight block) else limages L k)\<rparr>"

definition ledger_disconnect :: "Block \<Rightarrow> ledger \<Rightarrow> ledger" where
  "ledger_disconnect block L =
     L\<lparr>lheights := (lheights L)(bheight block := None),
       limages := (\<lambda>k. if k \<in> set (block_images block) then None else limages L k)\<rparr>"

definition ledger_reorg :: "crypto \<Rightarrow> ReorgCommit \<Rightarrow> ledger \<Rightarrow> ledger" where
  "ledger_reorg C commit L =
     (fold (ledger_connect C) (Connect commit) (fold ledger_disconnect (rev (Disconnect commit)) L))
       \<lparr>ltip := Some (NewTip commit, NewHeight commit, NewWork commit)\<rparr>"

text \<open>The checks of \<open>CommitReorg\<close> in terms of the ledger.\<close>

fun connects :: "crypto \<Rightarrow> hash \<Rightarrow> u64 \<Rightarrow> Block list \<Rightarrow> hash \<Rightarrow> bool" where
  "connects C prev h [] tip \<longleftrightarrow> tip = prev"
| "connects C prev h (b # bs) tip \<longleftrightarrow> bheight b = h \<and> bprev b = prev \<and> connects C (Hash C b) (h + 1) bs tip"

fun disconnects :: "crypto \<Rightarrow> (u64 \<rightharpoonup> hash) \<Rightarrow> u64 \<Rightarrow> Block list \<Rightarrow> bool" where
  "disconnects C idx h [] \<longleftrightarrow> True"
| "disconnects C idx h (b # bs) \<longleftrightarrow> bheight b = h \<and> idx h = Some (Hash C b) \<and> disconnects C idx (h - 1) bs"

definition reorg_ok :: "crypto \<Rightarrow> ReorgCommit \<Rightarrow> ledger \<Rightarrow> bool" where
  "reorg_ok C commit L \<longleftrightarrow> Connect commit \<noteq> [] \<and>
     (\<exists>tip n w. ltip L = Some (tip, n, w)
        \<and> length (Disconnect commit) \<le> Suc (unat n)
        \<and> disconnects C (lheights L) n (Disconnect commit)
        \<and> (let ds = Disconnect commit; base = (if ds = [] then tip else bprev (last ds));
               h = (if ds = [] then n else bheight (last ds) - 1) in
           (ds \<noteq> [] \<longrightarrow> bheight (last ds) \<noteq> 0)
           \<and> connects C base (h + 1) (Connect commit) (NewTip commit))
        \<and> NewHeight commit = n - word_of_nat (length (Disconnect commit)) + word_of_nat (length (Connect commit)))"

section \<open>Refinement\<close>

lemma spent_images_block: "spent_images txs = tx_images txs"
  by (induction txs) (auto simp: spent_images_def coinbase_no_images)

lemma disconnect_block_refines:
  assumes "bolt_ok B" "stores_bk B bk L" "disconnect_block B b bk = Inr bk'"
  shows "stores_bk B bk' (ledger_disconnect b L)"
  using assms
  by (auto simp: disconnect_block_def bindE_Inr_iff stores_bk_def ledger_disconnect_def Delete_get
      delete_all_get fold_unmark spent_images_block block_images_def)

lemma connect_block_refines:
  assumes "bolt_ok B" "sha3_32 C" "stores_bk B bk L" "connect_block C B b bk = Inr bk'"
  shows "stores_bk B bk' (ledger_connect C b L)"
proof -
  have l: "length (Hash C b) = 32" by (simp add: Hash_def header_Hash_def sha3_len [OF assms(2)])
  show ?thesis using assms l
    by (auto simp: connect_block_def bindE_Inr_iff stores_bk_def ledger_connect_def Put_get Let_def
        put_all_get fold_put_same spent_images_block block_images_def split: option.splits if_splits)
qed

lemma each_block_refines:
  assumes "\<And>b bk bk' L. stores_bk B bk L \<Longrightarrow> f b bk = Inr bk' \<Longrightarrow> stores_bk B bk' (g b L)"
    and "stores_bk B bk L" "each_block f bs bk = Inr bk'"
  shows "stores_bk B bk' (fold g bs L)"
  using assms(2,3)
proof (induction bs arbitrary: bk L)
  case (Cons b bs)
  then obtain bk1 where "f b bk = Inr bk1" "each_block f bs bk1 = Inr bk'"
    by (auto simp: bindE_Inr_iff)
  with Cons assms(1) show ?case by fastforce
qed simp

lemma check_connect_connects:
  "check_connect C i prev h bs = Inr tip \<Longrightarrow> connects C prev h bs tip"
  by (induction C i prev h bs rule: check_connect.induct) (auto split: if_splits)

lemma check_disconnect_disconnects:
  assumes "stores_bk B bk L"
    and "check_disconnect C B (bucketHeights bk) n i prev bs = Inr ()"
  shows "disconnects C (lheights L) (n - word_of_nat i) bs"
  using assms(2)
proof (induction bs arbitrary: i prev)
  case (Cons b bs)
  let ?h = "n - word_of_nat i"
  have idx: "get_raw B (bucketHeights bk) (heightKey ?h) = lheights L ?h"
    and len: "\<And>h. lheights L ?h = Some h \<Longrightarrow> length h = 32"
    using assms(1) by (auto simp: stores_bk_def get_raw_def option.map_comp comp_def option.map_ident)
  from Cons.prems have "bheight b = ?h" "lheights L ?h = Some (Hash C b)"
    "check_disconnect C B (bucketHeights bk) n (Suc i) (Some b) bs = Inr ()"
    by (auto simp: Let_def idx copy32_id dest: len split: if_splits option.splits)
  then show ?case using Cons.IH [of "Suc i" "Some b"] by (simp add: algebra_simps)
qed simp

lemma not_too_deep: "int l \<le> sint (n + 1 :: i64) \<Longrightarrow> l \<le> Suc (unat n)"
proof -
  assume l: "int l \<le> sint (n + 1)"
  then have "int (unat (n + 1)) = sint (n + 1)" by (intro unat_sint) linarith
  with l have "l \<le> unat (n + 1)" by linarith
  also have "\<dots> \<le> Suc (unat n)"
    by (simp add: unat_word_ariths mod_less_eq_dividend)
  finally show ?thesis .
qed

lemma check_reorg_ok:
  assumes "stores_bk B bk L" "Connect commit \<noteq> []" "check_reorg C B commit bk = Inr ()"
  shows "reorg_ok C commit L"
  using assms(3,2) check_disconnect_disconnects [OF assms(1), of C _ 0 None "Disconnect commit"]
    not_too_deep [of "length (Disconnect commit)"]
  by (auto simp: check_reorg_def stores_readTipMeta [OF assms(1)] bindE_Inr_iff reorg_ok_def Let_def
      dest!: check_connect_connects split: option.splits if_splits)

lemma length_Hash: "sha3_32 C \<Longrightarrow> length (Hash C b) = 32"
  by (simp add: Hash_def header_Hash_def sha3_len)

lemma connects_length: "sha3_32 C \<Longrightarrow> connects C prev h bs tip \<Longrightarrow> bs \<noteq> [] \<Longrightarrow> length tip = 32"
proof (induction bs arbitrary: prev h)
  case (Cons b bs)
  then show ?case by (cases bs) (auto simp: length_Hash)
qed simp

lemma stores_bk_meta:
  "stores_bk B bk L \<Longrightarrow> meta_ok B meta tip \<Longrightarrow> stores_bk B (bk\<lparr>bucketMeta := meta\<rparr>) (L\<lparr>ltip := tip\<rparr>)"
  by (simp add: stores_bk_def)

lemma reorg_commit_refines:
  assumes "bolt_ok B" "sha3_32 C" "stores B st L"
  shows "case CommitReorg C B commit st of
      (Inl e, st') \<Rightarrow> stores B st' L
    | (Inr _, st') \<Rightarrow> reorg_ok C commit L \<and> stores B st' (ledger_reorg C commit L)"
proof (cases "Connect commit = []")
  case True
  then show ?thesis using assms(3) by (simp add: CommitReorg_def)
next
  case False
  obtain r st' where c: "CommitReorg C B commit st = (r, st')" by fastforce
  then have u: "db_Update B (\<lambda>bk.
        bindE (check_reorg C B commit bk) (\<lambda>_.
        bindE (each_block (disconnect_block B) (rev (Disconnect commit)) bk) (\<lambda>bk.
        bindE (each_block (connect_block C B) (Connect commit) bk) (\<lambda>bk.
        bindE (put_tip B (NewTip commit) (NewHeight commit) (NewWork commit) (bucketMeta bk)) (\<lambda>meta.
        Inr (bk\<lparr>bucketMeta := meta\<rparr>)))))) st = (r, st')"
    using False by (simp add: CommitReorg_def)
  then show ?thesis
  proof (cases rule: db_Update_cases)
    case (failed e)
    then show ?thesis using c assms(3) by (simp add: stores_def)
  next
    case (committed bk)
    then obtain bk1 bk2 meta where chk: "check_reorg C B commit (db st) = Inr ()"
      and d: "each_block (disconnect_block B) (rev (Disconnect commit)) (db st) = Inr bk1"
      and k: "each_block (connect_block C B) (Connect commit) bk1 = Inr bk2"
      and m: "put_tip B (NewTip commit) (NewHeight commit) (NewWork commit) (bucketMeta bk2) = Inr meta"
      and bk: "bk = bk2\<lparr>bucketMeta := meta\<rparr>"
      by (auto simp: bindE_Inr_iff)
    have st: "stores_bk B (db st) L" using assms(3) by (simp add: stores_def)
    have ok: "reorg_ok C commit L" using check_reorg_ok [OF st False chk] .
    have s1: "stores_bk B bk1 (fold ledger_disconnect (rev (Disconnect commit)) L)"
      by (rule each_block_refines [OF disconnect_block_refines [OF assms(1)] st d])
    have "stores_bk B bk2 (fold (ledger_connect C) (Connect commit)
        (fold ledger_disconnect (rev (Disconnect commit)) L))"
      by (rule each_block_refines [OF connect_block_refines [OF assms(1,2)] s1 k])
    moreover have "length (NewTip commit) = 32"
      using ok False connects_length [OF assms(2)] by (auto simp: reorg_ok_def Let_def)
    then have "meta_ok B meta (Some (NewTip commit, NewHeight commit, NewWork commit))"
      using put_tip_ok [OF assms(1)] m by blast
    ultimately have "stores_bk B bk (ledger_reorg C commit L)"
      unfolding bk ledger_reorg_def by (rule stores_bk_meta)
    then show ?thesis using c committed ok by (simp add: stores_def)
  qed
qed

lemma SaveBlock_refines:
  assumes "bolt_ok B" "stores B st L" "SaveBlock C B b st = (r, st')"
  shows "(\<exists>e. r = Inl e) \<and> stores B st' L \<or> r = Inr () \<and> stores B st' (ledger_save C b L)"
  using assms(3,2) unfolding SaveBlock_def
  by (rule db_Update_refines)
    (use assms(1) in \<open>auto simp: stores_bk_def ledger_save_def bindE_Inr_iff Put_get split: if_splits\<close>)

text \<open>A genesis commit on an empty store.\<close>

lemma CommitBlock_genesis:
  assumes "bolt_ok B" "sha3_32 C" "stores B st L"
    and "CommitBlock C B \<lparr>bc_Block = b, bc_Height = bheight b, bc_Hash = Hash C b, bc_Work = w,
           bc_IsMainTip = True, bc_NewOutputs = us, bc_SpentKeyImgs = spent_images (Transactions b)\<rparr> st = (r, st')"
  shows "(\<exists>e. r = Inl e) \<and> stores B st' L
    \<or> r = Inr () \<and> stores B st' ((ledger_connect C b L)\<lparr>ltip := Some (Hash C b, bheight b, w)\<rparr>)"
  using assms(4) assms(3) unfolding CommitBlock_def Let_def
  by (simp, elim db_Update_refines)
    (use assms(1,2) put_tip_ok [OF assms(1) length_Hash [OF assms(2), of b]] in
      \<open>auto simp: stores_bk_def ledger_connect_def bindE_Inr_iff Put_get put_all_get
        fold_put_same spent_images_block block_images_def length_Hash split: if_splits\<close>)

section \<open>Truncation steps\<close>

lemma RemoveMainChainBlock_refines:
  assumes "bolt_ok B" "stores B st L" "RemoveMainChainBlock B n st = (r, st')"
  shows "(\<exists>e. r = Inl e) \<and> stores B st' L
    \<or> r = Inr () \<and> stores B st' (L\<lparr>lheights := (lheights L)(n := None)\<rparr>)"
  using assms(3,2) unfolding RemoveMainChainBlock_def
  by (rule db_Update_refines)
    (use assms(1) in \<open>auto simp: stores_bk_def bindE_Inr_iff Delete_get split: if_splits\<close>)

lemma UnmarkKeyImageSpent_refines:
  assumes "bolt_ok B" "stores B st L" "UnmarkKeyImageSpent B k st = (r, st')"
  shows "(\<exists>e. r = Inl e) \<and> stores B st' L
    \<or> r = Inr () \<and> stores B st' (L\<lparr>limages := (limages L)(k := None)\<rparr>)"
  using assms(3,2) unfolding UnmarkKeyImageSpent_def
  by (rule db_Update_refines)
    (use assms(1) in \<open>auto simp: stores_bk_def bindE_Inr_iff Delete_get split: if_splits\<close>)

lemma SetTip_refines:
  assumes "bolt_ok B" "length h = 32" "stores B st L" "SetTip B h n w st = (r, st')"
  shows "(\<exists>e. r = Inl e) \<and> stores B st' L
    \<or> r = Inr () \<and> stores B st' (L\<lparr>ltip := Some (h, n, w)\<rparr>)"
  using assms(4,3) unfolding SetTip_def
  by (rule db_Update_refines)
    (use put_tip_ok [OF assms(1,2)] in \<open>auto simp: stores_bk_def bindE_Inr_iff\<close>)

section \<open>A sample store\<close>

definition empty_ledger :: ledger where
  "empty_ledger = \<lparr>lblocks = Map.empty, lheights = Map.empty, limages = Map.empty, ltip = None\<rparr>"

lemma empty_stores: "stores list_bolt empty_store empty_ledger"
  by (simp add: stores_def stores_bk_def meta_ok_def empty_ledger_def list_bolt_def empty_store_def)

definition sample_blk :: "u64 \<Rightarrow> hash \<Rightarrow> Block" where
  "sample_blk n prev = \<lparr>Header = \<lparr>Version = 1, Height = n, PrevHash = prev, MerkleRoot = replicate 32 0,
     Timestamp = 0, Difficulty = 4, Nonce = 0\<rparr>, Transactions = []\<rparr>"

definition sample_first :: Block where "sample_first = sample_blk 0 (replicate 32 0)"

definition sample_next :: Block where "sample_next = sample_blk 1 (Hash sample_crypto sample_first)"

definition sample_store :: "(bytes \<times> dbval) list storage" where
  "sample_store = snd (CommitBlock sample_crypto list_bolt
     \<lparr>bc_Block = sample_first, bc_Height = bheight sample_first, bc_Hash = Hash sample_crypto sample_first, bc_Work = 4,
      bc_IsMainTip = True, bc_NewOutputs = [], bc_SpentKeyImgs = spent_images (Transactions sample_first)\<rparr> empty_store)"

definition sample_ledger :: ledger where
  "sample_ledger = (ledger_connect sample_crypto sample_first empty_ledger)
     \<lparr>ltip := Some (Hash sample_crypto sample_first, bheight sample_first, 4)\<rparr>"

lemma sample_stores: "stores list_bolt sample_store sample_ledger"
proof -
  have "fst (CommitBlock sample_crypto list_bolt
     \<lparr>bc_Block = sample_first, bc_Height = bheight sample_first, bc_Hash = Hash sample_crypto sample_first, bc_Work = 4,
      bc_IsMainTip = True, bc_NewOutputs = [], bc_SpentKeyImgs = spent_images (Transactions sample_first)\<rparr> empty_store)
     = Inr ()" by code_simp
  then show ?thesis
    using CommitBlock_genesis [OF list_bolt_ok sample_crypto_sha3 empty_stores, of sample_first 4 "[]"]
    unfolding sample_store_def sample_ledger_def by (metis prod.collapse sum.distinct(1))
qed

definition sample_commit :: ReorgCommit where
  "sample_commit = \<lparr>Disconnect = [], Connect = [sample_next], NewTip = Hash sample_crypto sample_next,
     NewHeight = 1, NewWork = 8\<rparr>"



end
