(* ===== verification/MainChain.thy ===== *)
theory MainChain
  imports Ledger
begin

text \<open>
  The block tree and the main chain of a ledger, independent of the code that maintains them:
  branches, their work and key images, what makes a ledger consistent (\<open>ledger_ok\<close>), and that adding
  a block to the tree and reorganising to it keep it consistent.
\<close>

section \<open>Branches\<close>

text \<open>The blocks from a stored block down to a block of height 0, tip first.\<close>

inductive branch :: "(hash \<rightharpoonup> Block) \<Rightarrow> hash \<Rightarrow> Block list \<Rightarrow> bool" for K where
  root: "K h = Some b \<Longrightarrow> bheight b = 0 \<Longrightarrow> branch K h [b]"
| child: "K h = Some b \<Longrightarrow> bheight b \<noteq> 0 \<Longrightarrow> branch K (bprev b) bs \<Longrightarrow> branch K h (b # bs)"

inductive_cases branch_ConsE: "branch K h (b # bs)"

lemma branch_cases:
  assumes "branch K h bs"
  obtains (root) b where "bs = [b]" "K h = Some b" "bheight b = 0"
  | (child) b bs' where "bs = b # bs'" "K h = Some b" "bheight b \<noteq> 0" "branch K (bprev b) bs'"
  using assms by (cases rule: branch.cases) auto

lemma branch_unique: "branch K h bs \<Longrightarrow> branch K h bs' \<Longrightarrow> bs = bs'"
proof (induction arbitrary: bs' rule: branch.induct)
  case (root h b)
  from root(3) show ?case by (cases rule: branch_cases) (use root in auto)
next
  case (child h b bs)
  from child.prems show ?case
  proof (cases rule: branch_cases)
    case child2: (child b' bs'')
    then show ?thesis using child.hyps(1) child.IH [of bs''] by simp
  qed (use child.hyps in simp)
qed

lemma branch_nonempty: "branch K h bs \<Longrightarrow> bs \<noteq> []"
  by (auto elim: branch_cases)

lemma branch_hd: "branch K h bs \<Longrightarrow> K h = Some (hd bs)"
  by (auto elim: branch_cases)

lemma branch_mono: "branch K h bs \<Longrightarrow> K \<subseteq>\<^sub>m K' \<Longrightarrow> branch K' h bs"
  by (induction rule: branch.induct) (auto simp: map_le_def dom_def intro!: branch.intros)

lemma branch_stored: "branch K h bs \<Longrightarrow> b \<in> set bs \<Longrightarrow> \<exists>h'. K h' = Some b"
  by (induction rule: branch.induct) auto

definition work_of :: "Block list \<Rightarrow> nat" where
  "work_of bs = sum_list (map (unat \<circ> bdiff) bs)"

definition images_of :: "Block list \<Rightarrow> hash list" where
  "images_of bs = concat (map block_images bs)"

lemma work_of_simps [simp]:
  "work_of [] = 0" "work_of (b # bs) = unat (bdiff b) + work_of bs" "work_of (as @ bs) = work_of as + work_of bs"
  by (simp_all add: work_of_def)

lemma images_of_simps [simp]:
  "images_of [] = []" "images_of (b # bs) = block_images b @ images_of bs"
  "images_of (as @ bs) = images_of as @ images_of bs"
  by (simp_all add: images_of_def)

lemma images_of_rev [simp]: "set (images_of (rev bs)) = set (images_of bs)"
  by (simp add: images_of_def)

section \<open>Block trees\<close>

text \<open>Blocks are filed under their hash, every block above height 0 has its parent in the tree one
  below, and along a branch no key image repeats and the work fits in 64 bits.\<close>

definition block_tree :: "crypto \<Rightarrow> (hash \<rightharpoonup> Block) \<Rightarrow> bool" where
  "block_tree C K \<longleftrightarrow> (\<forall>h b. K h = Some b \<longrightarrow> Hash C b = h \<and> bdiff b \<noteq> 0
     \<and> (bheight b \<noteq> 0 \<longrightarrow> (\<exists>p. K (bprev b) = Some p \<and> bheight b = bheight p + 1)))"

definition branch_ok :: "Block list \<Rightarrow> bool" where
  "branch_ok bs \<longleftrightarrow> distinct (images_of bs) \<and> work_of bs < 2 ^ 64"

definition tree_ok :: "crypto \<Rightarrow> (hash \<rightharpoonup> Block) \<Rightarrow> bool" where
  "tree_ok C K \<longleftrightarrow> block_tree C K \<and> (\<forall>h bs. branch K h bs \<longrightarrow> branch_ok bs)"

lemma tree_hash: "block_tree C K \<Longrightarrow> K h = Some b \<Longrightarrow> Hash C b = h"
  by (simp add: block_tree_def)

lemma tree_parent:
  assumes "block_tree C K" "K h = Some b" "bheight b \<noteq> 0"
  obtains p where "K (bprev b) = Some p" "bheight b = bheight p + 1" "unat (bheight b) = Suc (unat (bheight p))"
proof -
  obtain p where p: "K (bprev b) = Some p" "bheight b = bheight p + 1"
    using assms by (auto simp: block_tree_def)
  moreover have "unat (bheight b) = Suc (unat (bheight p))"
    using assms(3) p(2) by (metis unatSuc add.commute)
  ultimately show ?thesis using that by blast
qed

lemma tree_branch:
  assumes "block_tree C K"
  shows "K h = Some b \<Longrightarrow> \<exists>bs. branch K h bs"
proof (induction "unat (bheight b)" arbitrary: h b rule: less_induct)
  case less
  show ?case
  proof (cases "bheight b = 0")
    case True
    then show ?thesis using less.prems branch.root by blast
  next
    case False
    then obtain p where "K (bprev b) = Some p" "unat (bheight b) = Suc (unat (bheight p))"
      using tree_parent [OF assms less.prems] by metis
    then show ?thesis using less.hyps less.prems False branch.child by (metis lessI)
  qed
qed

lemma branch_length:
  assumes "block_tree C K"
  shows "branch K h bs \<Longrightarrow> length bs = Suc (unat (bheight (hd bs)))"
proof (induction rule: branch.induct)
  case (child h b bs)
  then obtain p where "K (bprev b) = Some p" "unat (bheight b) = Suc (unat (bheight p))"
    using tree_parent [OF assms] by metis
  with child branch_hd [OF child(3)] show ?case by simp
qed simp

lemma branch_heights:
  assumes "block_tree C K"
  shows "branch K h bs \<Longrightarrow> i < length bs \<Longrightarrow> unat (bheight (bs ! i)) = length bs - Suc i"
proof (induction arbitrary: i rule: branch.induct)
  case (child h b bs)
  then show ?case using branch_length [OF assms branch.child [OF child(1-3)]]
    by (cases i) auto
qed simp

lemma branch_drop:
  assumes "block_tree C K"
  shows "branch K h bs \<Longrightarrow> i < length bs \<Longrightarrow> branch K (Hash C (bs ! i)) (drop i bs)"
proof (induction arbitrary: i rule: branch.induct)
  case (root h b)
  then show ?case using tree_hash [OF assms] branch.root by force
next
  case (child h b bs)
  then show ?case using tree_hash [OF assms child(1)] branch.child [OF child(1-3)] by (cases i) auto
qed

lemma branch_parent:
  assumes "block_tree C K" "branch K h bs" "Suc i < length bs"
  shows "branch K (bprev (bs ! i)) (drop (Suc i) bs)"
proof -
  have "branch K (Hash C (bs ! i)) (bs ! i # drop (Suc i) bs)"
    using branch_drop [OF assms(1,2), of i] assms(3) by (simp add: Cons_nth_drop_Suc)
  then show ?thesis using assms(3) by (auto elim: branch_ConsE)
qed

lemma branch_length_work:
  assumes "tree_ok C K" "branch K h bs"
  shows "length bs \<le> work_of bs" "length bs < 2 ^ 64"
proof -
  have "\<forall>b \<in> set bs. 1 \<le> unat (bdiff b)"
    using branch_stored [OF assms(2)] assms(1)
    by (fastforce simp: tree_ok_def block_tree_def Suc_le_eq unat_gt_0)
  then show "length bs \<le> work_of bs" by (induction bs) auto
  also have "\<dots> < 2 ^ 64" using assms by (auto simp: tree_ok_def branch_ok_def)
  finally show "length bs < 2 ^ 64" .
qed

text \<open>Adding one validated block.\<close>

lemma branch_unaffected:
  assumes "block_tree C K" "K hash = None"
  shows "branch (K(hash \<mapsto> block)) h bs \<Longrightarrow> h \<noteq> hash \<Longrightarrow> branch K h bs"
proof (induction rule: branch.induct)
  case (root h b)
  then show ?case by (auto intro: branch.root)
next
  case (child h b bs)
  then have "K h = Some b" by simp
  moreover have "bprev b \<noteq> hash"
    using assms \<open>K h = Some b\<close> child(2) by (metis option.distinct(1) tree_parent)
  ultimately show ?case using child by (auto intro: branch.child)
qed

lemma tree_ok_insert:
  assumes "tree_ok C K" "K hash = None" "Hash C block = hash" "bdiff block \<noteq> 0"
    and "bheight block = 0 \<Longrightarrow> block_images block = []"
    and "bheight block \<noteq> 0 \<Longrightarrow> \<exists>p ps. branch K (bprev block) (p # ps) \<and> bheight block = bheight p + 1
           \<and> distinct (images_of (block # p # ps)) \<and> work_of (block # p # ps) < 2 ^ 64"
  shows "tree_ok C (K(hash \<mapsto> block))"
proof -
  have tree: "block_tree C K" using assms(1) by (simp add: tree_ok_def)
  have "block_tree C (K(hash \<mapsto> block))"
    unfolding block_tree_def
  proof (intro allI impI)
    fix h b assume h: "(K(hash \<mapsto> block)) h = Some b"
    show "Hash C b = h \<and> bdiff b \<noteq> 0 \<and> (bheight b \<noteq> 0 \<longrightarrow>
        (\<exists>p. (K(hash \<mapsto> block)) (bprev b) = Some p \<and> bheight b = bheight p + 1))"
    proof (cases "h = hash")
      case True
      with h assms(3,4,6) show ?thesis using assms(2) branch_hd [of K "bprev block"] by fastforce
    next
      case False
      with h tree assms(2) show ?thesis by (fastforce simp: block_tree_def)
    qed
  qed
  moreover have "branch_ok bs" if "branch (K(hash \<mapsto> block)) h bs" for h bs
  proof (cases "h = hash")
    case False
    then show ?thesis using branch_unaffected [OF tree assms(2) that] assms(1) by (simp add: tree_ok_def)
  next
    case True
    from that show ?thesis
    proof (cases rule: branch_cases)
      case (root b)
      then show ?thesis using True assms(5) unat_bound [of "bdiff b"] by (simp add: branch_ok_def)
    next
      case 2: (child b bs')
      then have b: "b = block" using True by simp
      then obtain p ps where p: "branch K (bprev block) (p # ps)"
        "distinct (images_of (block # p # ps))" "work_of (block # p # ps) < 2 ^ 64"
        using assms(6) 2 by auto
      have "K \<subseteq>\<^sub>m K(hash \<mapsto> block)" using assms(2) by (auto simp: map_le_def)
      then have "bs' = p # ps"
        using branch_unique branch_mono [OF p(1)] 2 b by metis
      then show ?thesis using p 2 b by (simp add: branch_ok_def)
    qed
  qed
  ultimately show ?thesis by (simp add: tree_ok_def)
qed

section \<open>The main chain\<close>

definition main_is :: "crypto \<Rightarrow> ledger \<Rightarrow> Block list \<Rightarrow> bool" where
  "main_is C L bs \<longleftrightarrow>
     (\<forall>m. lheights L m = (if unat m < length bs then Some (Hash C (rev bs ! unat m)) else None))
   \<and> dom (limages L) = set (images_of bs)"

definition ledger_ok :: "crypto \<Rightarrow> ledger \<Rightarrow> bool" where
  "ledger_ok C L \<longleftrightarrow> tree_ok C (lblocks L) \<and>
     (case ltip L of
        None \<Rightarrow> lblocks L = Map.empty \<and> lheights L = Map.empty \<and> limages L = Map.empty
      | Some (tip, n, w) \<Rightarrow>
          \<exists>bs. branch (lblocks L) tip bs \<and> main_is C L bs \<and> length bs = Suc (unat n) \<and> unat w = work_of bs)"

text \<open>The blocks of the main chain, tip first.\<close>

definition chain_of :: "crypto \<Rightarrow> ledger \<Rightarrow> Block list \<Rightarrow> bool" where
  "chain_of C L bs \<longleftrightarrow> (\<exists>tip n w. ltip L = Some (tip, n, w) \<and> branch (lblocks L) tip bs \<and> main_is C L bs
     \<and> length bs = Suc (unat n) \<and> unat w = work_of bs)"

lemma chain_of_unique: "chain_of C L bs \<Longrightarrow> chain_of C L bs' \<Longrightarrow> bs = bs'"
  unfolding chain_of_def using branch_unique by fastforce

lemma ledger_chain: "ledger_ok C L \<Longrightarrow> ltip L \<noteq> None \<Longrightarrow> \<exists>bs. chain_of C L bs"
  by (fastforce simp: ledger_ok_def chain_of_def)

lemma fold_disconnect:
  "lblocks (fold ledger_disconnect ds L) = lblocks L"
  "lheights (fold ledger_disconnect ds L) = (\<lambda>m. if m \<in> bheight ` set ds then None else lheights L m)"
  "limages (fold ledger_disconnect ds L) = (\<lambda>k. if k \<in> set (images_of ds) then None else limages L k)"
  by (induction ds arbitrary: L) (auto simp: ledger_disconnect_def fun_eq_iff)

text \<open>The disconnected blocks are the top of the main chain.\<close>

lemma disconnects_take:
  assumes "\<forall>d \<in> set ds. K (Hash C d) = Some d" "\<forall>b \<in> set bs. K (Hash C b) = Some b"
    and "\<forall>i < length bs. idx (word_of_nat (length bs - Suc i)) = Some (Hash C (bs ! i))"
    and "length bs \<le> 2 ^ 64" "length ds \<le> length bs"
    and "disconnects C idx (word_of_nat (length bs - 1)) ds"
  shows "ds = take (length ds) bs"
  using assms
proof (induction ds arbitrary: bs)
  case (Cons d ds)
  then obtain b bs' where bs: "bs = b # bs'" by (cases bs) auto
  have "idx (word_of_nat (length bs')) = Some (Hash C b)" using Cons.prems(3) by (auto simp: bs)
  then have "d = b" using Cons.prems(1,2,6) by (auto simp: bs)
  moreover have "ds = take (length ds) bs'"
  proof (cases bs')
    case (Cons b' bs'')
    have "word_of_nat (length bs') - 1 = (word_of_nat (length bs' - 1) :: u64)" by (simp add: Cons)
    then have "disconnects C idx (word_of_nat (length bs' - 1)) ds" using Cons.prems(6) by (simp add: bs)
    moreover have "\<forall>i < length bs'. idx (word_of_nat (length bs' - Suc i)) = Some (Hash C (bs' ! i))"
      using Cons.prems(3) by (auto simp: bs)
    ultimately show ?thesis using Cons.IH [of bs'] Cons.prems by (simp add: bs)
  qed (use Cons.prems(5) in \<open>simp add: bs\<close>)
  ultimately show ?case by (simp add: bs)
qed simp

lemma fold_connect:
  assumes "main_is C L ps" "length cs + length ps < 2 ^ 64"
    and "\<And>i. i < length cs \<Longrightarrow> unat (bheight (cs ! i)) = length ps + i"
  shows "main_is C (fold (ledger_connect C) cs L) (rev cs @ ps)
    \<and> lblocks (fold (ledger_connect C) cs L) = fold (\<lambda>b K. K(Hash C b \<mapsto> b)) cs (lblocks L)"
  using assms
proof (induction cs arbitrary: L ps)
  case (Cons b cs)
  have hb: "unat (bheight b) = length ps" using Cons.prems(3) [of 0] by simp
  have "main_is C (ledger_connect C b L) (b # ps)"
    unfolding main_is_def
  proof (intro conjI allI)
    fix m
    have lm: "lheights L m = (if unat m < length ps then Some (Hash C (rev ps ! unat m)) else None)"
      using Cons.prems(1) by (simp add: main_is_def)
    show "lheights (ledger_connect C b L) m
        = (if unat m < length (b # ps) then Some (Hash C (rev (b # ps) ! unat m)) else None)"
    proof (cases "m = bheight b")
      case True
      then show ?thesis using hb by (simp add: ledger_connect_def nth_append)
    next
      case False
      then have "unat m \<noteq> length ps" using hb by (metis word_unat_eq_iff)
      with False show ?thesis by (simp add: ledger_connect_def lm nth_append less_Suc_eq)
    qed
  next
    show "dom (limages (ledger_connect C b L)) = set (images_of (b # ps))"
      using Cons.prems(1) by (auto simp: main_is_def ledger_connect_def dom_def)
  qed
  moreover have "unat (bheight (cs ! i)) = length (b # ps) + i" if "i < length cs" for i
    using Cons.prems(3) [of "Suc i"] that by simp
  ultimately show ?case
    using Cons.IH [of "ledger_connect C b L" "b # ps"] Cons.prems(2) by (simp add: ledger_connect_def)
qed simp

lemma connects_branch:
  assumes "tree_ok C K"
  shows "\<lbrakk>branch K prev ps; connects C prev (word_of_nat (length ps)) cs tip;
      \<forall>b \<in> set cs. K (Hash C b) = Some b\<rbrakk>
    \<Longrightarrow> branch K tip (rev cs @ ps) \<and> (\<forall>i < length cs. unat (bheight (cs ! i)) = length ps + i)"
proof (induction cs arbitrary: prev ps)
  case (Cons b cs)
  have len: "0 < length ps" "length ps < 2 ^ 64"
    using branch_nonempty [OF Cons.prems(1)] branch_length_work [OF assms Cons.prems(1)] by auto
  have hb: "unat (bheight b) = length ps"
    using Cons.prems(2) len by (simp add: unat_of_nat)
  have "bheight b \<noteq> 0" using hb len(1) by (metis less_irrefl unat_0)
  then have br: "branch K (Hash C b) (b # ps)"
    using Cons.prems by (intro branch.child) auto
  have "connects C (Hash C b) (word_of_nat (length (b # ps))) cs tip"
    using Cons.prems(2) by (simp add: add.commute)
  then have ih: "branch K tip (rev cs @ b # ps) \<and> (\<forall>i < length cs. unat (bheight (cs ! i)) = Suc (length ps) + i)"
    using Cons.IH [OF br] Cons.prems(3) by simp
  then show ?case using hb by (auto simp: nth_Cons split: nat.split)
qed simp

lemma fold_insert_known:
  assumes "\<forall>b \<in> set cs. K (Hash C b) = Some b" "M \<subseteq>\<^sub>m K"
  shows "fold (\<lambda>b K. K(Hash C b \<mapsto> b)) cs M \<subseteq>\<^sub>m K
    \<and> dom (fold (\<lambda>b K. K(Hash C b \<mapsto> b)) cs M) = dom M \<union> Hash C ` set cs"
  using assms
proof (induction cs arbitrary: M)
  case (Cons b cs)
  then have "M(Hash C b \<mapsto> b) \<subseteq>\<^sub>m K" by (auto simp: map_le_def)
  from Cons.IH [OF _ this] Cons.prems(1) show ?case by (simp del: fun_upd_apply)
qed simp

lemma connects_last: "connects C prev h cs tip \<Longrightarrow> cs \<noteq> [] \<Longrightarrow> tip = Hash C (last cs)"
  by (induction cs arbitrary: prev h) (auto split: if_splits)

lemma ledger_okE:
  assumes "ledger_ok C L" "ltip L = Some (tip, n, w)"
  obtains bs where "branch (lblocks L) tip bs" "main_is C L bs" "length bs = Suc (unat n)"
    "unat w = work_of bs" "tree_ok C (lblocks L)" "block_tree C (lblocks L)"
  using assms by (auto simp: ledger_ok_def tree_ok_def)

lemma branch_filed:
  "block_tree C K \<Longrightarrow> branch K h bs \<Longrightarrow> b \<in> set bs \<Longrightarrow> K (Hash C b) = Some b"
  using branch_stored tree_hash by metis

text \<open>The height index seen from the tip.\<close>

lemma main_index:
  assumes "main_is C L bs" "length bs < 2 ^ 64" "i < length bs"
  shows "lheights L (word_of_nat (length bs - Suc i)) = Some (Hash C (bs ! i))"
proof -
  have "unat (word_of_nat (length bs - Suc i) :: u64) = length bs - Suc i"
    using assms(2) by (simp add: unat_of_nat)
  moreover have "rev bs ! (length bs - Suc i) = bs ! i" using assms(3) by (simp add: rev_nth)
  ultimately show ?thesis using assms(1,3) by (simp add: main_is_def)
qed

text \<open>After the disconnects the main chain ends at the fork point.\<close>

lemma fold_disconnect_main:
  assumes "main_is C L bs" "block_tree C (lblocks L)" "branch (lblocks L) tip bs" "distinct (images_of bs)"
    and "d \<le> length bs"
  shows "main_is C (fold ledger_disconnect (rev (take d bs)) L) (drop d bs)"
proof -
  have hs: "unat m \<in> {length bs - d..<length bs} \<longleftrightarrow> m \<in> bheight ` set (take d bs)" for m
  proof
    assume "unat m \<in> {length bs - d..<length bs}"
    then have i: "length bs - Suc (unat m) < d" "unat m < length bs" using assms(5) by auto
    then have "unat (bheight (bs ! (length bs - Suc (unat m)))) = unat m"
      using branch_heights [OF assms(2,3)] by simp
    then have "bheight (bs ! (length bs - Suc (unat m))) = m" by (simp add: word_unat_eq_iff)
    moreover have "bs ! (length bs - Suc (unat m)) \<in> set (take d bs)"
      using i by (auto simp: in_set_conv_nth intro!: exI [of _ "length bs - Suc (unat m)"])
    ultimately show "m \<in> bheight ` set (take d bs)" by force
  next
    assume "m \<in> bheight ` set (take d bs)"
    then obtain i where "i < d" "i < length bs" "m = bheight (bs ! i)" by (auto simp: in_set_conv_nth)
    then show "unat m \<in> {length bs - d..<length bs}"
      using branch_heights [OF assms(2,3)] assms(5) by auto
  qed
  have nth: "rev (drop d bs) ! k = rev bs ! k" if "k < length bs - d" for k
    using that assms(5) by (simp add: rev_nth add.commute)
  have "images_of bs = images_of (take d bs) @ images_of (drop d bs)"
    by (metis append_take_drop_id images_of_simps(3))
  then have im: "set (images_of bs) - set (images_of (take d bs)) = set (images_of (drop d bs))"
    using assms(4) by auto
  have "dom (limages (fold ledger_disconnect (rev (take d bs)) L)) = dom (limages L) - set (images_of (take d bs))"
    unfolding fold_disconnect by (auto split: if_splits)
  then have "dom (limages (fold ledger_disconnect (rev (take d bs)) L)) = set (images_of (drop d bs))"
    using assms(1) im by (simp add: main_is_def)
  moreover have "lheights (fold ledger_disconnect (rev (take d bs)) L) m
      = (if unat m < length (drop d bs) then Some (Hash C (rev (drop d bs) ! unat m)) else None)" for m
  proof -
    have lm: "lheights L m = (if unat m < length bs then Some (Hash C (rev bs ! unat m)) else None)"
      using assms(1) by (simp add: main_is_def)
    show ?thesis
      using hs [of m] nth [of "unat m"] assms(5) unfolding fold_disconnect set_rev lm length_drop
      by (cases "m \<in> bheight ` set (take d bs)") auto
  qed
  ultimately show ?thesis by (simp add: main_is_def)
qed

text \<open>Reorganising to a block of the tree keeps the ledger consistent.\<close>

lemma ledger_reorg_ok:
  assumes ok: "ledger_ok C L" "reorg_ok C commit L"
    and tree: "tree_ok C K" "lblocks L \<subseteq>\<^sub>m K" "dom K = insert (NewTip commit) (dom (lblocks L))"
    and known: "\<forall>d \<in> set (Disconnect commit). lblocks L (Hash C d) = Some d"
      "\<forall>b \<in> set (Connect commit). K (Hash C b) = Some b"
    and tip: "K (NewTip commit) = Some block" "NewHeight commit = bheight block"
      "branch K (NewTip commit) bs'" "unat (NewWork commit) = work_of bs'"
  shows "ledger_ok C (ledger_reorg C commit L)" "lblocks (ledger_reorg C commit L) = K"
    "\<exists>bs. chain_of C L bs \<and> chain_of C (ledger_reorg C commit L) bs'
       \<and> bs' = rev (Connect commit) @ drop (length (Disconnect commit)) bs"
proof -
  let ?ds = "Disconnect commit" and ?cs = "Connect commit"
  let ?M = "fold ledger_disconnect (rev ?ds) L"
  obtain t n w where lt: "ltip L = Some (t, n, w)" and deep: "length ?ds \<le> Suc (unat n)"
    and ds: "disconnects C (lheights L) n ?ds" and cs0: "?cs \<noteq> []"
    and low: "?ds \<noteq> [] \<Longrightarrow> bheight (last ?ds) \<noteq> 0"
    and cs: "connects C (if ?ds = [] then t else bprev (last ?ds))
        ((if ?ds = [] then n else bheight (last ?ds) - 1) + 1) ?cs (NewTip commit)"
    using ok(2) by (auto simp: reorg_ok_def Let_def)
  obtain bs where bs: "branch (lblocks L) t bs" "main_is C L bs" "length bs = Suc (unat n)"
    and tr: "tree_ok C (lblocks L)" "block_tree C (lblocks L)" and old: "chain_of C L bs"
    using ledger_okE [OF ok(1) lt] lt chain_of_def by metis
  have len: "length bs < 2 ^ 64" using branch_length_work [OF tr(1) bs(1)] by simp
  have dist: "distinct (images_of bs)" using tr(1) bs(1) by (auto simp: tree_ok_def branch_ok_def)
  have "\<forall>b \<in> set bs. lblocks L (Hash C b) = Some b" using branch_filed [OF tr(2) bs(1)] by blast
  moreover have "word_of_nat (length bs - 1) = n" by (simp add: bs(3))
  ultimately have top: "?ds = take (length ?ds) bs"
    using disconnects_take [OF known(1), of bs "lheights L"] main_index [OF bs(2) len] len deep ds bs(3)
    by simp
  define ps where "ps = drop (length ?ds) bs"
  have main1: "main_is C ?M ps"
    using fold_disconnect_main [OF bs(2) tr(2) bs(1) dist, of "length ?ds"] deep bs(3) top
    unfolding ps_def by simp
  have base: "branch (lblocks L) (if ?ds = [] then t else bprev (last ?ds)) ps
      \<and> (if ?ds = [] then n else bheight (last ?ds) - 1) + 1 = word_of_nat (length ps)"
  proof (cases "?ds = []")
    case True
    then show ?thesis using bs by (simp add: ps_def add.commute)
  next
    case False
    define i where "i = length ?ds - 1"
    have i: "i < length bs" "Suc i = length ?ds" using deep bs(3) False by (auto simp: i_def)
    have last: "last ?ds = bs ! i"
      using top False by (metis i_def i(1) last_conv_nth nth_take i(2) lessI)
    have hi: "unat (bheight (bs ! i)) = length bs - Suc i" using branch_heights [OF tr(2) bs(1) i(1)] .
    then have "Suc i < length bs" using low [OF False] last i(1)
      by (metis Suc_lessI diff_is_0_eq' le_refl unat_eq_zero)
    then have "branch (lblocks L) (bprev (last ?ds)) ps"
      unfolding ps_def i(2) [symmetric] last by (rule branch_parent [OF tr(2) bs(1)])
    moreover have "word_of_nat (unat (bheight (bs ! i))) = (word_of_nat (length ps) :: u64)"
      by (simp only: hi i(2) ps_def length_drop)
    then have "bheight (bs ! i) = word_of_nat (length ps)" by simp
    ultimately show ?thesis using False last by simp
  qed
  have brp: "branch K (if ?ds = [] then t else bprev (last ?ds)) ps"
    using base branch_mono tree(2) by blast
  have con: "branch K (NewTip commit) (rev ?cs @ ps)"
      "\<And>i. i < length ?cs \<Longrightarrow> unat (bheight (?cs ! i)) = length ps + i"
    using connects_branch [OF tree(1) brp, of ?cs "NewTip commit"] cs base known(2) by auto
  have bs': "bs' = rev ?cs @ ps" using branch_unique [OF tip(3) con(1)] .
  have len': "length bs' < 2 ^ 64" using branch_length_work [OF tree(1) tip(3)] by simp
  have main2: "main_is C (fold (ledger_connect C) ?cs ?M) bs'"
    and bl: "lblocks (fold (ledger_connect C) ?cs ?M) = fold (\<lambda>b K. K(Hash C b \<mapsto> b)) ?cs (lblocks L)"
    using fold_connect [OF main1 _ con(2)] len' by (auto simp: bs' fold_disconnect)
  have "NewTip commit \<in> Hash C ` set ?cs" using connects_last [OF cs cs0] cs0 by simp
  then show lbl: "lblocks (ledger_reorg C commit L) = K"
    using fold_insert_known [OF known(2) tree(2)] tree(3) known(2)
    unfolding ledger_reorg_def by (auto simp: bl intro!: map_le_antisym simp: map_le_def)
  have "main_is C (ledger_reorg C commit L) bs'"
    using main2 by (simp add: ledger_reorg_def main_is_def)
  moreover have "length bs' = Suc (unat (NewHeight commit))"
    using branch_length [of C K] tree(1) tip(1-3) branch_hd [OF tip(3)] by (auto simp: tree_ok_def)
  ultimately have new: "chain_of C (ledger_reorg C commit L) bs'"
    using tip(3,4) lbl by (simp add: chain_of_def ledger_reorg_def)
  then show "ledger_ok C (ledger_reorg C commit L)"
    using tree(1) lbl by (auto simp: ledger_ok_def chain_of_def)
  show "\<exists>bs. chain_of C L bs \<and> chain_of C (ledger_reorg C commit L) bs'
       \<and> bs' = rev (Connect commit) @ drop (length (Disconnect commit)) bs"
    using old new bs' ps_def by blast
qed

end
