(* ===== verification/ChainCache.thy ===== *)
theory ChainCache
  imports Chain MainChain
begin

text \<open>
  The block caches of the chain never influence what it computes.  Eviction terminates below the
  configured bound, only drops entries, and leaves everything else alone; a lookup through the
  cache returns what the ledger holds; the canonical ring index, when it is used, is the set of
  outputs of the main chain.  This makes the chain a \<open>chain_view\<close>.
\<close>

section \<open>Cache structure\<close>

definition core :: "'b chain \<Rightarrow> 'b chain" where
  "core c = c\<lparr>blocks := fmempty, workAt := fmempty, cacheLRU := [], cacheIndex := {||}\<rparr>"

definition cache_wf :: "'b chain \<Rightarrow> bool" where
  "cache_wf c \<longleftrightarrow> distinct (cacheLRU c) \<and> set (cacheLRU c) = fset (cacheIndex c)
     \<and> fset (fmdom (blocks c)) \<subseteq> fset (cacheIndex c) \<and> fset (fmdom (workAt c)) \<subseteq> fset (cacheIndex c)"

text \<open>\<open>c'\<close> is \<open>c\<close> with some cached entries dropped.\<close>

definition cache_sub :: "'b chain \<Rightarrow> 'b chain \<Rightarrow> bool" where
  "cache_sub c' c \<longleftrightarrow> core c' = core c \<and> fmlookup (blocks c') \<subseteq>\<^sub>m fmlookup (blocks c)
     \<and> fmlookup (workAt c') \<subseteq>\<^sub>m fmlookup (workAt c)"

lemma core_fields:
  assumes "core c' = core c"
  shows "storage c' = storage c" "cacheCap c' = cacheCap c" "byHeight c' = byHeight c"
    "timestamps c' = timestamps c" "bestHash c' = bestHash c" "height c' = height c"
    "totalWork c' = totalWork c" "keyImages c' = keyImages c"
    "canonicalRingIndex c' = canonicalRingIndex c"
    "canonicalRingIndexDirty c' = canonicalRingIndexDirty c"
    "canonicalRingIndexTip c' = canonicalRingIndexTip c"
    "canonicalRingIndexReady c' = canonicalRingIndexReady c"
    "trustedCheckpoints c' = trustedCheckpoints c" "fastSyncUntilHeight c' = fastSyncUntilHeight c"
  using assms by (cases c; cases c'; simp add: core_def)+

lemma cache_sub_refl [simp]: "cache_sub c c"
  by (simp add: cache_sub_def)

lemma cache_sub_trans: "cache_sub c'' c' \<Longrightarrow> cache_sub c' c \<Longrightarrow> cache_sub c'' c"
  by (auto simp: cache_sub_def intro: map_le_trans)

lemma core_simps [simp]:
  "core (c\<lparr>blocks := x\<rparr>) = core c" "core (c\<lparr>workAt := y\<rparr>) = core c" "core (c\<lparr>cacheLRU := l\<rparr>) = core c"
  "core (c\<lparr>cacheIndex := i\<rparr>) = core c" "core (core c) = core c"
  by (simp_all add: core_def)

lemma core_touch [simp]: "core (cacheTouchLocked h c) = core c"
  by (simp add: cacheTouchLocked_def core_def)

lemma touch_maps [simp]:
  "blocks (cacheTouchLocked h c) = blocks c" "workAt (cacheTouchLocked h c) = workAt c"
  by (simp_all add: cacheTouchLocked_def)

lemma touch_sub [simp]: "cache_sub (cacheTouchLocked h c) c"
  by (simp add: cache_sub_def)

lemma touch_wf:
  assumes "cache_wf c"
  shows "cache_wf (cacheTouchLocked h c)"
    and "cache_wf (cacheTouchLocked h (c\<lparr>blocks := fmupd h b (blocks c)\<rparr>))"
    and "cache_wf (cacheTouchLocked h (c\<lparr>workAt := fmupd h w (workAt c)\<rparr>))"
  using assms by (auto simp: cache_wf_def cacheTouchLocked_def)

lemma core_forget [simp]: "core (cacheForgetLocked h c) = core c"
  by (simp add: cacheForgetLocked_def core_def Let_def)

lemma forget_maps [simp]:
  "blocks (cacheForgetLocked h c) = fmdrop h (blocks c)" "workAt (cacheForgetLocked h c) = fmdrop h (workAt c)"
  by (simp_all add: cacheForgetLocked_def Let_def)

lemma forget_sub: "cache_sub (cacheForgetLocked h c) c"
  by (auto simp: cache_sub_def map_le_def)

lemma forget_wf: "cache_wf c \<Longrightarrow> cache_wf (cacheForgetLocked h c)"
  by (auto simp: cache_wf_def cacheForgetLocked_def Let_def)

lemma rotate_wf: "cache_wf c \<Longrightarrow> cacheLRU c \<noteq> []
    \<Longrightarrow> cache_wf (c\<lparr>cacheLRU := last (cacheLRU c) # butlast (cacheLRU c)\<rparr>)"
  by (cases "cacheLRU c" rule: rev_cases) (auto simp: cache_wf_def)

section \<open>Eviction\<close>

lemma trim_loop_sub:
  "trim_loop fuel c = Some c' \<Longrightarrow> cache_wf c \<Longrightarrow> cache_wf c' \<and> cache_sub c' c"
proof (induction fuel c rule: trim_loop.induct)
  case (2 fuel c)
  show ?case
  proof (cases "\<not> cacheOver c \<or> cacheLRU c = []")
    case True
    then show ?thesis using 2 by simp
  next
    case False
    let ?h = "last (cacheLRU c)"
    have sub: "cache_sub (c\<lparr>cacheLRU := ?h # butlast (cacheLRU c)\<rparr>) c" by (simp add: cache_sub_def)
    show ?thesis
    proof (cases "cachePinnedLocked c ?h")
      case True
      then show ?thesis using 2 False rotate_wf [of c] cache_sub_trans [OF _ sub] by (auto simp: Let_def)
    next
      case unpinned: False
      then show ?thesis using 2 False forget_wf [of c] cache_sub_trans [OF _ forget_sub] by (auto simp: Let_def)
    qed
  qed
qed simp

lemma trim_sub: "cache_wf c \<Longrightarrow> cache_sub (cacheTrimLocked c) c"
  and trim_wf: "cache_wf c \<Longrightarrow> cache_wf (cacheTrimLocked c)"
  by (auto simp: cacheTrimLocked_def split: option.splits dest: trim_loop_sub)

text \<open>The pinned entries at the back of the list.\<close>

definition pinned_tail :: "'b chain \<Rightarrow> nat" where
  "pinned_tail c = length (takeWhile (cachePinnedLocked c) (rev (cacheLRU c)))"

definition pinned_set :: "'b chain \<Rightarrow> hash set" where
  "pinned_set c = {h \<in> set (cacheLRU c). cachePinnedLocked c h}"

lemma over_length:
  assumes "cache_wf c" shows "cacheOver c \<longleftrightarrow> cacheCap c < length (cacheLRU c)"
proof -
  have "fcard (cacheIndex c) = length (cacheLRU c)"
    using assms by (metis cache_wf_def distinct_card fcard.rep_eq)
  moreover have "fcard (fmdom (blocks c)) \<le> fcard (cacheIndex c)"
    using assms by (auto simp: cache_wf_def fcard.rep_eq intro: card_mono)
  ultimately show ?thesis by (auto simp: cacheOver_def)
qed

lemma takeWhile_append_stop: "\<exists>x \<in> set xs. \<not> P x \<Longrightarrow> takeWhile P (xs @ ys) = takeWhile P xs"
  by (induction xs) auto

lemma rotate_pinned: "cachePinnedLocked (c\<lparr>cacheLRU := l\<rparr>) = cachePinnedLocked c"
  by (auto simp: cachePinnedLocked_def fun_eq_iff split: option.splits)

lemma rotate_tail:
  assumes "cacheLRU c = xs @ [h]" "cachePinnedLocked c h" "\<exists>x \<in> set xs. \<not> cachePinnedLocked c x"
  shows "pinned_tail c = Suc (pinned_tail (c\<lparr>cacheLRU := h # xs\<rparr>))"
proof -
  have "takeWhile (cachePinnedLocked c) (rev xs @ [h]) = takeWhile (cachePinnedLocked c) (rev xs)"
    using assms(3) by (intro takeWhile_append_stop) simp
  then show ?thesis using assms(1,2) by (simp add: pinned_tail_def rotate_pinned)
qed

lemma forget_pinned:
  "h' \<noteq> h \<Longrightarrow> cachePinnedLocked (cacheForgetLocked h c) h' = cachePinnedLocked c h'"
  using core_fields [OF core_forget, of h c]
  by (auto simp: cachePinnedLocked_def split: option.splits)

lemma trim_loop_ends:
  assumes "cache_wf c" "card (pinned_set c) < cacheCap c" "length (cacheLRU c) \<le> M"
    and "(length (cacheLRU c) - 1) * Suc M + pinned_tail c < fuel"
  shows "\<exists>c'. trim_loop fuel c = Some c' \<and> \<not> cacheOver c'"
  using assms
proof (induction fuel arbitrary: c)
  case (Suc fuel)
  show ?case
  proof (cases "cacheOver c")
    case False
    then show ?thesis by simp
  next
    case True
    then have len: "cacheCap c < length (cacheLRU c)" using over_length Suc.prems(1) by blast
    obtain xs h where xs: "cacheLRU c = xs @ [h]" using len by (cases "cacheLRU c" rule: rev_cases) auto
    have dist: "distinct (xs @ [h])" using Suc.prems(1) xs by (simp add: cache_wf_def)
    have card: "card (set (cacheLRU c)) = length (cacheLRU c)"
      using Suc.prems(1) unfolding cache_wf_def by (blast intro: distinct_card)
    have unp: "\<exists>x \<in> set (cacheLRU c). \<not> cachePinnedLocked c x"
    proof (rule ccontr)
      assume "\<not> ?thesis"
      then have "pinned_set c = set (cacheLRU c)" by (auto simp: pinned_set_def)
      then show False using Suc.prems(2) len card by simp
    qed
    show ?thesis
    proof (cases "cachePinnedLocked c h")
      case pin: True
      let ?c = "c\<lparr>cacheLRU := h # xs\<rparr>"
      have "pinned_tail c = Suc (pinned_tail ?c)" using rotate_tail [OF xs pin] unp xs pin by auto
      moreover have "pinned_set ?c = pinned_set c" by (auto simp: pinned_set_def rotate_pinned xs)
      moreover have "cache_wf ?c" using rotate_wf [OF Suc.prems(1)] xs by simp
      ultimately show ?thesis using Suc.IH [of ?c] Suc.prems True xs pin by (simp add: Let_def)
    next
      case unpinned: False
      let ?c = "cacheForgetLocked h c"
      have hin: "h |\<in>| cacheIndex c" using Suc.prems(1) xs by (auto simp: cache_wf_def)
      have lru: "cacheLRU ?c = xs"
        using dist hin xs by (auto simp: cacheForgetLocked_def Let_def remove1_append)
      have "cachePinnedLocked ?c x = cachePinnedLocked c x" if "x \<in> set xs" for x
        using dist that by (intro forget_pinned) auto
      then have "pinned_set ?c = pinned_set c"
        using unpinned by (auto simp: pinned_set_def lru xs)
      moreover have "pinned_tail ?c \<le> length xs"
        unfolding pinned_tail_def lru by (metis length_rev length_takeWhile_le)
      moreover have "(length xs - 1) * Suc M + length xs < fuel"
        using Suc.prems(3,4) xs len Suc.prems(2) by (cases "length xs") auto
      ultimately have "\<exists>c'. trim_loop fuel ?c = Some c' \<and> \<not> cacheOver c'"
        using Suc.IH [of ?c] Suc.prems(1-3) xs lru forget_wf [OF Suc.prems(1)] core_fields(2) [OF core_forget, of h c]
        by auto
      then show ?thesis using True xs unpinned by (simp add: Let_def)
    qed
  qed
qed simp

lemma trim_bounded:
  assumes "cache_wf c" "card (pinned_set c) < cacheCap c"
  shows "\<not> cacheOver (cacheTrimLocked c)"
proof -
  have "pinned_tail c \<le> length (cacheLRU c)"
    unfolding pinned_tail_def by (metis length_rev length_takeWhile_le)
  then have "(length (cacheLRU c) - 1) * Suc (length (cacheLRU c)) + pinned_tail c < trim_fuel c"
    by (cases "length (cacheLRU c)") (auto simp: trim_fuel_def)
  then obtain c' where "trim_loop (trim_fuel c) c = Some c'" "\<not> cacheOver c'"
    using trim_loop_ends [OF assms order_refl] by blast
  then show ?thesis using assms(2) by (auto simp: cacheTrimLocked_def)
qed

text \<open>At most 101 entries are pinned: one per height of the protected window.\<close>

lemma pinned_bound:
  assumes "\<And>n h. byHeight c n = Some h \<Longrightarrow> n \<le> height c"
  shows "card (pinned_set c) \<le> 101"
proof -
  let ?H = "{n. byHeight c n \<noteq> None \<and> unat (height c) - 100 \<le> unat n}"
  have "pinned_set c \<subseteq> (\<lambda>n. the (byHeight c n)) ` ?H"
  proof
    fix h assume "h \<in> pinned_set c"
    then obtain b where b: "byHeight c (bheight b) = Some h"
      "height c \<le> 100 \<or> height c - 100 \<le> bheight b"
      by (auto simp: pinned_set_def cachePinnedLocked_def chainProtectedBack_def MaxReorgDepth_def
          LWMAWindow_def max_def split: option.splits)
    have "unat (height c) - 100 \<le> unat (bheight b)"
      using b(2) by (auto simp: word_le_nat_alt unat_sub_if_size split: if_splits)
    then show "h \<in> (\<lambda>n. the (byHeight c n)) ` ?H" using b(1) by force
  qed
  moreover have H: "unat ` ?H \<subseteq> {unat (height c) - 100..unat (height c)}"
    using assms by (auto simp: word_le_nat_alt)
  then have fin: "finite ?H" "card ?H \<le> 101"
  proof -
    have inj: "inj_on unat ?H" by (rule inj_onI) (simp add: word_unat_eq_iff)
    show "finite ?H" using H inj by (meson finite_atLeastAtMost finite_imageD finite_subset)
    have "card ?H = card (unat ` ?H)" using card_image [OF inj] by simp
    also have "\<dots> \<le> card {unat (height c) - 100..unat (height c)}" using H by (intro card_mono) auto
    finally show "card ?H \<le> 101" by simp
  qed
  ultimately show ?thesis using card_mono card_image_le by (meson finite_imageI le_trans)
qed

section \<open>The memory state represents the ledger\<close>

text \<open>The keys of the outputs of the main chain.\<close>

definition main_outputs :: "ledger \<Rightarrow> bytes set" where
  "main_outputs L = \<Union> {output_keys b |n h b. lheights L n = Some h \<and> lblocks L h = Some b}"

definition ring_ok :: "ledger \<Rightarrow> 'b chain \<Rightarrow> bool" where
  "ring_ok L c \<longleftrightarrow>
     (\<not> canonicalRingIndexDirty c \<and> canonicalRingIndexReady c
      \<and> (\<exists>n w. ltip L = Some (canonicalRingIndexTip c, n, w)) \<longrightarrow> canonicalRingIndex c = main_outputs L)"

text \<open>\<open>K\<close> are the blocks the caches may know: those of the ledger, plus a block that has been
  validated but not yet written.\<close>

definition mem_ok :: "'b bolt \<Rightarrow> ledger \<Rightarrow> (hash \<rightharpoonup> Block) \<Rightarrow> 'b chain \<Rightarrow> bool" where
  "mem_ok B L K c \<longleftrightarrow>
     stores B (storage c) L
   \<and> (bestHash c, height c, totalWork c) = (case ltip L of None \<Rightarrow> (replicate 32 0, 0, 0) | Some t \<Rightarrow> t)
   \<and> fmlookup (blocks c) \<subseteq>\<^sub>m K
   \<and> (\<forall>h w. fmlookup (workAt c) h = Some w \<longrightarrow> (\<exists>bs. branch K h bs \<and> unat w = work_of bs))
   \<and> byHeight c \<subseteq>\<^sub>m lheights L
   \<and> dom (keyImages c) \<subseteq> dom (limages L)
   \<and> ring_ok L c \<and> cache_wf c \<and> 164 \<le> cacheCap c"

lemma map_leD: "m \<subseteq>\<^sub>m m' \<Longrightarrow> m x = Some y \<Longrightarrow> m' x = Some y"
  by (metis domI map_le_def)

lemma mem_ok_sub:
  assumes "mem_ok B L K c" "cache_sub c' c" "cache_wf c'"
  shows "mem_ok B L K c'"
proof -
  have f: "core c' = core c" and b: "fmlookup (blocks c') \<subseteq>\<^sub>m fmlookup (blocks c)"
    and w: "\<And>h w. fmlookup (workAt c') h = Some w \<Longrightarrow> fmlookup (workAt c) h = Some w"
    using assms(2) by (auto simp: cache_sub_def dest: map_leD)
  show ?thesis
    using assms(1,3) map_le_trans [OF b] w unfolding mem_ok_def ring_ok_def core_fields [OF f] by blast
qed

lemma mem_ok_heights:
  assumes "ledger_ok C L" "mem_ok B L K c" "byHeight c n = Some h"
  shows "n \<le> height c"
proof -
  have n: "lheights L n = Some h" using assms(2,3) by (auto simp: mem_ok_def map_le_def dom_def)
  show ?thesis
  proof (cases "ltip L")
    case None
    then show ?thesis using assms(1) n by (simp add: ledger_ok_def)
  next
    case (Some t)
    obtain tip m w where t: "ltip L = Some (tip, m, w)" using Some by (cases t) auto
    then obtain bs where "main_is C L bs" "length bs = Suc (unat m)"
      using ledger_okE [OF assms(1) t] by metis
    then have "unat n \<le> unat m" using n by (auto simp: main_is_def split: if_splits)
    then show ?thesis using assms(2) t by (auto simp: mem_ok_def word_le_nat_alt)
  qed
qed

lemma trim_small:
  assumes "ledger_ok C L" "mem_ok B L K c"
  shows "\<not> cacheOver (cacheTrimLocked c)"
proof -
  have "card (pinned_set c) \<le> 101" using pinned_bound mem_ok_heights [OF assms] by blast
  then show ?thesis using assms(2) by (intro trim_bounded) (auto simp: mem_ok_def)
qed

lemma touch_small:
  assumes "cache_wf c" "\<not> cacheOver c" "fmlookup (blocks c) h \<noteq> None"
  shows "\<not> cacheOver (cacheTouchLocked h c)"
proof -
  have "h |\<in>| fmdom (blocks c)" using assms(3) by (meson fmdom_notD)
  then have "h |\<in>| cacheIndex c" using assms(1) by (auto simp: cache_wf_def)
  then show ?thesis using assms(2) by (simp add: cacheTouchLocked_def cacheOver_def)
qed

lemma mem_ok_insert:
  assumes "mem_ok B L K c" "K h = Some b"
  shows "mem_ok B L K (cacheTouchLocked h (c\<lparr>blocks := fmupd h b (blocks c)\<rparr>))"
proof -
  let ?c = "cacheTouchLocked h (c\<lparr>blocks := fmupd h b (blocks c)\<rparr>)"
  have f: "core ?c = core c" by simp
  have "fmlookup (blocks ?c) \<subseteq>\<^sub>m K"
    using assms by (auto simp: mem_ok_def map_le_def dom_def)
  moreover have "workAt ?c = workAt c" by simp
  moreover have "cache_wf ?c" using assms(1) by (intro touch_wf(2)) (simp add: mem_ok_def)
  ultimately show ?thesis
    using assms(1) unfolding mem_ok_def ring_ok_def core_fields [OF f] by metis
qed

text \<open>A lookup by hash.\<close>

lemma getBlock_ok:
  assumes "ledger_ok C L" "mem_ok B L K c" "lblocks L \<subseteq>\<^sub>m K"
    and "getBlockByHashLocked B c h = (r, c')"
  shows "mem_ok B L K c'" "core c' = core c"
    "\<And>b. r = Some b \<Longrightarrow> K h = Some b" "\<And>b. lblocks L h = Some b \<Longrightarrow> r = Some b"
    "\<not> cacheOver c \<Longrightarrow> \<not> cacheOver c'"
proof -
  have st: "stores B (storage c) L" and wf: "cache_wf c" using assms(2) by (auto simp: mem_ok_def)
  have "mem_ok B L K c' \<and> core c' = core c \<and> (\<forall>b. r = Some b \<longrightarrow> K h = Some b)
      \<and> (\<forall>b. lblocks L h = Some b \<longrightarrow> r = Some b) \<and> (\<not> cacheOver c \<longrightarrow> \<not> cacheOver c')"
  proof (cases "fmlookup (blocks c) h")
    case (Some b)
    then have c': "r = Some b" "c' = cacheTouchLocked h c"
      using assms(4) by (auto simp: getBlockByHashLocked_def)
    have "K h = Some b" using assms(2) Some by (auto simp: mem_ok_def map_le_def dom_def)
    moreover have "b' = b" if "lblocks L h = Some b'" for b'
      using assms(3) that \<open>K h = Some b\<close> by (force simp: map_le_def)
    ultimately show ?thesis
      using c' mem_ok_sub [OF assms(2) touch_sub touch_wf(1) [OF wf]] touch_small [OF wf] Some by auto
  next
    case None
    show ?thesis
    proof (cases "lblocks L h")
      case none: None
      then show ?thesis using assms(2,4) None by (simp add: getBlockByHashLocked_def stores_reads [OF st])
    next
      case (Some b)
      let ?c = "cacheTouchLocked h (c\<lparr>blocks := fmupd h b (blocks c)\<rparr>)"
      have K: "K h = Some b" using assms(3) Some by (force simp: map_le_def)
      have ok: "mem_ok B L K ?c" using mem_ok_insert [OF assms(2) K] .
      have c': "r = Some b" "c' = cacheTrimLocked ?c"
        using assms(4) None Some by (auto simp: getBlockByHashLocked_def stores_reads [OF st])
      have wf': "cache_wf ?c" using ok by (simp add: mem_ok_def)
      have "core (cacheTrimLocked ?c) = core c" using trim_sub [OF wf'] by (simp add: cache_sub_def)
      then show ?thesis
        using c' K Some mem_ok_sub [OF ok trim_sub [OF wf'] trim_wf [OF wf']] trim_small [OF assms(1) ok]
        by auto
    qed
  qed
  then show "mem_ok B L K c'" "core c' = core c"
    "\<And>b. r = Some b \<Longrightarrow> K h = Some b" "\<And>b. lblocks L h = Some b \<Longrightarrow> r = Some b"
    "\<not> cacheOver c \<Longrightarrow> \<not> cacheOver c'" by auto
qed

section \<open>The ring index\<close>

lemma index_loop_ok:
  assumes "ledger_ok C L"
    and "\<And>n. n \<in> set ns \<Longrightarrow> \<exists>h b. lheights L n = Some h \<and> lblocks L h = Some b"
    and "mem_ok B L (lblocks L) c" "\<not> cacheOver c"
  shows "\<exists>c'. index_loop B ns idx c
      = (Some (idx \<union> \<Union> {output_keys b |n h b. n \<in> set ns \<and> lheights L n = Some h \<and> lblocks L h = Some b}), c')
    \<and> mem_ok B L (lblocks L) c' \<and> core c' = core c \<and> \<not> cacheOver c'"
  using assms(2-4)
proof (induction ns arbitrary: idx c)
  case Nil
  then show ?case by simp
next
  case (Cons n ns)
  obtain h b where hb: "lheights L n = Some h" "lblocks L h = Some b" using Cons.prems(1) [of n] by auto
  have st: "stores B (storage c) L" using Cons.prems(2) by (simp add: mem_ok_def)
  obtain r c1 where g: "getBlockByHashLocked B c h = (r, c1)" by fastforce
  note ok = getBlock_ok [OF assms(1) Cons.prems(2) map_le_refl g]
  have r: "r = Some b" using ok(4) hb(2) by blast
  obtain c' where "index_loop B ns (idx \<union> output_keys b) c1
      = (Some (idx \<union> output_keys b \<union> \<Union> {output_keys b |n h b. n \<in> set ns \<and> lheights L n = Some h \<and> lblocks L h = Some b}), c')"
    "mem_ok B L (lblocks L) c'" "core c' = core c1" "\<not> cacheOver c'"
    using Cons.IH [of c1 "idx \<union> output_keys b"] Cons.prems(1,3) ok(1,5) by auto
  moreover have "idx \<union> output_keys b \<union> \<Union> {output_keys b |n h b. n \<in> set ns \<and> lheights L n = Some h \<and> lblocks L h = Some b}
      = idx \<union> \<Union> {output_keys b |m h b. m \<in> set (n # ns) \<and> lheights L m = Some h \<and> lblocks L h = Some b}"
    using hb by auto
  ultimately show ?case using g r hb(1) ok(2) by (simp add: stores_reads [OF st])
qed

lemma heights_upto_set: "set (heights_upto 0 n) = {m. m \<le> n}"
proof -
  have "m \<in> word_of_nat ` {0..<Suc (unat n)}" if "m \<le> n" for m
    using that by (intro image_eqI [of _ _ "unat m"]) (auto simp: word_le_nat_alt)
  moreover have "word_of_nat k \<le> n" if "k \<le> unat n" for k
    using that unat_bound [of n] by (simp add: word_le_nat_alt unat_of_nat)
  moreover have "set (heights_upto 0 n) = word_of_nat ` {0..<Suc (unat n)}"
    by (simp only: heights_upto_def set_map set_upt unat_0)
  ultimately show ?thesis by (auto simp del: atLeastLessThan_iff simp: less_Suc_eq_le image_iff)
    (meson atLeastLessThan_iff less_Suc_eq_le)+
qed

definition canon_member :: "ledger \<Rightarrow> hash \<Rightarrow> hash \<Rightarrow> bool" where
  "canon_member L pubKey commitment \<longleftrightarrow> canonicalRingIndexKey pubKey commitment \<in> main_outputs L"

text \<open>The main chain is stored completely.\<close>

lemma main_stored:
  assumes "ledger_ok C L" "ltip L = Some (tip, n, w)"
  shows "m \<le> n \<longleftrightarrow> (\<exists>h b. lheights L m = Some h \<and> lblocks L h = Some b)"
proof -
  obtain bs where bs: "branch (lblocks L) tip bs" "main_is C L bs" "length bs = Suc (unat n)"
    "block_tree C (lblocks L)"
    using ledger_okE [OF assms] by metis
  have "lblocks L (Hash C (rev bs ! unat m)) = Some (rev bs ! unat m)" if "unat m < length bs"
    using branch_filed [OF bs(4,1)] that by (simp add: rev_nth)
  then show ?thesis using bs(2,3) by (auto simp: main_is_def word_le_nat_alt less_Suc_eq_le split: if_splits)
qed

lemma mem_ok_ring_update:
  "mem_ok B L K c \<Longrightarrow> ltip L = None \<or> I = main_outputs L \<Longrightarrow>
   mem_ok B L K (c\<lparr>canonicalRingIndex := I, canonicalRingIndexTip := t, canonicalRingIndexReady := r,
     canonicalRingIndexDirty := d\<rparr>)"
  by (simp add: mem_ok_def ring_ok_def cache_wf_def) (elim disjE; simp)

lemma ensure_ok:
  assumes "ledger_ok C L" "mem_ok B L (lblocks L) c" "\<not> cacheOver c"
    and "ensureCanonicalRingIndexLocked B c = (r, c')"
  shows "r \<and> canonicalRingIndex c' = main_outputs L \<and> mem_ok B L (lblocks L) c' \<and> \<not> cacheOver c'"
proof -
  have st: "stores B (storage c) L" using assms(2) by (simp add: mem_ok_def)
  show ?thesis
  proof (cases "ltip L")
    case None
    then have "main_outputs L = {}" using assms(1) by (simp add: ledger_ok_def main_outputs_def)
    then show ?thesis using assms None mem_ok_ring_update [OF assms(2)]
      by (auto simp: ensureCanonicalRingIndexLocked_def stores_tip [OF st] cacheOver_def)
  next
    case (Some t)
    obtain tip n w where t: "ltip L = Some (tip, n, w)" using Some by (cases t) auto
    show ?thesis
    proof (cases "\<not> canonicalRingIndexDirty c \<and> canonicalRingIndexReady c \<and> canonicalRingIndexTip c = tip")
      case True
      then have "canonicalRingIndex c = main_outputs L"
        using assms(2) t by (auto simp: mem_ok_def ring_ok_def)
      then show ?thesis using True assms t
        by (auto simp: ensureCanonicalRingIndexLocked_def stores_tip [OF st])
    next
      case False
      have "\<exists>h b. lheights L m = Some h \<and> lblocks L h = Some b" if "m \<in> set (heights_upto 0 n)" for m
        using main_stored [OF assms(1) t] that by (simp add: heights_upto_set)
      note loop = index_loop_ok [OF assms(1) this assms(2,3), of "heights_upto 0 n" "{}"]
      have "(m \<in> set (heights_upto 0 n) \<and> lheights L m = Some h \<and> lblocks L h = Some b)
          = (lheights L m = Some h \<and> lblocks L h = Some b)" for m h b
        using main_stored [OF assms(1) t, of m] by (auto simp: heights_upto_set)
      then obtain c1 where i: "index_loop B (heights_upto 0 n) {} c = (Some (main_outputs L), c1)"
        and c1: "mem_ok B L (lblocks L) c1" "\<not> cacheOver c1"
        using loop unfolding main_outputs_def by auto
      have "c' = c1\<lparr>canonicalRingIndex := main_outputs L, canonicalRingIndexTip := tip,
          canonicalRingIndexReady := True, canonicalRingIndexDirty := False\<rparr>" "r"
        using assms(4) False t i by (auto simp: ensureCanonicalRingIndexLocked_def stores_tip [OF st])
      then show ?thesis using c1 mem_ok_ring_update [OF c1(1)] by (simp add: cacheOver_def)
    qed
  qed
qed

section \<open>The chain as a view\<close>

definition view_inv :: "crypto \<Rightarrow> 'b bolt \<Rightarrow> ledger \<Rightarrow> 'b chain \<Rightarrow> bool" where
  "view_inv C B L c \<longleftrightarrow> bolt_ok B \<and> ledger_ok C L \<and> mem_ok B L (lblocks L) c \<and> \<not> cacheOver c"

interpretation view: chain_view "getBlockByHashLocked B" "lblocks L" "view_inv C B L"
  "isCanonicalRingMemberLocked B" "canon_member L" for C B L
proof unfold_locales
  fix s h b
  assume s: "view_inv C B L s"
  obtain r s' where g: "getBlockByHashLocked B s h = (r, s')" by fastforce
  note ok = getBlock_ok [of C L B "lblocks L" s h r s']
  show "lblocks L h = Some b" if "fst (getBlockByHashLocked B s h) = Some b"
    using ok(3) s g that by (auto simp: view_inv_def)
  show "view_inv C B L (snd (getBlockByHashLocked B s h))"
    using ok(1,5) s g by (auto simp: view_inv_def)
  show "fst (getBlockByHashLocked B s h) = Some b" if "lblocks L h = Some b"
    using ok(4) s g that by (auto simp: view_inv_def)
next
  fix s m cm
  assume s: "view_inv C B L s"
  obtain r s' where e: "ensureCanonicalRingIndexLocked B s = (r, s')" by fastforce
  note ok = ensure_ok [OF _ _ _ e, of C L]
  show "fst (isCanonicalRingMemberLocked B s m cm) = canon_member L m cm"
    using ok s by (auto simp: isCanonicalRingMemberLocked_def e view_inv_def canon_member_def split: bool.split)
  show "view_inv C B L (snd (isCanonicalRingMemberLocked B s m cm))"
    using ok s by (auto simp: isCanonicalRingMemberLocked_def e view_inv_def split: bool.split)
qed

end
