(* ===== verification/ChainWork.thy ===== *)
theory ChainWork
  imports ChainCache
begin

text \<open>
  Block processing keeps the chain consistent.  The invariant is \<open>view_inv\<close>: the store represents a
  consistent ledger and the memory state agrees with it.  Every outcome of \<open>ProcessBlock\<close> is
  analysed: rejected blocks change nothing, side blocks join the block tree, and a heavier branch
  becomes the main chain.
\<close>

section \<open>Cumulative work\<close>

lemma addCumulativeWork_Inr:
  "addCumulativeWork p d = Inr w \<longleftrightarrow> unat p + unat d < 2 ^ 64 \<and> w = p + d"
proof -
  have "unat (- 1 - p) = unat (- 1 :: u64) - unat p" by (rule unat_sub) simp
  moreover have "unat (- 1 :: u64) = 2 ^ 64 - 1"
    by (simp add: unsigned_minus_1_eq_mask mask_eq_exp_minus_1)
  ultimately have "unat (- 1 - p) = 2 ^ 64 - 1 - unat p" by (simp only:)
  then have "- 1 - p < d \<longleftrightarrow> \<not> (unat p + unat d < 2 ^ 64)"
    using unat_bound [of p] by (auto simp: word_less_nat_alt)
  then show ?thesis by (auto simp: addCumulativeWork_def)
qed

lemma addCumulativeWork_value: "addCumulativeWork p d = Inr w \<Longrightarrow> unat w = unat p + unat d"
  by (simp add: addCumulativeWork_Inr unat_add_no_wrap)

lemma mem_ok_work_insert:
  assumes "mem_ok B L K c" "branch K h bs" "unat w = work_of bs"
  shows "mem_ok B L K (cacheTouchLocked h (c\<lparr>workAt := fmupd h w (workAt c)\<rparr>))"
proof -
  let ?c = "cacheTouchLocked h (c\<lparr>workAt := fmupd h w (workAt c)\<rparr>)"
  have f: "core ?c = core c" by simp
  have "\<forall>h' w'. fmlookup (workAt ?c) h' = Some w' \<longrightarrow> (\<exists>bs. branch K h' bs \<and> unat w' = work_of bs)"
    using assms by (auto simp: mem_ok_def)
  moreover have "blocks ?c = blocks c" by simp
  moreover have "cache_wf ?c" using assms(1) by (intro touch_wf(3)) (simp add: mem_ok_def)
  ultimately show ?thesis
    using assms(1) unfolding mem_ok_def ring_ok_def core_fields [OF f] by metis
qed

lemma mem_ok_trim:
  assumes "ledger_ok C L" "mem_ok B L K c"
  shows "mem_ok B L K (cacheTrimLocked c)" "core (cacheTrimLocked c) = core c" "\<not> cacheOver (cacheTrimLocked c)"
proof -
  have wf: "cache_wf c" using assms(2) by (simp add: mem_ok_def)
  show "mem_ok B L K (cacheTrimLocked c)" using mem_ok_sub [OF assms(2) trim_sub [OF wf] trim_wf [OF wf]] .
  show "core (cacheTrimLocked c) = core c" using trim_sub [OF wf] by (simp add: cache_sub_def)
  show "\<not> cacheOver (cacheTrimLocked c)" using trim_small [OF assms] .
qed

text \<open>The recursion returns the work of the branch and never diverges on stored blocks.\<close>

lemma work_loop_ok:
  assumes "ledger_ok C L" "tree_ok C K" "lblocks L \<subseteq>\<^sub>m K"
    and "mem_ok B L K c" "work_loop B fuel h c = (r, c')"
  shows "mem_ok B L K c' \<and> core c' = core c \<and> (\<not> cacheOver c \<longrightarrow> \<not> cacheOver c')
    \<and> (\<forall>w. r = Inr w \<longrightarrow> (\<exists>bs. branch K h bs \<and> unat w = work_of bs))
    \<and> (\<forall>b. lblocks L h = Some b \<longrightarrow> unat (bheight b) < fuel \<longrightarrow> (\<exists>w. r = Inr w))"
  using assms(4,5)
proof (induction fuel arbitrary: h c r c')
  case (Suc fuel)
  show ?case
  proof (cases "fmlookup (workAt c) h")
    case (Some w)
    then show ?thesis using Suc.prems by (auto simp: mem_ok_def)
  next
    case None
    obtain g c1 where g: "getBlockByHashLocked B c h = (g, c1)" by fastforce
    note ok = getBlock_ok [OF assms(1) Suc.prems(1) assms(3) g]
    show ?thesis
    proof (cases g)
      case none: None
      then show ?thesis using Suc.prems None g ok by auto
    next
      case some: (Some b)
      have K: "K h = Some b" using ok(3) some by blast
      have tree: "block_tree C K" using assms(2) by (simp add: tree_ok_def)
      obtain bs where bs: "branch K h bs" "work_of bs < 2 ^ 64"
        using tree_branch [OF tree K] assms(2) by (auto simp: tree_ok_def branch_ok_def)
      obtain pr c2 where p: "(if 0 < bheight b then work_loop B fuel (bprev b) c1 else (Inr 0, c1)) = (pr, c2)"
        by fastforce
      have c2: "mem_ok B L K c2" "core c2 = core c" "\<not> cacheOver c \<longrightarrow> \<not> cacheOver c2"
        using p ok Suc.IH [OF ok(1), of "bprev b" pr c2] by (auto split: if_splits)
      have pw: "work_of bs = unat (bdiff b) + unat w" if prw: "pr = Inr w" for w
      proof (cases "bheight b = 0")
        case True
        then show ?thesis using prw p K bs(1) by (auto elim: branch_cases)
      next
        case False
        then obtain ps where "branch K (bprev b) ps" "unat w = work_of ps"
          using prw p Suc.IH [OF ok(1), of "bprev b" pr c2] by (auto simp: word_neq_0_conv split: if_splits)
        moreover have "bs = b # ps" using branch_unique [OF bs(1) branch.child [of K h b, OF K False]] calculation by blast
        ultimately show ?thesis by simp
      qed
      have live: "\<exists>w. pr = Inr w" if lb: "lblocks L h = Some b'" "unat (bheight b') < Suc fuel" for b'
      proof (cases "bheight b = 0")
        case True
        then show ?thesis using p by auto
      next
        case False
        have "b' = b" using ok(4) [OF lb(1)] some by simp
        have "block_tree C (lblocks L)" using assms(1) by (simp add: ledger_ok_def tree_ok_def)
        then obtain q where "lblocks L (bprev b) = Some q" "unat (bheight b) = Suc (unat (bheight q))"
          using tree_parent [of C "lblocks L" h b] lb(1) False \<open>b' = b\<close> by metis
        then show ?thesis
          using p False Suc.IH [OF ok(1), of "bprev b" pr c2] lb(2) \<open>b' = b\<close>
          by (auto simp: word_neq_0_conv split: if_splits)
      qed
      show ?thesis
      proof (cases pr)
        case (Inl e)
        then show ?thesis using Suc.prems None g some p c2 live by auto
      next
        case (Inr pwk)
        then have "addCumulativeWork pwk (bdiff b) = Inr (pwk + bdiff b)"
          using pw [OF Inr] bs(2) by (simp add: addCumulativeWork_Inr)
        moreover from this have w: "unat (pwk + bdiff b) = work_of bs"
          using pw [OF Inr] addCumulativeWork_value by fastforce
        ultimately have r: "r = Inr (pwk + bdiff b)"
          "c' = cacheTrimLocked (cacheTouchLocked h (c2\<lparr>workAt := fmupd h (pwk + bdiff b) (workAt c2)\<rparr>))"
          using Suc.prems None g some p Inr by auto
        have m: "mem_ok B L K (cacheTouchLocked h (c2\<lparr>workAt := fmupd h (pwk + bdiff b) (workAt c2)\<rparr>))"
          using mem_ok_work_insert [OF c2(1) bs(1) w] .
        show ?thesis using r mem_ok_trim [OF assms(1) m] c2 bs(1) w by auto
      qed
    qed
  qed
qed auto

lemma peek_height_stored:
  assumes "mem_ok B L K c" "lblocks L \<subseteq>\<^sub>m K" "lblocks L h = Some b"
  shows "peek_height B c h = unat (bheight b)"
proof -
  have "stores B (storage c) L" using assms(1) by (simp add: mem_ok_def)
  moreover have "b' = b" if "fmlookup (blocks c) h = Some b'" for b'
    using that assms map_leD by (metis mem_ok_def option.inject)
  ultimately show ?thesis
    using assms(3) by (auto simp: peek_height_def stores_reads split: option.splits)
qed

lemma cumulativeWork_ok:
  assumes "ledger_ok C L" "tree_ok C K" "lblocks L \<subseteq>\<^sub>m K"
    and "mem_ok B L K c" "cumulativeWorkAtLocked B h c = (r, c')"
  shows "mem_ok B L K c'" "core c' = core c" "\<not> cacheOver c \<Longrightarrow> \<not> cacheOver c'"
    "\<And>w. r = Inr w \<Longrightarrow> \<exists>bs. branch K h bs \<and> unat w = work_of bs"
    "\<And>b. lblocks L h = Some b \<Longrightarrow> \<exists>w. r = Inr w"
  using work_loop_ok [OF assms(1-4) assms(5) [unfolded cumulativeWorkAtLocked_def]]
    peek_height_stored [OF assms(4,3)] by auto

section \<open>Spent key images of a branch\<close>

lemma main_branch_images:
  assumes "ledger_ok C L" "lheights L m = Some h"
  shows "\<exists>bs. branch (lblocks L) h bs \<and> set (images_of bs) \<subseteq> dom (limages L)"
proof (cases "ltip L")
  case None
  then show ?thesis using assms by (simp add: ledger_ok_def)
next
  case (Some t)
  obtain tip n w where t: "ltip L = Some (tip, n, w)" using Some by (cases t) auto
  then obtain bs where bs: "branch (lblocks L) tip bs" "main_is C L bs" "block_tree C (lblocks L)"
    using ledger_okE [OF assms(1) t] by metis
  have m: "unat m < length bs" "h = Hash C (rev bs ! unat m)"
    using assms(2) bs(2) by (auto simp: main_is_def split: if_splits)
  define i where "i = length bs - Suc (unat m)"
  have i: "i < length bs" "h = Hash C (bs ! i)" using m by (auto simp: i_def rev_nth)
  have "images_of bs = images_of (take i bs) @ images_of (drop i bs)"
    by (metis append_take_drop_id images_of_simps(3))
  then have "set (images_of (drop i bs)) \<subseteq> dom (limages L)" using bs(2) by (auto simp: main_is_def)
  then show ?thesis using branch_drop [OF bs(3,1) i(1)] i(2) by blast
qed

lemma branch_walk_ok:
  assumes "ledger_ok C L" "mem_ok B L (lblocks L) c" "branch_walk B fuel h acc c = (r, c')"
  shows "mem_ok B L (lblocks L) c' \<and> core c' = core c \<and> (\<not> cacheOver c \<longrightarrow> \<not> cacheOver c')
    \<and> (\<forall>S. r = Inr S \<longrightarrow> acc \<subseteq> S \<and> (\<exists>bs. branch (lblocks L) h bs
         \<and> set (images_of bs) \<subseteq> S \<union> dom (limages L) \<and> S \<subseteq> acc \<union> set (images_of bs)))
    \<and> (\<forall>b. lblocks L h = Some b \<longrightarrow> unat (bheight b) < fuel \<longrightarrow> (\<exists>S. r = Inr S))
    \<and> (lblocks L h = None \<longrightarrow> fuel \<noteq> 0 \<longrightarrow> r = Inl (Invalid OrphanBlock))"
  using assms(2,3)
proof (induction fuel arbitrary: h acc c r c')
  case (Suc fuel)
  obtain g c1 where g: "getBlockByHashLocked B c h = (g, c1)" by fastforce
  note ok = getBlock_ok [OF assms(1) Suc.prems(1) map_le_refl g]
  show ?case
  proof (cases g)
    case None
    then have "lblocks L h = None" using ok(4) by (metis option.distinct(1) option.exhaust)
    moreover have "r = Inl (Invalid OrphanBlock)" "c' = c1" using Suc.prems(2) g None by auto
    ultimately show ?thesis using ok(1,2,5) by simp
  next
    case (Some b)
    have K: "lblocks L h = Some b" using ok(3) Some by blast
    have tree: "block_tree C (lblocks L)" using assms(1) by (simp add: ledger_ok_def tree_ok_def)
    show ?thesis
    proof (cases "byHeight c1 (bheight b) = Some h")
      case True
      then have "lheights L (bheight b) = Some h" using ok(1) map_leD unfolding mem_ok_def by metis
      then obtain bs where "branch (lblocks L) h bs" "set (images_of bs) \<subseteq> dom (limages L)"
        using main_branch_images [OF assms(1)] by metis
      moreover have "r = Inr acc" "c' = c1" using Suc.prems(2) g Some True by auto
      ultimately show ?thesis using ok(1,2,5) K by auto
    next
      case False
      let ?acc = "acc \<union> set (spent_images (Transactions b))"
      have im: "set (spent_images (Transactions b)) = set (block_images b)"
        by (simp add: spent_images_block block_images_def)
      show ?thesis
      proof (cases "bheight b = 0")
        case True
        then have "r = Inr ?acc" "c' = c1" using Suc.prems(2) g Some False by auto
        moreover have "branch (lblocks L) h [b]" using branch.root [of "lblocks L" h b, OF K True] .
        ultimately show ?thesis using ok(1,2,5) K im by (auto intro!: exI [of _ "[b]"])
      next
        case pos: False
        obtain p where p: "lblocks L (bprev b) = Some p" "unat (bheight b) = Suc (unat (bheight p))"
          using tree_parent [OF tree K pos] by metis
        have w: "branch_walk B fuel (bprev b) ?acc c1 = (r, c')"
          using Suc.prems(2) g Some False pos by (simp add: Let_def)
        note ih = Suc.IH [OF ok(1) w]
        have "acc \<subseteq> S \<and> (\<exists>bs. branch (lblocks L) h bs \<and> set (images_of bs) \<subseteq> S \<union> dom (limages L)
            \<and> S \<subseteq> acc \<union> set (images_of bs))" if rS: "r = Inr S" for S
        proof -
          obtain bs where bs: "?acc \<subseteq> S" "branch (lblocks L) (bprev b) bs"
            "set (images_of bs) \<subseteq> S \<union> dom (limages L)" "S \<subseteq> ?acc \<union> set (images_of bs)"
            using ih rS by metis
          have "branch (lblocks L) h (b # bs)" using branch.child [of "lblocks L" h b, OF K pos bs(2)] .
          then show ?thesis using bs im by (intro conjI exI [of _ "b # bs"]) auto
        qed
        moreover have "\<exists>S. r = Inr S" if "unat (bheight b) < Suc fuel" using ih p that by auto
        ultimately show ?thesis using ih ok(2,5) K by simp
      qed
    qed
  qed
qed auto

end
