(* ===== verification/ChainVerdict.thy ===== *)
theory ChainVerdict
  imports ChainWork
begin

text \<open>
  The verdict of \<open>validateBlockForProcessLocked\<close> in terms of the ledger alone: caches, the ring
  index and the order of earlier lookups play no part, and the branch-aware double-spend check
  refuses exactly the key images of the parent's branch and of the main chain.
\<close>

section \<open>The specification\<close>

text \<open>Key images that count as spent for a child of the block \<open>h\<close>.\<close>

definition spent_on :: "ledger \<Rightarrow> hash \<Rightarrow> hash set" where
  "spent_on L h = dom (limages L) \<union> \<Union> {set (images_of bs) |bs. branch (lblocks L) h bs}"

definition ledger_tip :: "ledger \<Rightarrow> hash \<times> u64 \<times> u64" where
  "ledger_tip L = (case ltip L of None \<Rightarrow> (replicate 32 0, 0, 0) | Some t \<Rightarrow> t)"

text \<open>What the checkpoint settings \<open>cps\<close> and \<open>until\<close> add when the tip has height \<open>n\<close>.\<close>

definition pinned_ok :: "crypto \<Rightarrow> (u64 \<rightharpoonup> hash) option \<Rightarrow> u64 \<Rightarrow> u64 \<Rightarrow> Block \<Rightarrow> bool" where
  "pinned_ok C cps until n block \<longleftrightarrow>
     (\<forall>m want. cps = Some m \<and> n < until \<and> bheight block \<le> until \<and> m (bheight block) = Some want
        \<longrightarrow> Hash C block = want)"

definition fast_sync :: "(u64 \<rightharpoonup> hash) option \<Rightarrow> u64 \<Rightarrow> ledger \<Rightarrow> Block \<Rightarrow> bool" where
  "fast_sync cps until L block \<longleftrightarrow>
     (case ledger_tip L of (tip, n, _) \<Rightarrow>
        bprev block = tip \<and> cps \<noteq> None \<and> n < until \<and> 0 < bheight block \<and> bheight block \<le> until)"

definition process_valid :: "crypto \<Rightarrow> net_params \<Rightarrow> (nat \<Rightarrow> i64) \<Rightarrow> (u64 \<rightharpoonup> hash) option \<Rightarrow> u64 \<Rightarrow> ledger
    \<Rightarrow> Block \<Rightarrow> bool" where
  "process_valid C P now cps until L block \<longleftrightarrow>
     (case ledger_tip L of (tip, n, _) \<Rightarrow>
        pinned_ok C cps until n block
        \<and> block_valid C P now tip n (lblocks L)
            (\<lambda>k. k \<in> (if bheight block = 0 then dom (limages L) else spent_on L (bprev block)))
            (canon_member L) (fast_sync cps until L block) block)"

section \<open>The spent check\<close>

lemma isKeyImageSpent_exact:
  assumes "mem_ok B L K c"
  shows "isKeyImageSpentLocked B c k \<longleftrightarrow> k \<in> dom (limages L)"
proof -
  have "stores B (storage c) L" "dom (keyImages c) \<subseteq> dom (limages L)" using assms by (auto simp: mem_ok_def)
  then show ?thesis by (auto simp: isKeyImageSpentLocked_def stores_reads)
qed

lemma spent_on_branch: "branch (lblocks L) h bs \<Longrightarrow> spent_on L h = dom (limages L) \<union> set (images_of bs)"
  unfolding spent_on_def using branch_unique by blast

lemma branchAware_exact:
  assumes "view_inv C B L c" "branchAwareSpentCheckerLocked B h c = (r, c')"
  shows "view_inv C B L c' \<and> core c' = core c
    \<and> (case lblocks L h of None \<Rightarrow> r = Inl (Invalid OrphanBlock)
       | Some _ \<Rightarrow> r = Inr (\<lambda>k. k \<in> spent_on L h))"
proof -
  have inv: "bolt_ok B" "ledger_ok C L" "mem_ok B L (lblocks L) c" "\<not> cacheOver c"
    using assms(1) by (auto simp: view_inv_def)
  obtain w c1 where w: "branch_walk B (Suc (peek_height B c h)) h {} c = (w, c1)" by fastforce
  note ok = branch_walk_ok [OF inv(2,3) w]
  have m1: "mem_ok B L (lblocks L) c1" "core c1 = core c" "\<not> cacheOver c1" using ok inv(4) by auto
  then have v: "view_inv C B L c1" using inv by (simp add: view_inv_def)
  show ?thesis
  proof (cases "lblocks L h")
    case None
    then have "w = Inl (Invalid OrphanBlock)" using ok by simp
    then show ?thesis using assms(2) w None v m1 by (simp add: branchAwareSpentCheckerLocked_def)
  next
    case (Some b)
    have "peek_height B c h = unat (bheight b)" using peek_height_stored [OF inv(3) map_le_refl Some] .
    then obtain S where S: "w = Inr S" using ok Some by auto
    then obtain bs where bs: "branch (lblocks L) h bs" "set (images_of bs) \<subseteq> S \<union> dom (limages L)"
      "S \<subseteq> {} \<union> set (images_of bs)"
      using ok by metis
    have "(k \<in> S \<or> isKeyImageSpentLocked B c1 k) = (k \<in> spent_on L h)" for k
      using bs isKeyImageSpent_exact [OF m1(1)] spent_on_branch [OF bs(1)] by auto
    then show ?thesis using assms(2) w S Some v m1 by (simp add: branchAwareSpentCheckerLocked_def)
  qed
qed

section \<open>The verdict\<close>

lemma mem_ok_tip: "mem_ok B L K c \<Longrightarrow> ledger_tip L = (bestHash c, height c, totalWork c)"
  by (simp add: mem_ok_def ledger_tip_def)

lemma checkpoint_exact:
  "checkpoint_ok C c block \<longleftrightarrow> pinned_ok C (trustedCheckpoints c) (fastSyncUntilHeight c) (height c) block"
  by (auto simp: checkpoint_ok_def pinned_ok_def word_neq_0_conv intro: le_less_trans [OF word_zero_le]
      split: option.splits)

lemma skip_exact:
  assumes "mem_ok B L K c"
  shows "shouldSkipPoWLocked c (bheight block) (bprev block = bestHash c)
    \<longleftrightarrow> fast_sync (trustedCheckpoints c) (fastSyncUntilHeight c) L block"
  by (auto simp: shouldSkipPoWLocked_def fast_sync_def mem_ok_tip [OF assms])

lemma process_verdict:
  assumes "view_inv C B L c" "validateBlockForProcessLocked C P B now block c = (r, c')"
  shows "view_inv C B L c'"
    "r = Inr () \<longleftrightarrow> process_valid C P now (trustedCheckpoints c) (fastSyncUntilHeight c) L block"
proof -
  obtain q c1 where q: "(if 0 < bheight block then branchAwareSpentCheckerLocked B (bprev block) c
      else (Inr (isKeyImageSpentLocked B c), c)) = (q, c1)" by fastforce
  have m0: "mem_ok B L (lblocks L) c" using assms(1) by (simp add: view_inv_def)
  let ?S = "\<lambda>k. k \<in> (if bheight block = 0 then dom (limages L) else spent_on L (bprev block))"
  have q1: "view_inv C B L c1" "core c1 = core c"
    and q2: "q = (if bheight block \<noteq> 0 \<and> lblocks L (bprev block) = None then Inl (Invalid OrphanBlock) else Inr ?S)"
    using q branchAware_exact [OF assms(1), of "bprev block" q c1] isKeyImageSpent_exact [OF m0] assms(1)
    by (auto simp: word_neq_0_conv fun_eq_iff split: if_splits option.splits)
  have m1: "mem_ok B L (lblocks L) c1" using q1(1) by (simp add: view_inv_def)
  let ?skip = "fast_sync (trustedCheckpoints c) (fastSyncUntilHeight c) L block"
  have skip: "shouldSkipPoWLocked c1 (bheight block) (bprev block = bestHash c1) = ?skip"
    using skip_exact [OF m1] unfolding core_fields [OF q1(2)] .
  have tip: "ledger_tip L = (bestHash c1, height c1, totalWork c1)" using mem_ok_tip [OF m1] .
  have cp: "checkpoint_ok C c1 block
      \<longleftrightarrow> pinned_ok C (trustedCheckpoints c) (fastSyncUntilHeight c) (height c1) block"
    unfolding checkpoint_exact core_fields [OF q1(2)] ..
  obtain v c2 where v: "validateBlockWithContext C P now block (bestHash c1) (height c1) (getBlockByHashLocked B)
      ?S (isCanonicalRingMemberLocked B) ?skip c1 = (v, c2)" by fastforce
  have vok: "v = Inr () \<longleftrightarrow> block_valid C P now (bestHash c1) (height c1) (lblocks L) ?S (canon_member L) ?skip block"
    "view_inv C B L c2"
    using view.block_ok [OF q1(1), of C P now block "bestHash c1" "height c1" ?S ?skip] v by auto
  have orphan: "\<not> block_valid C P now t n (lblocks L) S canon sk block"
    if "bheight block \<noteq> 0" "lblocks L (bprev block) = None" for t n S canon sk
    using that by (simp add: block_valid_def)
  have run: "validateBlockForProcessLocked C P B now block c =
      (case q of Inl e \<Rightarrow> (Inl e, c1)
       | Inr isSpent \<Rightarrow> if \<not> checkpoint_ok C c1 block then (Inl (Invalid (CheckpointMismatch (bheight block))), c1)
         else apfst (map_sum Invalid id) (validateBlockWithContext C P now block (bestHash c1) (height c1)
           (getBlockByHashLocked B) isSpent (isCanonicalRingMemberLocked B) ?skip c1))"
    unfolding validateBlockForProcessLocked_def q by (simp add: Let_def skip split: sum.split)
  have "view_inv C B L c' \<and> (r = Inr () \<longleftrightarrow>
      \<not> (bheight block \<noteq> 0 \<and> lblocks L (bprev block) = None) \<and> checkpoint_ok C c1 block \<and> v = Inr ())"
    using assms(2) v vok(2) q1(1) unfolding run q2 by (cases v) (auto split: if_splits)
  then show "view_inv C B L c'"
    "r = Inr () \<longleftrightarrow> process_valid C P now (trustedCheckpoints c) (fastSyncUntilHeight c) L block"
    using orphan vok(1) cp by (auto simp: process_valid_def tip)
qed

section \<open>What the verdict guarantees\<close>

text \<open>A block that can join the block tree.\<close>

definition admissible :: "ledger \<Rightarrow> Block \<Rightarrow> bool" where
  "admissible L block \<longleftrightarrow> bdiff block \<noteq> 0 \<and> (bheight block = 0 \<longrightarrow> block_images block = [])
     \<and> (bheight block \<noteq> 0 \<longrightarrow> (\<exists>p ps. branch (lblocks L) (bprev block) (p # ps)
          \<and> bheight block = bheight p + 1 \<and> distinct (images_of (block # p # ps))))"

lemma tx_valid_unspent: "tx_valid C tx isSpent canon \<Longrightarrow> inp \<in> set (Inputs tx) \<Longrightarrow> \<not> isSpent (KeyImage inp)"
  by (auto simp: tx_valid_def spend_valid_def input_valid_def coinbase_no_images split: if_splits)

lemma body_valid_images:
  assumes "body_valid C P isSpent canon block"
  shows "distinct (block_images block)" "\<And>k. k \<in> set (block_images block) \<Longrightarrow> \<not> isSpent k"
  using assms tx_valid_unspent by (fastforce simp: body_valid_def block_images_def tx_images_def)+

lemma validate_time_difficulty: "validate_time C skip now m header = Inr () \<Longrightarrow> MinDifficulty \<le> Difficulty header"
  by (cases "validateTimestampWithMedian header m (now 0)") (auto simp: validate_time_def split: if_splits)

lemma linked_valid_difficulty:
  "linked_valid C P now t n lookup skip block parent \<Longrightarrow> MinDifficulty \<le> bdiff block"
  using validate_time_difficulty by (auto simp: linked_valid_def)

lemma process_valid_admissible:
  assumes "ledger_ok C L" "process_valid C P now cps until L block"
  shows "admissible L block"
proof (cases "bheight block = 0")
  case True
  then have "validateGenesisBlock C P block = Inr ()"
    using assms(2) by (auto simp: process_valid_def block_valid_def split: prod.splits)
  then have "bdiff block = MinDifficulty" "Transactions block = []"
    by (auto simp: validateGenesisBlock_def Let_def split: if_splits)
  then show ?thesis using True by (simp add: admissible_def block_images_def MinDifficulty_def)
next
  case False
  obtain tip n w where t: "ledger_tip L = (tip, n, w)" by (cases "ledger_tip L")
  obtain parent where p: "lblocks L (bprev block) = Some parent"
    and l: "linked_valid C P now tip n (lblocks L) (fast_sync cps until L block) block parent"
    and b: "body_valid C P (\<lambda>k. k \<in> spent_on L (bprev block)) (canon_member L) block"
    using assms(2) False by (auto simp: process_valid_def block_valid_def t)
  have tr: "tree_ok C (lblocks L)" "block_tree C (lblocks L)" using assms(1) by (auto simp: ledger_ok_def tree_ok_def)
  obtain bs where bs: "branch (lblocks L) (bprev block) bs" using tree_branch [OF tr(2) p] by blast
  then obtain ps where ps: "bs = parent # ps" using p by (auto elim: branch_cases)
  have "distinct (images_of bs)" using tr(1) bs by (auto simp: tree_ok_def branch_ok_def)
  moreover have "set (block_images block) \<inter> set (images_of bs) = {}"
    using body_valid_images(2) [OF b] spent_on_branch [OF bs] by auto
  ultimately have "distinct (images_of (block # bs))" using body_valid_images(1) [OF b] by simp
  moreover have "bdiff block \<noteq> 0" using linked_valid_difficulty [OF l] by (auto simp: MinDifficulty_def)
  moreover have "bheight block = bheight parent + 1" using l by (simp add: linked_valid_def)
  ultimately show ?thesis using False bs by (auto simp: admissible_def ps)
qed

text \<open>With the work known to fit, the tree grows by the block.\<close>

lemma admissible_insert:
  assumes "tree_ok C (lblocks L)" "lblocks L (Hash C block) = None" "admissible L block"
    and "\<And>bs. bheight block \<noteq> 0 \<Longrightarrow> branch (lblocks L) (bprev block) bs \<Longrightarrow> unat (bdiff block) + work_of bs < 2 ^ 64"
  shows "tree_ok C ((lblocks L)(Hash C block \<mapsto> block))"
proof (rule tree_ok_insert [OF assms(1,2) refl])
  show "\<exists>p ps. branch (lblocks L) (bprev block) (p # ps) \<and> bheight block = bheight p + 1
      \<and> distinct (images_of (block # p # ps)) \<and> work_of (block # p # ps) < 2 ^ 64" if "bheight block \<noteq> 0"
    using assms(3) assms(4) [OF that] that unfolding admissible_def by fastforce
qed (use assms(3) in \<open>auto simp: admissible_def\<close>)

end
