(* ===== verification/ChainReorg.thy ===== *)
theory ChainReorg
  imports ChainVerdict
begin

text \<open>
  Reorganisation.  While a validated block waits to be written, the caches may know one block more
  than the store; a walk through such a cache may miss that block but never returns a wrong one, so
  a successful walk is the walk over the block tree.  A reorganisation then either fails and leaves
  the stored ledger alone, or moves the ledger to the branch of the new tip.
\<close>

section \<open>Walks through a cached reader\<close>

context block_reader
begin

lemma get_sim: "inv s \<Longrightarrow> get s h = (r, s') \<Longrightarrow> inv s' \<and> (\<forall>b. r = Some b \<longrightarrow> lookup h = Some b)"
  using get_sound [of s h] get_keeps [of s h] by simp

lemma walk_down_sim:
  assumes "inv s" "walk_down get fuel target h b s = (r, s')"
  shows "inv s' \<and> (\<forall>x. r = Inr x \<longrightarrow> walk_down (pure_get lookup) fuel target h b () = (Inr x, ()))"
  using assms
proof (induction fuel arbitrary: h b s)
  case (Suc fuel)
  obtain g s1 where g: "get s (bprev b) = (g, s1)" by fastforce
  note ok = get_sim [OF Suc.prems(1) g]
  show ?case
  proof (cases "bheight b \<le> target \<or> bheight b = 0 \<or> g = None")
    case True
    then show ?thesis using Suc.prems g ok by (auto split: if_splits)
  next
    case False
    then obtain b' where b': "g = Some b'" by blast
    then have "walk_down get fuel target (bprev b) b' s1 = (r, s')" using Suc.prems(2) g False by simp
    then show ?thesis using Suc.IH [of s1] ok b' False by (auto simp: pure_get_def)
  qed
qed auto

lemma walk_meet_sim:
  assumes "inv s" "walk_meet get fuel ah ab bh bb s = (r, s')"
  shows "inv s' \<and> (\<forall>x. r = Inr x \<longrightarrow> walk_meet (pure_get lookup) fuel ah ab bh bb () = (Inr x, ()))"
  using assms
proof (induction fuel arbitrary: ah ab bh bb s)
  case (Suc fuel)
  obtain a s1 where a: "get s (bprev ab) = (a, s1)" by fastforce
  obtain b s2 where b: "get s1 (bprev bb) = (b, s2)" by fastforce
  have oka: "inv s1" "\<And>x. a = Some x \<Longrightarrow> lookup (bprev ab) = Some x" using get_sim [OF Suc.prems(1) a] by auto
  have okb: "inv s2" "\<And>x. b = Some x \<Longrightarrow> lookup (bprev bb) = Some x" using get_sim [OF oka(1) b] by auto
  show ?case
  proof (cases "ah = bh \<or> bheight ab = 0 \<or> bheight bb = 0 \<or> a = None \<or> b = None")
    case True
    then show ?thesis using Suc.prems a b okb(1) by (auto split: if_splits option.splits)
  next
    case False
    then obtain x y where xy: "a = Some x" "b = Some y" by auto
    then have "walk_meet get fuel (bprev ab) x (bprev bb) y s2 = (r, s')" using Suc.prems(2) a b False by simp
    then show ?thesis using Suc.IH [of s2] okb(1) oka(2) [OF xy(1)] okb(2) [OF xy(2)] False
      by (auto simp: pure_get_def)
  qed
qed auto

lemma find_sim:
  assumes "inv s" "findCommonAncestor get aTip bTip s = (r, s')"
  shows "inv s' \<and> (\<forall>x. r = Inr x \<longrightarrow> findCommonAncestor (pure_get lookup) aTip bTip () = (Inr x, ()))"
proof -
  obtain a s1 where a: "get s aTip = (a, s1)" by fastforce
  obtain b s2 where b: "get s1 bTip = (b, s2)" by fastforce
  have oka: "inv s1" "\<And>x. a = Some x \<Longrightarrow> lookup aTip = Some x" using get_sim [OF assms(1) a] by auto
  have okb: "inv s2" "\<And>x. b = Some x \<Longrightarrow> lookup bTip = Some x" using get_sim [OF oka(1) b] by auto
  show ?thesis
  proof (cases "a = None \<or> b = None")
    case True
    then show ?thesis using assms(2) a b oka(1) okb(1)
      by (auto simp: findCommonAncestor_def split: option.splits)
  next
    case False
    then obtain x y where xy: "a = Some x" "b = Some y" by auto
    obtain d s3 where d: "walk_down get (Suc (unat (bheight x))) (bheight y) aTip x s2 = (d, s3)" by fastforce
    note dok = walk_down_sim [OF okb(1) d]
    show ?thesis
    proof (cases d)
      case (Inl e)
      then show ?thesis using assms(2) a b xy d dok
        by (auto simp: findCommonAncestor_def simp del: walk_down.simps)
    next
      case (Inr p)
      obtain ah ab where p: "p = (ah, ab)" by fastforce
      obtain e s4 where e: "walk_down get (Suc (unat (bheight y))) (bheight ab) bTip y s3 = (e, s4)" by fastforce
      have s3: "inv s3" using dok by blast
      note eok = walk_down_sim [OF s3 e]
      show ?thesis
      proof (cases e)
        case err: (Inl er)
        then show ?thesis using assms(2) a b xy d e Inr p eok
          by (auto simp: findCommonAncestor_def simp del: walk_down.simps)
      next
        case inr2: (Inr q)
        obtain bh bb where q: "q = (bh, bb)" by fastforce
        have s4: "inv s4" using eok by blast
        have "walk_meet get (Suc (unat (bheight ab))) ah ab bh bb s4 = (r, s')"
          using assms(2) a b xy d e Inr p inr2 q
          by (simp add: findCommonAncestor_def del: walk_down.simps walk_meet.simps)
        from walk_meet_sim [OF s4 this] show ?thesis
          using oka(2) [OF xy(1)] okb(2) [OF xy(2)] dok eok Inr p inr2 q
          by (simp add: findCommonAncestor_def pure_get_def del: walk_down.simps walk_meet.simps)
      qed
    qed
  qed
qed

lemma connect_path_sim:
  assumes "inv s" "connect_path get fuel common current acc s = (r, s')"
  shows "inv s' \<and> (\<forall>bs. r = Inr bs \<longrightarrow> set bs \<subseteq> set acc \<union> ran lookup)"
  using assms
proof (induction fuel arbitrary: current acc s)
  case (Suc fuel)
  obtain g s1 where g: "get s current = (g, s1)" by fastforce
  note ok = get_sim [OF Suc.prems(1) g]
  show ?case
  proof (cases "current = common \<or> g = None \<or> (\<exists>b. g = Some b \<and> bheight b = 0)")
    case True
    then show ?thesis using Suc.prems g ok by (auto split: if_splits)
  next
    case False
    then obtain b where b: "g = Some b" "bheight b \<noteq> 0" by auto
    then have "connect_path get fuel common (bprev b) (b # acc) s1 = (r, s')" using Suc.prems(2) g False by simp
    from Suc.IH [OF _ this] have "inv s' \<and> (\<forall>bs. r = Inr bs \<longrightarrow> set bs \<subseteq> set (b # acc) \<union> ran lookup)"
      using ok by blast
    moreover have "b \<in> ran lookup" using ok b(1) by (blast intro: ranI)
    ultimately show ?thesis by auto
  qed
qed auto

end

section \<open>The state while a block is pending\<close>

definition pending_inv :: "crypto \<Rightarrow> 'b bolt \<Rightarrow> ledger \<Rightarrow> (hash \<rightharpoonup> Block) \<Rightarrow> 'b chain \<Rightarrow> bool" where
  "pending_inv C B L K c \<longleftrightarrow> bolt_ok B \<and> ledger_ok C L \<and> tree_ok C K \<and> lblocks L \<subseteq>\<^sub>m K
     \<and> mem_ok B L K c \<and> \<not> cacheOver c"

interpretation pending: block_reader "getBlockByHashLocked B" K "pending_inv C B L K" for C B L K
proof unfold_locales
  fix s h b
  assume s: "pending_inv C B L K s"
  obtain r s' where g: "getBlockByHashLocked B s h = (r, s')" by fastforce
  note ok = getBlock_ok [of C L B K s h r s']
  show "K h = Some b" if "fst (getBlockByHashLocked B s h) = Some b"
    using ok(3) s g that by (auto simp: pending_inv_def)
  show "pending_inv C B L K (snd (getBlockByHashLocked B s h))"
    using ok(1,5) s g by (auto simp: pending_inv_def)
qed

lemma pending_tip: "pending_inv C B L K c \<Longrightarrow> ledger_tip L = (bestHash c, height c, totalWork c)"
  using mem_ok_tip by (auto simp: pending_inv_def)

lemma pending_storage:
  assumes "pending_inv C B L K c" "stores B st L"
  shows "pending_inv C B L K (c\<lparr>storage := st\<rparr>)"
  using assms by (simp add: pending_inv_def mem_ok_def ring_ok_def cache_wf_def cacheOver_def)

lemma pending_work:
  assumes "pending_inv C B L K c" "cumulativeWorkAtLocked B h c = (r, c')"
  shows "pending_inv C B L K c' \<and> (\<forall>w. r = Inr w \<longrightarrow> (\<exists>bs. branch K h bs \<and> unat w = work_of bs))"
  using assms cumulativeWork_ok [of C L K B c h r c'] by (auto simp: pending_inv_def)

text \<open>The state after a commit: only the caches are carried over.\<close>

lemma mem_ok_commit:
  assumes "mem_ok B L K c" "stores B (storage c') L'" "ltip L' = Some (bestHash c', height c', totalWork c')"
    and "byHeight c' \<subseteq>\<^sub>m lheights L'" "dom (keyImages c') \<subseteq> dom (limages L')"
    and "blocks c' = blocks c" "workAt c' = workAt c" "cacheCap c' = cacheCap c" "cache_wf c'"
    and "canonicalRingIndexDirty c'"
  shows "mem_ok B L' K c'"
  using assms by (simp add: mem_ok_def ring_ok_def)

section \<open>Disconnecting and connecting in memory\<close>

definition index_sub :: "'b chain \<Rightarrow> ledger \<Rightarrow> bool" where
  "index_sub c L \<longleftrightarrow> byHeight c \<subseteq>\<^sub>m lheights L \<and> dom (keyImages c) \<subseteq> dom (limages L)"

definition same_cache :: "'b chain \<Rightarrow> 'b chain \<Rightarrow> bool" where
  "same_cache c' c \<longleftrightarrow> storage c' = storage c \<and> blocks c' = blocks c \<and> workAt c' = workAt c
     \<and> cacheCap c' = cacheCap c \<and> (cache_wf c \<longrightarrow> cache_wf c')"

lemma same_cache_trans: "same_cache c'' c' \<Longrightarrow> same_cache c' c \<Longrightarrow> same_cache c'' c"
  by (simp add: same_cache_def)

lemma touch_same: "same_cache (cacheTouchLocked h c) c"
  using core_fields [OF core_touch, of h c] touch_wf(1) [of c h] by (simp add: same_cache_def)

lemma mark_dom: "dom (mark_block_images b m) = dom m \<union> set (block_images b)"
  by (auto simp: mark_block_images_def spent_images_block block_images_def fold_mark dom_def split: if_splits)

lemma unmark_dom: "dom (unmark_block_images b m) = dom m - set (block_images b)"
  by (auto simp: unmark_block_images_def spent_images_block block_images_def fold_unmark dom_def split: if_splits)

lemma forget_index: "index_sub c L \<Longrightarrow> index_sub (forget_block b c) (ledger_disconnect b L)"
  and forget_same: "same_cache (forget_block b c) c"
  by (auto simp: index_sub_def forget_block_def ledger_disconnect_def unmark_dom map_le_def
      same_cache_def cache_wf_def)

lemma touch_fields [simp]:
  "byHeight (cacheTouchLocked h c) = byHeight c" "keyImages (cacheTouchLocked h c) = keyImages c"
  "timestamps (cacheTouchLocked h c) = timestamps c" "storage (cacheTouchLocked h c) = storage c"
  "bestHash (cacheTouchLocked h c) = bestHash c" "height (cacheTouchLocked h c) = height c"
  "totalWork (cacheTouchLocked h c) = totalWork c" "cacheCap (cacheTouchLocked h c) = cacheCap c"
  "canonicalRingIndexDirty (cacheTouchLocked h c) = canonicalRingIndexDirty c"
  by (simp_all add: cacheTouchLocked_def)

lemma connect_dom: "dom (limages (ledger_connect C b L)) = dom (limages L) \<union> set (block_images b)"
  by (auto simp: ledger_connect_def dom_def)

lemma adopt_index: "index_sub c L \<Longrightarrow> index_sub (adopt_block C b c) (ledger_connect C b L)"
  unfolding index_sub_def connect_dom
  by (auto simp: adopt_block_def mark_dom Let_def map_le_def ledger_connect_def)

lemma adopt_same: "same_cache (adopt_block C b c) c"
  using touch_same [of "Hash C b" c] by (simp add: adopt_block_def same_cache_def cache_wf_def Let_def)

lemma fold_index:
  assumes "\<And>b c L. index_sub c L \<Longrightarrow> index_sub (f b c) (g b L)" "\<And>b c. same_cache (f b c) c" "index_sub c L"
  shows "index_sub (fold f bs c) (fold g bs L) \<and> same_cache (fold f bs c) c"
  using assms(3)
proof (induction bs arbitrary: c L)
  case Nil
  then show ?case by (simp add: same_cache_def)
next
  case (Cons b bs)
  then show ?case using assms(1) [OF Cons.prems, of b] same_cache_trans [OF _ assms(2) [of b c]] by simp
qed

lemma fold_disconnect_rev: "fold ledger_disconnect (rev bs) L = fold ledger_disconnect bs L"
proof -
  have "ledger_disconnect a \<circ> ledger_disconnect b = ledger_disconnect b \<circ> ledger_disconnect a" for a b
    by (auto simp: ledger_disconnect_def fun_eq_iff)
  then show ?thesis using fold_rev [of bs ledger_disconnect] by metis
qed

lemma reorg_index:
  assumes "index_sub c L"
  shows "index_sub (fold (adopt_block C) (Connect commit) (fold forget_block (Disconnect commit) c))
      (ledger_reorg C commit L)"
    and "same_cache (fold (adopt_block C) (Connect commit) (fold forget_block (Disconnect commit) c)) c"
proof -
  have f: "index_sub (fold forget_block (Disconnect commit) c) (fold ledger_disconnect (Disconnect commit) L)"
    "same_cache (fold forget_block (Disconnect commit) c) c"
    using fold_index [of forget_block ledger_disconnect, OF forget_index forget_same assms] by auto
  have a: "index_sub (fold (adopt_block C) (Connect commit) (fold forget_block (Disconnect commit) c))
      (fold (ledger_connect C) (Connect commit) (fold ledger_disconnect (Disconnect commit) L))"
    "same_cache (fold (adopt_block C) (Connect commit) (fold forget_block (Disconnect commit) c))
      (fold forget_block (Disconnect commit) c)"
    using fold_index [of "adopt_block C" "ledger_connect C", OF adopt_index adopt_same f(1)] by auto
  show "index_sub (fold (adopt_block C) (Connect commit) (fold forget_block (Disconnect commit) c))
      (ledger_reorg C commit L)"
    using a(1) by (simp add: index_sub_def ledger_reorg_def fold_disconnect_rev)
  show "same_cache (fold (adopt_block C) (Connect commit) (fold forget_block (Disconnect commit) c)) c"
    using same_cache_trans [OF a(2) f(2)] .
qed

section \<open>Reorganisation moves the ledger\<close>

text \<open>The result of a successful move of the chain to the block \<open>tip\<close>: the tree is \<open>K\<close>, at most
  \<open>MaxReorgDepth\<close> blocks and not all of them left the main chain, and the work is that of the new branch.\<close>

definition moved :: "crypto \<Rightarrow> 'b bolt \<Rightarrow> ledger \<Rightarrow> (hash \<rightharpoonup> Block) \<Rightarrow> hash \<Rightarrow> 'b chain \<Rightarrow> bool" where
  "moved C B L K tip c' \<longleftrightarrow>
     (\<exists>commit L' bs bs'. L' = ledger_reorg C commit L \<and> view_inv C B L' c' \<and> lblocks L' = K
        \<and> NewTip commit = tip \<and> branch K tip bs' \<and> unat (totalWork c') = work_of bs'
        \<and> chain_of C L bs \<and> chain_of C L' bs'
        \<and> bs' = rev (Connect commit) @ drop (length (Disconnect commit)) bs
        \<and> length (Disconnect commit) \<le> unat MaxReorgDepth \<and> length (Disconnect commit) < length bs)"

lemma commit_moves:
  assumes "sha3_32 C" "pending_inv C B L K c" "dom K = insert tip (dom (lblocks L))"
    and K: "K tip = Some block" "branch K tip bs'" "unat w = work_of bs'"
    and known: "\<forall>d \<in> set ds. lblocks L (Hash C d) = Some d" "\<forall>b \<in> set cs. K (Hash C b) = Some b"
    and deep: "length ds \<le> unat MaxReorgDepth" "length ds \<le> unat (height c)"
    and run: "CommitReorg C B \<lparr>Disconnect = ds, Connect = cs, NewTip = tip, NewHeight = bheight block, NewWork = w\<rparr>
        (storage c) = (r, st)"
    and c': "storage c' = st" "bestHash c' = tip" "height c' = bheight block" "totalWork c' = w"
      "same_cache (c'\<lparr>storage := storage c\<rparr>) c" "canonicalRingIndexDirty c'"
      "index_sub c' (ledger_reorg C \<lparr>Disconnect = ds, Connect = cs, NewTip = tip, NewHeight = bheight block,
         NewWork = w\<rparr> L)"
  shows "(\<exists>e. r = Inl e) \<and> stores B st L \<or> r = Inr () \<and> moved C B L K tip (cacheTrimLocked c')"
proof -
  let ?cm = "\<lparr>Disconnect = ds, Connect = cs, NewTip = tip, NewHeight = bheight block, NewWork = w\<rparr>"
  have p: "bolt_ok B" "ledger_ok C L" "tree_ok C K" "lblocks L \<subseteq>\<^sub>m K" "mem_ok B L K c" "stores B (storage c) L"
    using assms(2) by (auto simp: pending_inv_def mem_ok_def)
  note ref = reorg_commit_refines [OF p(1) assms(1) p(6), of ?cm, unfolded run]
  show ?thesis
  proof (cases r)
    case (Inl e)
    then show ?thesis using ref by simp
  next
    case (Inr u)
    then have ok: "reorg_ok C ?cm L" and st: "stores B st (ledger_reorg C ?cm L)" using ref by auto
    let ?L = "ledger_reorg C ?cm L"
    have new: "ledger_ok C ?L" "lblocks ?L = K"
      "\<exists>bs. chain_of C L bs \<and> chain_of C ?L bs' \<and> bs' = rev cs @ drop (length ds) bs"
      using ledger_reorg_ok [OF p(2) ok p(3,4), of block bs'] assms(3) K known by simp_all
    have "mem_ok B ?L K c'"
    proof (rule mem_ok_commit [OF p(5)])
      show "stores B (storage c') ?L" using st c'(1) by simp
      show "ltip ?L = Some (bestHash c', height c', totalWork c')" using c'(2-4) by (simp add: ledger_reorg_def)
      have "cache_wf (c'\<lparr>storage := storage c\<rparr>)" using c'(5) p(5) by (simp add: same_cache_def mem_ok_def)
      then show "cache_wf c'" by (simp add: cache_wf_def)
    qed (use c'(5-7) in \<open>auto simp: same_cache_def index_sub_def\<close>)
    note trim = mem_ok_trim [OF new(1) this]
    have "view_inv C B ?L (cacheTrimLocked c')" using trim p(1) new by (simp add: view_inv_def)
    moreover have "totalWork (cacheTrimLocked c') = w" using core_fields(7) [OF trim(2)] c'(4) by simp
    moreover have "length ds < length bs" if "chain_of C L bs" for bs
      using that deep(2) mem_ok_tip [OF p(5)] by (auto simp: chain_of_def ledger_tip_def)
    ultimately show ?thesis
      using Inr new K deep unfolding moved_def by (intro disjI2 conjI exI [of _ ?cm] exI [of _ ?L]) auto
  qed
qed

lemma extend_tip_ok:
  assumes "sha3_32 C" "pending_inv C B L K c" "dom K = insert tip (dom (lblocks L))" "K tip = Some block"
    and "extend_tip C B tip block c = (r, c')"
  shows "(\<exists>e. r = Inl e) \<and> pending_inv C B L K c' \<or> r = Inr () \<and> moved C B L K tip c'"
proof -
  obtain q c1 where q: "cumulativeWorkAtLocked B tip c = (q, c1)" by fastforce
  note wk = pending_work [OF assms(2) q]
  show ?thesis
  proof (cases q)
    case (Inl e)
    then show ?thesis using assms(5) q wk by (auto simp: extend_tip_def)
  next
    case (Inr w)
    then obtain bs' where bs': "branch K tip bs'" "unat w = work_of bs'" using wk by blast
    let ?cm = "\<lparr>Disconnect = [], Connect = [block], NewTip = tip, NewHeight = bheight block, NewWork = w\<rparr>"
    obtain x st where x: "CommitReorg C B ?cm (storage c1) = (x, st)" by fastforce
    let ?c = "(cacheTouchLocked tip (c1\<lparr>storage := st, bestHash := tip, height := bheight block, totalWork := w,
        byHeight := (byHeight c1)(bheight block \<mapsto> tip)\<rparr>))\<lparr>timestamps := push_timestamp (bts block) (timestamps c1),
        keyImages := mark_block_images block (keyImages c1), canonicalRingIndexDirty := True\<rparr>"
    have p1: "pending_inv C B L K c1" using wk by blast
    have h: "Hash C block = tip" using p1 assms(4) tree_hash by (auto simp: pending_inv_def tree_ok_def)
    have "index_sub c1 L" using p1 by (simp add: pending_inv_def mem_ok_def index_sub_def)
    then have "index_sub (adopt_block C block c1) (ledger_connect C block L)" by (rule adopt_index)
    then have idx: "index_sub ?c (ledger_reorg C ?cm L)"
      by (simp add: index_sub_def ledger_reorg_def adopt_block_def Let_def h)
    have "same_cache (?c\<lparr>storage := storage c1\<rparr>) c1"
      using touch_wf(1) [of c1 tip] by (auto simp: same_cache_def cache_wf_def cacheTouchLocked_def)
    then have cm: "(\<exists>e. x = Inl e) \<and> stores B st L \<or> x = Inr () \<and> moved C B L K tip (cacheTrimLocked ?c)"
      using commit_moves [OF assms(1) p1 assms(3,4) bs', of "[]" "[block]" x st ?c] x idx h assms(4) by simp
    show ?thesis
    proof (cases x)
      case e: (Inl e)
      then show ?thesis using assms(5) q Inr x cm pending_storage [OF p1] by (auto simp: extend_tip_def)
    next
      case u: (Inr u)
      then have "r = Inr ()" "c' = cacheTrimLocked ?c"
        using assms(5) q Inr x by (simp_all add: extend_tip_def Let_def)
      then show ?thesis using cm u by simp
    qed
  qed
qed

section \<open>Switching branches\<close>

lemma main_hash_stored:
  assumes "ledger_ok C L" "lheights L n = Some h"
  shows "\<exists>b. lblocks L h = Some b"
proof (cases "ltip L")
  case None
  then show ?thesis using assms by (simp add: ledger_ok_def)
next
  case (Some t)
  obtain tip m w where t: "ltip L = Some (tip, m, w)" using Some by (cases t) auto
  obtain bs where bs: "branch (lblocks L) tip bs" "main_is C L bs" "block_tree C (lblocks L)"
    using ledger_okE [OF assms(1) t] by metis
  then have "unat n < length bs" "h = Hash C (rev bs ! unat n)"
    using assms(2) by (auto simp: main_is_def split: if_splits)
  then show ?thesis using branch_filed [OF bs(3,1)] by (metis length_rev nth_mem set_rev)
qed

lemma getByHeight_ok:
  assumes "ledger_ok C L" "mem_ok B L K c" "lblocks L \<subseteq>\<^sub>m K"
  shows "getBlockByHeightLocked B c n = Option.bind (lheights L n) (lblocks L)"
proof (cases "Option.bind (byHeight c n) (fmlookup (blocks c))")
  case None
  have "stores B (storage c) L" using assms(2) by (simp add: mem_ok_def)
  then show ?thesis using None by (simp add: getBlockByHeightLocked_def stores_reads comp_def)
next
  case (Some b)
  then obtain h where h: "byHeight c n = Some h" "fmlookup (blocks c) h = Some b" by (auto simp: bind_eq_Some_conv)
  then have "lheights L n = Some h" "K h = Some b" using assms(2) map_leD unfolding mem_ok_def by metis+
  moreover from this obtain b' where "lblocks L h = Some b'" using main_hash_stored [OF assms(1)] by blast
  moreover from this have "K h = Some b'" using map_leD [OF assms(3)] by blast
  ultimately show ?thesis using Some by (simp add: getBlockByHeightLocked_def)
qed

lemma those_ok: "those xs = Some ys \<Longrightarrow> length ys = length xs \<and> (\<forall>y \<in> set ys. Some y \<in> set xs)"
proof (induction xs arbitrary: ys)
  case (Cons x xs)
  then show ?case by (cases x; cases "those xs") auto
qed simp

lemma disconnect_known:
  assumes "ledger_ok C L" "mem_ok B L K c" "lblocks L \<subseteq>\<^sub>m K"
    and "those (map (getBlockByHeightLocked B c) ns) = Some ds"
  shows "length ds = length ns" "\<forall>d \<in> set ds. lblocks L (Hash C d) = Some d"
proof -
  show "length ds = length ns" using those_ok [OF assms(4)] by simp
  have "block_tree C (lblocks L)" using assms(1) by (simp add: ledger_ok_def tree_ok_def)
  moreover have "\<exists>h. lblocks L h = Some d" if dd: "d \<in> set ds" for d
  proof -
    obtain n where "getBlockByHeightLocked B c n = Some d" using those_ok [OF assms(4)] dd by force
    then show ?thesis by (auto simp: getByHeight_ok [OF assms(1-3)] bind_eq_Some_conv)
  qed
  ultimately show "\<forall>d \<in> set ds. lblocks L (Hash C d) = Some d" using tree_hash by metis
qed

lemma finality_ok:
  assumes "pending_inv C B L K c" "enforceReorgFinalityLocked B tip c = (r, c')"
  shows "pending_inv C B L K c' \<and> (r = Inr () \<longrightarrow> height c < MaxReorgDepth
     \<or> (\<exists>h n. findCommonAncestor (pure_get K) (bestHash c) tip () = (Inr (h, n), ()) \<and> height c - MaxReorgDepth \<le> n))"
proof (cases "height c < MaxReorgDepth")
  case True
  then show ?thesis using assms by (auto simp: enforceReorgFinalityLocked_def)
next
  case False
  obtain g c1 where g: "getBlockByHashLocked B c tip = (g, c1)" by fastforce
  have p1: "pending_inv C B L K c1" using pending.get_sim [OF assms(1) g] by blast
  obtain f c2 where f: "findCommonAncestor (getBlockByHashLocked B) (bestHash c1) tip c1 = (f, c2)" by fastforce
  note fs = pending.find_sim [OF p1 f]
  have t: "bestHash c1 = bestHash c" "height c2 = height c"
    using pending_tip [OF assms(1)] pending_tip [OF p1] fs pending_tip [of C B L K c2] by auto
  show ?thesis
  proof (cases "\<exists>b h n. g = Some b \<and> f = Inr (h, n)")
    case True
    then obtain b h n where gf: "g = Some b" "f = Inr (h, n)" by blast
    then have "(r, c') = (if n < height c - MaxReorgDepth
        then (Inl (FinalizedBoundary n (height c - MaxReorgDepth)), c2) else (Inr (), c2))"
      using assms(2) False g f t
      by (auto simp: enforceReorgFinalityLocked_def findCommonAncestorLocked_def Let_def split: if_splits)
    then show ?thesis using fs gf t by (auto split: if_splits)
  next
    case no: False
    then show ?thesis using assms(2) False g f p1 fs
      by (cases g; cases f) (auto simp: enforceReorgFinalityLocked_def findCommonAncestorLocked_def)
  qed
qed

lemma depth_bound:
  fixes h n :: u64
  assumes "h < MaxReorgDepth \<or> h - MaxReorgDepth \<le> n"
  shows "length (heights_down h n) \<le> unat MaxReorgDepth"
proof (cases "h < MaxReorgDepth")
  case True
  then have "unat h < unat MaxReorgDepth" by (simp add: word_less_nat_alt)
  then show ?thesis by (simp add: heights_down_def) linarith
next
  case False
  then have "unat (h - MaxReorgDepth) = unat h - unat MaxReorgDepth"
    by (intro unat_sub) (simp add: not_less)
  then have "unat h - unat MaxReorgDepth \<le> unat n" using assms False by (simp add: word_le_nat_alt)
  then show ?thesis by (simp add: heights_down_def) linarith
qed

lemma switch_branch_ok:
  assumes "sha3_32 C" "pending_inv C B L K c" "dom K = insert tip (dom (lblocks L))" "K tip = Some block"
    and "switch_branch C B tip block c = (r, c')"
  shows "(\<exists>e. r = Inl e) \<and> pending_inv C B L K c' \<or> r = Inr () \<and> moved C B L K tip c'"
proof -
  obtain e1 c1 where e1: "enforceReorgFinalityLocked B tip c = (e1, c1)" by fastforce
  note fin = finality_ok [OF assms(2) e1]
  then have p1: "pending_inv C B L K c1" by blast
  obtain e2 c2 where e2: "findCommonAncestorLocked B (bestHash c1) tip c1 = (e2, c2)" by fastforce
  note find = pending.find_sim [OF p1 e2 [unfolded findCommonAncestorLocked_def]]
  then have p2: "pending_inv C B L K c2" by blast
  show ?thesis
  proof (cases "\<exists>h n. e1 = Inr () \<and> e2 = Inr (h, n)")
    case False
    then show ?thesis using assms(5) e1 e2 p1 p2
      by (cases e1; cases e2) (auto simp: switch_branch_def)
  next
    case True
    then obtain ch n where en: "e1 = Inr ()" "e2 = Inr (ch, n)" by blast
    have tips: "bestHash c1 = bestHash c" "height c2 = height c"
      using pending_tip [OF assms(2)] pending_tip [OF p1] pending_tip [OF p2] by auto
    have deep: "length (heights_down (height c2) n) \<le> unat MaxReorgDepth"
      using fin find en tips by (intro depth_bound) auto
    let ?dis = "those (map (getBlockByHeightLocked B c2) (heights_down (height c2) n))"
    obtain e3 c3 where e3: "collectConnectPathLocked B ch tip c2 = (e3, c3)" by fastforce
    note path = pending.connect_path_sim [OF p2 e3 [unfolded collectConnectPathLocked_def]]
    then have p3: "pending_inv C B L K c3" by blast
    obtain e4 c4 where e4: "cumulativeWorkAtLocked B tip c3 = (e4, c4)" by fastforce
    note wk = pending_work [OF p3 e4]
    then have p4: "pending_inv C B L K c4" by blast
    show ?thesis
    proof (cases "\<exists>ds cs w. ?dis = Some ds \<and> e3 = Inr cs \<and> e4 = Inr w")
      case False
      then show ?thesis using assms(5) e1 e2 en e3 e4 p2 p3 p4
        by (cases ?dis; cases e3; cases e4) (auto simp: switch_branch_def)
    next
      case True
      then obtain ds cs w where res: "?dis = Some ds" "e3 = Inr cs" "e4 = Inr w" by blast
      obtain bs' where bs': "branch K tip bs'" "unat w = work_of bs'" using wk res by blast
      have L: "ledger_ok C L" "mem_ok B L K c2" "lblocks L \<subseteq>\<^sub>m K" "tree_ok C K"
        using p2 by (auto simp: pending_inv_def)
      have ds: "length ds \<le> unat MaxReorgDepth" "\<forall>d \<in> set ds. lblocks L (Hash C d) = Some d" "length ds \<le> unat (height c4)"
        using disconnect_known [OF L(1-3) res(1)] deep pending_tip [OF p2] pending_tip [OF p4] by (auto simp: heights_down_def)
      have cs: "\<forall>b \<in> set cs. K (Hash C b) = Some b"
        using path res(2) L(4) tree_hash by (fastforce simp: tree_ok_def ran_def)
      let ?cm = "\<lparr>Disconnect = ds, Connect = cs, NewTip = tip, NewHeight = bheight block, NewWork = w\<rparr>"
      obtain x st where x: "CommitReorg C B ?cm (storage c4) = (x, st)" by fastforce
      define d where "d = fold (adopt_block C) cs (fold forget_block ds (c4\<lparr>storage := st\<rparr>))"
      let ?c = "cacheTouchLocked tip (d\<lparr>bestHash := tip, height := bheight block, totalWork := w,
          canonicalRingIndexDirty := True\<rparr>)"
      have "index_sub (c4\<lparr>storage := st\<rparr>) L" using p4 by (simp add: pending_inv_def mem_ok_def index_sub_def)
      note d = reorg_index [OF this, of C ?cm, simplified, folded d_def]
      have idx: "index_sub ?c (ledger_reorg C ?cm L)" using d(1) by (simp add: index_sub_def)
      have "same_cache (?c\<lparr>storage := storage c4\<rparr>) c4"
        using d(2) touch_wf(1) [of d tip]
        by (auto simp: same_cache_def cache_wf_def cacheTouchLocked_def)
      moreover have "storage ?c = st" using d(2) by (simp add: same_cache_def)
      ultimately have cm: "(\<exists>e. x = Inl e) \<and> stores B st L \<or> x = Inr () \<and> moved C B L K tip (cacheTrimLocked ?c)"
        using commit_moves [OF assms(1) p4 assms(3,4) bs' ds(2) cs ds(1,3) x, of ?c] idx by simp
      have run: "(r, c') = (case x of Inl e \<Rightarrow> (Inl (PersistFailed e), c4\<lparr>storage := st\<rparr>)
          | Inr _ \<Rightarrow> (Inr (), cacheTrimLocked ?c))"
        using assms(5) e1 e2 en e3 e4 res x unfolding d_def
        by (cases x) (auto simp: switch_branch_def Let_def)
      show ?thesis
        using cm run pending_storage [OF p4] by (cases x) auto
    qed
  qed
qed

lemma reorganizeTo_ok:
  assumes "sha3_32 C" "pending_inv C B L K c" "dom K = insert tip (dom (lblocks L))" "K tip = Some block"
    and "reorganizeTo C B tip c = (r, c')"
  shows "(\<exists>e. r = Inl e) \<and> pending_inv C B L K c' \<or> r = Inr () \<and> moved C B L K tip c'"
proof -
  obtain g c1 where g: "getBlockByHashLocked B c tip = (g, c1)" by fastforce
  let ?l = "case fmlookup (blocks c) tip of Some b \<Rightarrow> (Some b, c)
      | None \<Rightarrow> (case fst (st_GetBlock B (storage c) tip) of
           Some loaded \<Rightarrow> (Some loaded, cacheTrimLocked (cacheTouchLocked tip (c\<lparr>blocks := fmupd tip loaded (blocks c)\<rparr>)))
         | None \<Rightarrow> (None, c))"
  obtain b c2 where l: "?l = (b, c2)" by fastforce
  have same: "b = g" "c2 = c \<or> c2 = c1"
    using l g by (auto simp: getBlockByHashLocked_def split: option.splits)
  have p: "pending_inv C B L K c2" "\<And>x. b = Some x \<Longrightarrow> x = block"
    using pending.get_sim [OF assms(2) g] same assms(2,4) by auto
  have run: "(r, c') = (case b of None \<Rightarrow> (Inl NewTipMissing, c2)
      | Some nb \<Rightarrow> if bprev nb = bestHash c2 then extend_tip C B tip nb c2 else switch_branch C B tip nb c2)"
    using assms(5) l unfolding reorganizeTo_def by (simp split: option.split)
  show ?thesis
  proof (cases b)
    case None
    then show ?thesis using run p(1) by simp
  next
    case (Some x)
    then have "x = block" using p(2) by blast
    then show ?thesis
      using run Some extend_tip_ok [OF assms(1) p(1) assms(3,4), of r c']
        switch_branch_ok [OF assms(1) p(1) assms(3,4), of r c'] by (auto split: if_splits)
  qed
qed

end
