(* ===== verification/ChainSafety.thy ===== *)
theory ChainSafety
  imports ChainReorg
begin

text \<open>
  Block processing keeps the chain consistent.  The invariant is \<open>view_inv\<close>: the store represents a
  consistent ledger and the memory state agrees with it.  Every outcome of \<open>ProcessBlock\<close> is
  analysed: rejected blocks change nothing, side blocks join the block tree, and a heavier branch
  becomes the main chain.
\<close>

section \<open>Entering and leaving the pending state\<close>

lemma mem_ok_mono: "mem_ok B L K c \<Longrightarrow> K \<subseteq>\<^sub>m K' \<Longrightarrow> mem_ok B L K' c"
  unfolding mem_ok_def using map_le_trans branch_mono by metis

lemma mem_ok_work:
  assumes "mem_ok B L K c" "branch K h bs" "unat w = work_of bs" "h |\<in>| cacheIndex c"
  shows "mem_ok B L K (c\<lparr>workAt := fmupd h w (workAt c)\<rparr>)"
proof -
  have "cache_wf (c\<lparr>workAt := fmupd h w (workAt c)\<rparr>)" using assms(1,4) by (auto simp: mem_ok_def cache_wf_def)
  then show ?thesis using assms by (auto simp: mem_ok_def ring_ok_def)
qed

lemma touch_index: "h |\<in>| cacheIndex (cacheTouchLocked h c)"
  by (simp add: cacheTouchLocked_def)

lemma pending_enter:
  assumes "view_inv C B L c" "tree_ok C K" "K = (lblocks L)(h \<mapsto> block)" "lblocks L h = None"
    and "branch K h bs" "unat w = work_of bs"
  shows "pending_inv C B L K (cacheTrimLocked
      ((cacheTouchLocked h (c\<lparr>blocks := fmupd h block (blocks c)\<rparr>))\<lparr>workAt := fmupd h w (workAt c)\<rparr>))"
proof -
  let ?t = "cacheTouchLocked h (c\<lparr>blocks := fmupd h block (blocks c)\<rparr>)"
  have le: "lblocks L \<subseteq>\<^sub>m K" using assms(3,4) by (auto simp: map_le_def)
  then have "mem_ok B L K c" using assms(1) mem_ok_mono by (auto simp: view_inv_def)
  then have "mem_ok B L K ?t" using assms(3) by (intro mem_ok_insert) simp_all
  from mem_ok_work [OF this assms(5,6) touch_index]
  have "mem_ok B L K (?t\<lparr>workAt := fmupd h w (workAt c)\<rparr>)" by simp
  then show ?thesis
    using mem_ok_trim [of C L B K] assms(1,2) le by (simp add: pending_inv_def view_inv_def)
qed

lemma forget_small: "\<not> cacheOver c \<Longrightarrow> \<not> cacheOver (cacheForgetLocked h c)"
proof -
  have "fcard (A |-| {|h|}) \<le> fcard A" for A :: "hash fset" by (simp add: fcard.rep_eq card_mono)
  then have "fcard (cacheIndex (cacheForgetLocked h c)) \<le> fcard (cacheIndex c)"
    "fcard (fmdom (blocks (cacheForgetLocked h c))) \<le> fcard (fmdom (blocks c))"
    by (auto simp: cacheForgetLocked_def Let_def)
  moreover have "cacheCap (cacheForgetLocked h c) = cacheCap c" by (simp add: cacheForgetLocked_def Let_def)
  ultimately show "\<not> cacheOver c \<Longrightarrow> \<not> cacheOver (cacheForgetLocked h c)"
    unfolding cacheOver_def by (metis le_less_trans not_less)
qed

lemma pending_leave:
  assumes "pending_inv C B L ((lblocks L)(h \<mapsto> block)) c" "lblocks L h = None"
  shows "view_inv C B L (cacheForgetLocked h c)"
proof -
  let ?K = "(lblocks L)(h \<mapsto> block)" and ?c = "cacheForgetLocked h c"
  have p: "bolt_ok B" "ledger_ok C L" "mem_ok B L ?K c" "\<not> cacheOver c" using assms(1) by (auto simp: pending_inv_def)
  have tr: "block_tree C (lblocks L)" using p(2) by (simp add: ledger_ok_def tree_ok_def)
  have f: "core ?c = core c" by simp
  have "fmlookup (blocks ?c) \<subseteq>\<^sub>m lblocks L"
    using p(3) by (auto simp: mem_ok_def map_le_def dom_def split: if_splits)
  moreover have "\<exists>bs. branch (lblocks L) h' bs \<and> unat w = work_of bs" if "fmlookup (workAt ?c) h' = Some w" for h' w
  proof -
    have "h' \<noteq> h" "fmlookup (workAt c) h' = Some w" using that by (auto split: if_splits)
    then show ?thesis using p(3) branch_unaffected [OF tr assms(2)] unfolding mem_ok_def by metis
  qed
  moreover have "cache_wf ?c" using p(3) by (auto simp: mem_ok_def intro: forget_wf)
  ultimately have "mem_ok B L (lblocks L) ?c"
    using p(3) unfolding mem_ok_def ring_ok_def core_fields [OF f] by blast
  then show ?thesis using p forget_small by (simp add: view_inv_def)
qed

section \<open>A side block\<close>

lemma save_ok:
  assumes "ledger_ok C L" "ltip L \<noteq> None" "lblocks L (Hash C block) = None"
    and "tree_ok C ((lblocks L)(Hash C block \<mapsto> block))"
  shows "ledger_ok C (ledger_save C block L)" "main_outputs (ledger_save C block L) = main_outputs L"
proof -
  obtain tip n w where t: "ltip L = Some (tip, n, w)" using assms(2) by auto
  have le: "lblocks L \<subseteq>\<^sub>m (lblocks L)(Hash C block \<mapsto> block)" using assms(3) by (auto simp: map_le_def)
  obtain bs where bs: "branch (lblocks L) tip bs" "main_is C L bs" "length bs = Suc (unat n)" "unat w = work_of bs"
    using ledger_okE [OF assms(1) t] by metis
  then show "ledger_ok C (ledger_save C block L)"
    using branch_mono [OF bs(1) le] assms(4) t by (auto simp: ledger_ok_def ledger_save_def main_is_def)
  have "h \<noteq> Hash C block" if "lheights L m = Some h" for m h
    using main_hash_stored [OF assms(1) that] assms(3) by auto
  then show "main_outputs (ledger_save C block L) = main_outputs L"
    unfolding main_outputs_def ledger_save_def by (intro arg_cong [of _ _ Union] Collect_cong) auto
qed

lemma pending_save:
  assumes "pending_inv C B L ((lblocks L)(Hash C block \<mapsto> block)) c" "lblocks L (Hash C block) = None"
    and "ltip L \<noteq> None" "stores B st (ledger_save C block L)"
  shows "view_inv C B (ledger_save C block L) (c\<lparr>storage := st\<rparr>)"
proof -
  have p: "bolt_ok B" "ledger_ok C L" "tree_ok C ((lblocks L)(Hash C block \<mapsto> block))"
    "mem_ok B L ((lblocks L)(Hash C block \<mapsto> block)) c" "\<not> cacheOver c"
    using assms(1) by (auto simp: pending_inv_def)
  note s = save_ok [OF p(2) assms(3,2) p(3)]
  have "lblocks (ledger_save C block L) = (lblocks L)(Hash C block \<mapsto> block)"
    "ltip (ledger_save C block L) = ltip L" "lheights (ledger_save C block L) = lheights L"
    "limages (ledger_save C block L) = limages L" by (simp_all add: ledger_save_def)
  then show ?thesis
    using p(1,4,5) s assms(4) by (auto simp: view_inv_def mem_ok_def ring_ok_def cache_wf_def cacheOver_def)
qed

section \<open>What processing a block means\<close>

definition main_work :: "ledger \<Rightarrow> nat" where
  "main_work L = unat (snd (snd (ledger_tip L)))"

text \<open>A block is known already, refused, stored beside the main chain, or it becomes the tip of a
  main chain with more work that keeps all but the last \<open>MaxReorgDepth\<close> blocks of the old one.\<close>

inductive process_step :: "crypto \<Rightarrow> net_params \<Rightarrow> (nat \<Rightarrow> i64) \<Rightarrow> (u64 \<rightharpoonup> hash) option \<Rightarrow> u64 \<Rightarrow> ledger \<Rightarrow> Block
    \<Rightarrow> chain_error + bool \<times> bool \<Rightarrow> ledger \<Rightarrow> bool" for C P now cps until L block where
  known: "lblocks L (Hash C block) \<noteq> None \<Longrightarrow> process_step C P now cps until L block (Inr (False, False)) L"
| refused: "process_step C P now cps until L block (Inl e) L"
| side: "lblocks L (Hash C block) = None \<Longrightarrow> process_valid C P now cps until L block
    \<Longrightarrow> branch ((lblocks L)(Hash C block \<mapsto> block)) (Hash C block) bs \<Longrightarrow> work_of bs \<le> main_work L
    \<Longrightarrow> process_step C P now cps until L block (Inr (True, False)) (ledger_save C block L)"
| main: "lblocks L (Hash C block) = None \<Longrightarrow> process_valid C P now cps until L block
    \<Longrightarrow> lblocks L' = (lblocks L)(Hash C block \<mapsto> block) \<Longrightarrow> chain_of C L old \<Longrightarrow> chain_of C L' new
    \<Longrightarrow> hd new = block \<Longrightarrow> work_of old < work_of new \<Longrightarrow> new = cs @ drop d old \<Longrightarrow> d \<le> unat MaxReorgDepth \<Longrightarrow> d < length old
    \<Longrightarrow> process_step C P now cps until L block (Inr (True, True)) L'"

inductive_cases process_stepE: "process_step C P now cps until L block r L'"

lemma view_work: "view_inv C B L c \<Longrightarrow> main_work L = unat (totalWork c)"
  using mem_ok_tip [of B L "lblocks L" c] by (simp add: view_inv_def main_work_def)

lemma chain_of_work: "chain_of C L bs \<Longrightarrow> main_work L = work_of bs"
  by (auto simp: chain_of_def main_work_def ledger_tip_def)

text \<open>The work of the new block and the state with the block pending.\<close>

lemma parent_work_ok:
  assumes "view_inv C B L c" "admissible L block"
    and "(if 0 < bheight block then cumulativeWorkAtLocked B (bprev block) c else (Inr 0, c)) = (q, c')"
  shows "view_inv C B L c' \<and> (\<forall>p. q = Inr p \<longrightarrow> (if bheight block = 0 then p = 0
      else \<exists>bs. branch (lblocks L) (bprev block) bs \<and> unat p = work_of bs))"
proof (cases "0 < bheight block")
  case True
  have v: "bolt_ok B" "ledger_ok C L" "tree_ok C (lblocks L)" "mem_ok B L (lblocks L) c" "\<not> cacheOver c"
    using assms(1) by (auto simp: view_inv_def ledger_ok_def)
  have "cumulativeWorkAtLocked B (bprev block) c = (q, c')" using assms(3) True by simp
  note wk = cumulativeWork_ok [OF v(2,3) map_le_refl v(4) this]
  show ?thesis using wk v True by (auto simp: view_inv_def)
next
  case False
  then show ?thesis using assms(1,3) by (auto simp: word_gt_0)
qed

lemma pending_block:
  assumes "view_inv C B L c" "admissible L block" "lblocks L (Hash C block) = None"
    and "if bheight block = 0 then p = 0 else \<exists>bs. branch (lblocks L) (bprev block) bs \<and> unat p = work_of bs"
    and "addCumulativeWork p (bdiff block) = Inr w"
  shows "tree_ok C ((lblocks L)(Hash C block \<mapsto> block))
    \<and> (\<exists>bs. branch ((lblocks L)(Hash C block \<mapsto> block)) (Hash C block) (block # bs) \<and> unat w = work_of (block # bs))"
proof -
  let ?K = "(lblocks L)(Hash C block \<mapsto> block)"
  have tr: "tree_ok C (lblocks L)" using assms(1) by (auto simp: view_inv_def ledger_ok_def)
  have le: "lblocks L \<subseteq>\<^sub>m ?K" using assms(3) by (auto simp: map_le_def)
  have w: "unat p + unat (bdiff block) < 2 ^ 64" "unat w = unat p + unat (bdiff block)"
    using assms(5) addCumulativeWork_Inr addCumulativeWork_value by metis+
  show ?thesis
  proof (cases "bheight block = 0")
    case True
    have "branch ?K (Hash C block) [block]" using True by (intro branch.root) simp_all
    moreover have "unat w = work_of [block]" using w(2) assms(4) True by simp
    ultimately show ?thesis using admissible_insert [OF tr assms(3,2)] True by blast
  next
    case False
    then obtain bs where bs: "branch (lblocks L) (bprev block) bs" "unat p = work_of bs" using assms(4) by auto
    have "unat (bdiff block) + work_of bs' < 2 ^ 64" if "branch (lblocks L) (bprev block) bs'" for bs'
      using branch_unique [OF bs(1) that] w(1) bs(2) by simp
    moreover have "branch ?K (Hash C block) (block # bs)"
      using branch_mono [OF bs(1) le] False by (intro branch.child) simp_all
    moreover have "unat w = work_of (block # bs)" using w(2) bs(2) by simp
    ultimately show ?thesis using admissible_insert [OF tr assms(3,2)] by blast
  qed
qed

lemma process_refines:
  assumes "sha3_32 C" "view_inv C B L c" "ProcessBlock C P B now block c = (r, c')"
    and "\<And>e. r \<noteq> Inl (ForkSaveFailed e)"
  shows "\<exists>L'. process_step C P now (trustedCheckpoints c) (fastSyncUntilHeight c) L block r L' \<and> view_inv C B L' c'"
proof -
  let ?h = "Hash C block" and ?K = "(lblocks L)(Hash C block \<mapsto> block)"
  let ?step = "process_step C P now (trustedCheckpoints c) (fastSyncUntilHeight c) L block"
  have m: "stores B (storage c) L" "fmlookup (blocks c) \<subseteq>\<^sub>m lblocks L" "bolt_ok B" "ledger_ok C L"
    using assms(2) by (auto simp: view_inv_def mem_ok_def)
  show ?thesis
  proof (cases "lblocks L ?h")
    case (Some b)
    then have "r = Inr (False, False)" "c' = c"
      using assms(3) by (auto simp: ProcessBlock_def Let_def stores_reads [OF m(1)] split: if_splits)
    then show ?thesis using assms(2) Some process_step.known by blast
  next
    case None
    then have new: "fmlookup (blocks c) ?h = None" "\<not> st_HasBlock B (storage c) ?h"
      using m(2) stores_reads(2) [OF m(1)] map_leD by (metis option.distinct(1) option.exhaust)+
    obtain v c1 where v: "validateBlockForProcessLocked C P B now block c = (v, c1)" by fastforce
    note ver = process_verdict [OF assms(2) v]
    obtain q c2 where q: "(if 0 < bheight block then cumulativeWorkAtLocked B (bprev block) c1 else (Inr 0, c1)) = (q, c2)"
      by fastforce
    show ?thesis
    proof (cases "\<exists>p w. v = Inr () \<and> q = Inr p \<and> addCumulativeWork p (bdiff block) = Inr w")
      case False
      have "view_inv C B L c' \<and> (\<exists>e. r = Inl e)"
      proof (cases v)
        case (Inl e)
        then show ?thesis using assms(3) new v ver(1) by (auto simp: ProcessBlock_def Let_def)
      next
        case (Inr u)
        then have "admissible L block" using ver(2) process_valid_admissible [OF m(4)] by simp
        then have "view_inv C B L c2" using parent_work_ok [OF ver(1) _ q] by blast
        then show ?thesis using assms(3) new v Inr q False
          by (cases q; cases "addCumulativeWork (projr q) (bdiff block)") (auto simp: ProcessBlock_def Let_def)
      qed
      then show ?thesis using process_step.refused by blast
    next
      case True
      then obtain p w where pw: "v = Inr ()" "q = Inr p" "addCumulativeWork p (bdiff block) = Inr w" by blast
      have valid: "process_valid C P now (trustedCheckpoints c) (fastSyncUntilHeight c) L block"
        using ver(2) pw(1) by blast
      have adm: "admissible L block" using process_valid_admissible [OF m(4) valid] .
      note par = parent_work_ok [OF ver(1) adm q]
      have v2: "view_inv C B L c2" using par by blast
      obtain bs where bs: "tree_ok C ?K" "branch ?K ?h (block # bs)" "unat w = work_of (block # bs)"
        using pending_block [OF v2 adm None _ pw(3)] par pw(2) by blast
      define c3 where "c3 = cacheTrimLocked
        ((cacheTouchLocked ?h (c2\<lparr>blocks := fmupd ?h block (blocks c2)\<rparr>))\<lparr>workAt := fmupd ?h w (workAt c2)\<rparr>)"
      have p3: "pending_inv C B L ?K c3" unfolding c3_def by (rule pending_enter [OF v2 bs(1) refl None bs(2,3)])
      have tw: "unat (totalWork c3) = main_work L" using pending_tip [OF p3] by (simp add: main_work_def)
      have run: "ProcessBlock C P B now block c =
          (if totalWork c3 < w then (case reorganizeTo C B ?h c3 of
             (Inl e, c) \<Rightarrow> (Inl (ReorgFailed e), cacheForgetLocked ?h c) | (Inr _, c) \<Rightarrow> (Inr (True, True), c))
           else (case SaveBlock C B block (storage c3) of
             (Inl e, st) \<Rightarrow> (Inl (ForkSaveFailed e), c3\<lparr>storage := st\<rparr>) | (Inr _, st) \<Rightarrow> (Inr (True, False), c3\<lparr>storage := st\<rparr>)))"
        using new v pw q unfolding c3_def by (simp add: ProcessBlock_def Let_def split: sum.split prod.split)
      show ?thesis
      proof (cases "totalWork c3 < w")
        case heavier: True
        obtain x c4 where x: "reorganizeTo C B ?h c3 = (x, c4)" by fastforce
        have "dom ?K = insert ?h (dom (lblocks L))" "?K ?h = Some block" by auto
        note re = reorganizeTo_ok [OF assms(1) p3 this x]
        show ?thesis
        proof (cases x)
          case (Inl e)
          then have "pending_inv C B L ?K c4" using re by blast
          moreover have "r = Inl (ReorgFailed e)" "c' = cacheForgetLocked ?h c4"
            using Inl assms(3) run heavier x by auto
          ultimately show ?thesis using pending_leave None process_step.refused by blast
        next
          case (Inr u)
          then have mv: "moved C B L ?K ?h c4" using re by blast
          have rc: "r = Inr (True, True)" "c' = c4" using Inr assms(3) run heavier x by auto
          obtain commit :: ReorgCommit and L' old nw where mv': "view_inv C B L' c4" "lblocks L' = ?K" "branch ?K ?h nw"
            "chain_of C L old" "chain_of C L' nw" "nw = rev (Connect commit) @ drop (length (Disconnect commit)) old"
            "length (Disconnect commit) \<le> unat MaxReorgDepth" "length (Disconnect commit) < length old"
            using mv unfolding moved_def by blast
          have nw: "nw = block # bs" using branch_unique [OF mv'(3) bs(2)] .
          have "work_of old < work_of nw"
            using chain_of_work [OF mv'(4)] tw heavier bs(3) nw by (simp add: word_less_nat_alt)
          then have "?step (Inr (True, True)) L'"
            using process_step.main [OF None valid mv'(2,4,5) _ _ mv'(6,7,8)] nw by simp
          then show ?thesis using mv'(1) rc by blast
        qed
      next
        case False
        then have light: "work_of (block # bs) \<le> main_work L" using tw bs(3) by (simp add: not_less word_le_nat_alt)
        have "bdiff block \<noteq> 0" using adm by (simp add: admissible_def)
        then have "0 < unat (bdiff block)" by (simp add: unat_gt_0)
        then have tip: "ltip L \<noteq> None" using light by (cases "ltip L") (auto simp: main_work_def ledger_tip_def)
        obtain x st where x: "SaveBlock C B block (storage c3) = (x, st)" by fastforce
        have s3: "stores B (storage c3) L" using p3 by (simp add: pending_inv_def mem_ok_def)
        have "x \<noteq> Inl e" for e using assms(3) assms(4) [of e] run False x by auto
        then have saved: "x = Inr ()" "stores B st (ledger_save C block L)"
          using SaveBlock_refines [OF m(3) s3 x] by blast+
        moreover from this have "r = Inr (True, False)" "c' = c3\<lparr>storage := st\<rparr>"
          using assms(3) run False x by auto
        ultimately show ?thesis
          using pending_save [OF p3 None tip] process_step.side [OF None valid bs(2) light] by blast
      qed
    qed
  qed
qed

section \<open>The first block\<close>

lemma addBlockInternal_ok:
  assumes "sha3_32 C" "view_inv C B L c" "admissible L block" "ltip L = None"
    and "addBlockInternal C B block c = (r, c')" "r = Inr ()"
  shows "\<exists>L'. view_inv C B L' c' \<and> chain_of C L' [block] \<and> lblocks L' = [Hash C block \<mapsto> block]"
proof -
  let ?h = "Hash C block"
  have m: "bolt_ok B" "ledger_ok C L" "mem_ok B L (lblocks L) c" "stores B (storage c) L"
    using assms(2) by (auto simp: view_inv_def mem_ok_def)
  have empty: "lblocks L = Map.empty" "lheights L = Map.empty" "limages L = Map.empty"
    using m(2) assms(4) by (auto simp: ledger_ok_def)
  obtain w us where h0: "bheight block = 0" and w: "addCumulativeWork 0 (bdiff block) = Inr w"
    and us: "block_utxos C (bheight block) (Transactions block) = Some us"
    using assms(5,6) by (auto simp: addBlockInternal_def split: if_splits sum.splits option.splits prod.splits)
  have im: "block_images block = []" using assms(3) h0 by (simp add: admissible_def)
  then have ki: "mark_block_images block (keyImages c) = keyImages c"
    by (simp add: mark_block_images_def spent_images_block block_images_def)
  obtain x st where x: "CommitBlock C B \<lparr>bc_Block = block, bc_Height = bheight block, bc_Hash = ?h, bc_Work = w,
      bc_IsMainTip = True, bc_NewOutputs = us, bc_SpentKeyImgs = spent_images (Transactions block)\<rparr> (storage c) = (x, st)"
    by fastforce
  let ?L = "(ledger_connect C block L)\<lparr>ltip := Some (?h, bheight block, w)\<rparr>"
  let ?t = "cacheTouchLocked ?h (c\<lparr>storage := st, blocks := fmupd ?h block (blocks c)\<rparr>)"
  let ?c = "?t\<lparr>workAt := fmupd ?h w (workAt c), byHeight := (byHeight c)(bheight block \<mapsto> ?h), bestHash := ?h,
      height := bheight block, totalWork := w, canonicalRingIndexDirty := True\<rparr>"
  have res: "x = Inr ()" "c' = (cacheTrimLocked ?c)\<lparr>timestamps := push_timestamp (bts block) (timestamps (cacheTrimLocked ?c))\<rparr>"
    using assms(5,6) h0 w us x assms(4) ki
    by (auto simp: addBlockInternal_def Let_def stores_tip [OF m(4)] split: sum.splits if_splits)
  then have st: "stores B st ?L" using CommitBlock_genesis [OF m(1) assms(1) m(4) x] by auto
  have lb: "lblocks ?L = [?h \<mapsto> block]" by (simp add: ledger_connect_def empty)
  have tree: "tree_ok C [?h \<mapsto> block]"
    using admissible_insert [of C L block] assms(3) m(2) h0 by (simp add: ledger_ok_def empty)
  have br: "branch [?h \<mapsto> block] ?h [block]" using h0 by (intro branch.root) simp_all
  have wv: "unat w = work_of [block]" using addCumulativeWork_value [OF w] by simp
  have "main_is C ?L [block]"
    using h0 im by (auto simp: main_is_def ledger_connect_def empty unat_eq_zero dom_def)
  then have ch: "chain_of C ?L [block]" using br wv h0 lb by (simp add: chain_of_def)
  then have lok: "ledger_ok C ?L" using tree lb by (auto simp: ledger_ok_def chain_of_def)
  have wf: "cache_wf ?c"
    using m(3) touch_wf(2) [of c ?h block] touch_index [of ?h]
    by (auto simp: mem_ok_def cache_wf_def cacheTouchLocked_def)
  have none: "fmlookup (blocks c) = Map.empty" "\<And>k. fmlookup (workAt c) k = None"
    using m(3) empty by (auto simp: mem_ok_def map_le_def dom_def fun_eq_iff elim: branch_cases)
      (metis branch_hd empty(1) option.distinct(1) option.exhaust)+
  have "mem_ok B ?L (lblocks ?L) ?c"
    using m(3) st br wv lb none wf unfolding mem_ok_def
    by (auto simp: ring_ok_def ledger_connect_def empty map_le_def)
  note trim = mem_ok_trim [OF lok this]
  then have "view_inv C B ?L (cacheTrimLocked ?c)" using m(1) lok by (simp add: view_inv_def)
  then have "view_inv C B ?L c'"
    unfolding res(2) by (simp add: view_inv_def mem_ok_def ring_ok_def cache_wf_def cacheOver_def)
  then show ?thesis using ch lb by blast
qed

end
