(* ===== verification/ChainRestart.thy ===== *)
theory ChainRestart
  imports ChainSafety
begin

text \<open>
  Opening a chain on a store that holds a consistent ledger succeeds and yields a state that agrees
  with it: the recent main chain is loaded, and the cumulative works, first computed from the start
  of the loaded window, are shifted to the stored total.
\<close>

section \<open>The loading loop\<close>

text \<open>\<open>R\<close> is the main chain in ascending order, \<open>s\<close> the first height loaded and \<open>k\<close> the next one.\<close>

definition loading :: "crypto \<Rightarrow> 'b bolt \<Rightarrow> ledger \<Rightarrow> Block list \<Rightarrow> nat \<Rightarrow> nat \<Rightarrow> 'b chain \<Rightarrow> bool" where
  "loading C B L R s k c \<longleftrightarrow>
     stores B (storage c) L \<and> cache_wf c \<and> fcard (cacheIndex c) \<le> k - s
   \<and> fmlookup (blocks c) \<subseteq>\<^sub>m lblocks L \<and> byHeight c \<subseteq>\<^sub>m lheights L \<and> dom (keyImages c) \<subseteq> dom (limages L)
   \<and> (\<forall>h w. fmlookup (workAt c) h = Some w \<longrightarrow>
        (\<exists>i. s \<le> i \<and> i < k \<and> h = Hash C (R ! i) \<and> unat w + work_of (take s R) = work_of (take (Suc i) R)))
   \<and> (s < k \<longrightarrow> fmlookup (workAt c) (Hash C (R ! (k - 1))) \<noteq> None)"

definition load_base :: "'b chain \<Rightarrow> 'b chain \<Rightarrow> bool" where
  "load_base c' c \<longleftrightarrow> bestHash c' = bestHash c \<and> height c' = height c \<and> totalWork c' = totalWork c
     \<and> cacheCap c' = cacheCap c \<and> trustedCheckpoints c' = trustedCheckpoints c"

lemma main_nth:
  assumes "ledger_ok C L" "chain_of C L (rev R)" "i < length R"
  shows "lheights L (word_of_nat i) = Some (Hash C (R ! i))" "lblocks L (Hash C (R ! i)) = Some (R ! i)"
    "unat (bheight (R ! i)) = i" "length R < 2 ^ 64"
    "0 < i \<Longrightarrow> bprev (R ! i) = Hash C (R ! (i - 1))"
    "set (block_images (R ! i)) \<subseteq> dom (limages L)"
    "branch (lblocks L) (Hash C (R ! i)) (rev (take (Suc i) R))"
proof -
  obtain tip n w where t: "branch (lblocks L) tip (rev R)" "main_is C L (rev R)"
    using assms(2) by (auto simp: chain_of_def)
  have tr: "tree_ok C (lblocks L)" "block_tree C (lblocks L)" using assms(1) by (auto simp: ledger_ok_def tree_ok_def)
  show len: "length R < 2 ^ 64" using branch_length_work [OF tr(1) t(1)] by simp
  have u: "unat (word_of_nat i :: u64) = i" using len assms(3) by (simp add: unat_of_nat)
  then show "lheights L (word_of_nat i) = Some (Hash C (R ! i))" using t(2) assms(3) by (simp add: main_is_def)
  show "lblocks L (Hash C (R ! i)) = Some (R ! i)" using branch_filed [OF tr(2) t(1)] assms(3) by simp
  let ?j = "length R - Suc i"
  have j: "?j < length (rev R)" "rev R ! ?j = R ! i" using assms(3) by (auto simp: rev_nth)
  show "unat (bheight (R ! i)) = i" using branch_heights [OF tr(2) t(1) j(1)] j(2) assms(3) by simp
  have dr: "drop ?j (rev R) = rev (take (Suc i) R)" using assms(3) by (simp add: rev_take)
  show br: "branch (lblocks L) (Hash C (R ! i)) (rev (take (Suc i) R))"
    using branch_drop [OF tr(2) t(1) j(1)] unfolding j(2) dr .
  have "set (images_of (rev R)) = dom (limages L)" using t(2) by (simp add: main_is_def)
  moreover have "set (block_images (R ! i)) \<subseteq> set (images_of (rev R))"
    using nth_mem [OF assms(3)] by (auto simp: images_of_def)
  ultimately show "set (block_images (R ! i)) \<subseteq> dom (limages L)" by simp
  show "bprev (R ! i) = Hash C (R ! (i - 1))" if "0 < i"
  proof -
    have "rev (take (Suc i) R) = R ! i # rev (take i R)" using assms(3) by (simp add: take_Suc_conv_app_nth)
    moreover have "rev (take i R) = R ! (i - 1) # rev (take (i - 1) R)"
      using that assms(3) by (metis Suc_diff_1 less_imp_diff_less rev_eq_Cons_iff rev_rev_ident take_Suc_conv_app_nth)
    ultimately have "branch (lblocks L) (Hash C (R ! i)) (R ! i # R ! (i - 1) # rev (take (i - 1) R))"
      using br by simp
    then have "branch (lblocks L) (bprev (R ! i)) (R ! (i - 1) # rev (take (i - 1) R))"
      by (auto elim: branch_ConsE)
    then show ?thesis using branch_hd tree_hash [OF tr(2)] by fastforce
  qed
qed

lemma loading_work:
  "loading C B L R s k c \<Longrightarrow> fmlookup (workAt c) h = Some w \<Longrightarrow>
   \<exists>i. s \<le> i \<and> i < k \<and> h = Hash C (R ! i) \<and> unat w + work_of (take s R) = work_of (take (Suc i) R)"
  by (simp add: loading_def)

lemma main_inj:
  assumes "ledger_ok C L" "chain_of C L (rev R)" "i < length R" "j < length R" "Hash C (R ! i) = Hash C (R ! j)"
  shows "i = j"
  using main_nth(2,3) [OF assms(1,2,3)] main_nth(2,3) [OF assms(1,2,4)] assms(5) by (metis option.inject)

lemma load_step:
  assumes L: "ledger_ok C L" "chain_of C L (rev R)" and k: "s \<le> k" "k < length R" and c: "loading C B L R s k c"
  shows "\<exists>c'. load_loop B (word_of_nat k # hs) c = load_loop B hs c' \<and> loading C B L R s (Suc k) c' \<and> load_base c' c"
proof -
  let ?h = "Hash C (R ! k)"
  note nth = main_nth [OF L k(2)]
  have st: "stores B (storage c) L" using c by (simp add: loading_def)
  have pos: "(0 :: u64) < word_of_nat k \<longleftrightarrow> 0 < k"
    using nth(4) k(2) by (simp add: word_less_nat_alt unat_of_nat)
  define p where "p = load_parent_work (word_of_nat k) (R ! k) (workAt c)"
  have p: "unat p + work_of (take s R) = work_of (take k R)"
  proof (cases "s < k")
    case True
    then obtain w where w: "fmlookup (workAt c) (Hash C (R ! (k - 1))) = Some w" using c by (auto simp: loading_def)
    then obtain i where i: "i < k" "Hash C (R ! (k - 1)) = Hash C (R ! i)"
      "unat w + work_of (take s R) = work_of (take (Suc i) R)"
      using loading_work [OF c w] by blast
    then have "k - 1 = i" using main_inj [OF L _ _ i(2)] k(2) by simp
    then show ?thesis using i(3) nth(5) True w by (auto simp: p_def load_parent_work_def pos)
  next
    case False
    then have "fmlookup (workAt c) h = None" for h
      using loading_work [OF c] k(1) by (metis le_less_trans not_None_eq)
    then show ?thesis using False k(1) by (simp add: p_def load_parent_work_def)
  qed
  have le: "work_of (take (Suc k) R) < 2 ^ 64"
  proof -
    have "work_of (rev (take (Suc k) R)) < 2 ^ 64"
      using nth(7) L(1) by (auto simp: ledger_ok_def tree_ok_def branch_ok_def)
    then show ?thesis by (simp add: work_of_def rev_map [symmetric])
  qed
  have W: "work_of (take (Suc k) R) = work_of (take k R) + unat (bdiff (R ! k))"
    using k(2) by (simp add: take_Suc_conv_app_nth)
  then have add: "addCumulativeWork p (bdiff (R ! k)) = Inr (p + bdiff (R ! k))"
    using p le by (simp add: addCumulativeWork_Inr)
  have val: "unat (p + bdiff (R ! k)) + work_of (take s R) = work_of (take (Suc k) R)"
    using addCumulativeWork_value [OF add] p W by simp
  let ?t = "cacheTouchLocked ?h (c\<lparr>blocks := fmupd ?h (R ! k) (blocks c)\<rparr>)"
  let ?c = "?t\<lparr>byHeight := (byHeight c)(word_of_nat k \<mapsto> ?h), workAt := fmupd ?h (p + bdiff (R ! k)) (workAt c),
     timestamps := push_timestamp (bts (R ! k)) (timestamps c),
     keyImages := fold (\<lambda>ki m. m(ki \<mapsto> word_of_nat k)) (spent_images (Transactions (R ! k))) (keyImages c)\<rparr>"
  have run: "load_loop B (word_of_nat k # hs) c = load_loop B hs ?c"
    using add unfolding p_def by (simp add: stores_reads [OF st] nth(1,2) Let_def)
  have wf: "cache_wf ?c"
    using c touch_wf(2) [of c ?h "R ! k"] touch_index [of ?h]
    by (auto simp: loading_def cache_wf_def cacheTouchLocked_def)
  have "fcard (finsert ?h (cacheIndex c)) \<le> Suc (fcard (cacheIndex c))" by (simp add: fcard_finsert_le fcard_finsert_if)
  moreover have "fcard (cacheIndex c) \<le> k - s" using c by (simp add: loading_def)
  ultimately have card: "fcard (cacheIndex ?c) \<le> Suc k - s"
    using k(1) by (simp add: cacheTouchLocked_def Suc_diff_le)
  have ki: "dom (keyImages ?c) \<subseteq> dom (limages L)"
    using c nth(6) by (auto simp: loading_def fold_mark spent_images_block block_images_def dom_def split: if_splits)
  have "\<exists>i. s \<le> i \<and> i < Suc k \<and> h = Hash C (R ! i) \<and> unat w + work_of (take s R) = work_of (take (Suc i) R)"
    if "fmlookup (workAt ?c) h = Some w" for h w
  proof (cases "h = ?h")
    case True
    then show ?thesis using that val k(1) by (intro exI [of _ k]) auto
  next
    case False
    then have "fmlookup (workAt c) h = Some w" using that by simp
    then show ?thesis using loading_work [OF c] less_SucI by metis
  qed
  moreover have "fmlookup (blocks ?c) \<subseteq>\<^sub>m lblocks L" "byHeight ?c \<subseteq>\<^sub>m lheights L"
    using c nth(1,2) by (auto simp: loading_def map_le_def)
  ultimately have "loading C B L R s (Suc k) ?c"
    unfolding loading_def using wf card ki st by auto
  moreover have "load_base ?c c" by (simp add: load_base_def cacheTouchLocked_def)
  ultimately show ?thesis using run by blast
qed

lemma load_loop_ok:
  assumes L: "ledger_ok C L" "chain_of C L (rev R)"
  shows "\<lbrakk>s \<le> k; k \<le> length R; loading C B L R s k c\<rbrakk> \<Longrightarrow>
    \<exists>c'. load_loop B (map word_of_nat [k..<length R]) c = Inr c' \<and> loading C B L R s (length R) c' \<and> load_base c' c"
proof (induction "length R - k" arbitrary: k c)
  case 0
  then show ?case by (auto simp: load_base_def)
next
  case (Suc m)
  then have k: "k < length R" and m: "m = length R - Suc k" by simp_all
  obtain c1 where c1: "load_loop B (word_of_nat k # map word_of_nat [Suc k..<length R]) c
      = load_loop B (map word_of_nat [Suc k..<length R]) c1" "loading C B L R s (Suc k) c1" "load_base c1 c"
    using load_step [OF L Suc.prems(1) k Suc.prems(3)] by blast
  obtain c' where "load_loop B (map word_of_nat [Suc k..<length R]) c1 = Inr c'" "loading C B L R s (length R) c'"
    "load_base c' c1"
    using Suc.hyps(1) [of "Suc k" c1] Suc.prems(1) k c1(2) m by auto
  then show ?case using c1 k by (auto simp: upt_conv_Cons load_base_def simp del: load_loop.simps)
qed

section \<open>The loaded state\<close>

lemma empty_cache [simp]: "fmlookup fmempty \<subseteq>\<^sub>m m" "fcard {||} = 0"
  by (auto simp: map_le_def fcard.rep_eq)

lemma trim_id: "\<not> cacheOver c \<Longrightarrow> cacheTrimLocked c = c"
  by (simp add: cacheTrimLocked_def trim_fuel_def)

lemma cap_bound: "164 \<le> chainCacheCapFromEnv env"
  by (simp add: chainCacheCapFromEnv_def chainProtectedBack_def MaxReorgDepth_def LWMAWindow_def Let_def max_def
      split: option.split)

lemma offset_ok:
  assumes "\<And>h w. fmlookup m h = Some w \<Longrightarrow> unat w + unat offset < 2 ^ 64"
  shows "\<exists>m'. offset_work offset m = Inr m' \<and> fmdom m' = fmdom m
    \<and> (\<forall>h w'. fmlookup m' h = Some w' \<longrightarrow> (\<exists>w. fmlookup m h = Some w \<and> unat w' = unat w + unat offset))"
proof -
  have ok: "addCumulativeWork w offset = Inr (w + offset)" if "fmlookup m h = Some w" for h w
    using assms [OF that] by (simp add: addCumulativeWork_Inr)
  then have "\<not> - 1 - w < offset" if "fmlookup m h = Some w" for h w
    using ok [OF that] by (auto simp: addCumulativeWork_def split: if_splits)
  then have "offset_work offset m = Inr (fmmap (\<lambda>w. w + offset) m)"
    by (auto simp: offset_work_def fmlookup_ran_iff)
  moreover have "unat (w + offset) = unat w + unat offset" if "fmlookup m h = Some w" for h w
    using addCumulativeWork_value [OF ok [OF that]] .
  ultimately show ?thesis by (auto simp: fmdom_map)
qed

lemma restart_ok:
  assumes "bolt_ok B" "ledger_ok C L" "stores B st L"
  shows "\<exists>c. NewChain B env st = Inr c \<and> view_inv C B L c"
proof -
  let ?c0 = "\<lparr>storage = st, blocks = fmempty, workAt = fmempty, cacheCap = chainCacheCapFromEnv env, cacheLRU = [],
        cacheIndex = {||}, byHeight = Map.empty, timestamps = [], bestHash = replicate 32 0, height = 0,
        totalWork = 0, keyImages = Map.empty, canonicalRingIndex = {}, canonicalRingIndexDirty = True,
        canonicalRingIndexTip = replicate 32 0, canonicalRingIndexReady = False,
        trustedCheckpoints = None, fastSyncUntilHeight = 0\<rparr> :: 'a chain"
  show ?thesis
  proof (cases "ltip L")
    case None
    then have "NewChain B env st = Inr ?c0" by (simp add: NewChain_def loadFromStorage_def stores_tip [OF assms(3)])
    moreover have "view_inv C B L ?c0"
      using assms None cap_bound [of env]
      by (simp add: view_inv_def mem_ok_def ring_ok_def cache_wf_def cacheOver_def)
    ultimately show ?thesis by blast
  next
    case (Some t)
    obtain tip n w where t: "ltip L = Some (tip, n, w)" using Some by (cases t) auto
    obtain bs where ch: "chain_of C L bs" using ledger_chain [OF assms(2)] t by auto
    then have bs: "branch (lblocks L) tip bs" "length bs = Suc (unat n)" "unat w = work_of bs"
      using t by (auto simp: chain_of_def)
    define R where "R = rev bs"
    have R: "chain_of C L (rev R)" "length R = Suc (unat n)" "work_of R = unat w"
      using ch bs by (auto simp: R_def work_of_def rev_map [symmetric])
    define s where "s = preload_start n"
    have s: "unat s \<le> unat n" "unat n - unat s \<le> 100"
      by (auto simp: s_def preload_start_def LWMAWindow_def MaxReorgDepth_def max_def word_le_nat_alt word_less_nat_alt unat_sub_if_size
          split: if_splits)
    have hs: "heights_upto s n = map word_of_nat [unat s..<length R]" by (simp only: heights_upto_def R(2))
    let ?c1 = "?c0\<lparr>bestHash := tip, height := n, totalWork := w\<rparr>"
    have "loading C B L R (unat s) (unat s) ?c1"
      using assms(3) by (simp add: loading_def cache_wf_def)
    then obtain c where c: "load_loop B (heights_upto s n) ?c1 = Inr c" "loading C B L R (unat s) (length R) c"
      "load_base c ?c1"
      using load_loop_ok [OF assms(2) R(1), of "unat s" "unat s" B ?c1] s(1) R(2) unfolding hs by auto
    have wf: "cache_wf c" and card: "fcard (cacheIndex c) \<le> 101"
      using c(2) s R(2) by (auto simp: loading_def)
    have cap: "164 \<le> cacheCap c" using c(3) cap_bound by (simp add: load_base_def)
    have "fcard (fmdom (blocks c)) \<le> fcard (cacheIndex c)"
      using wf by (auto simp: cache_wf_def fcard.rep_eq intro: card_mono)
    then have small: "\<not> cacheOver c" using card cap by (auto simp: cacheOver_def)
    obtain cw where cw: "fmlookup (workAt c) (Hash C (R ! unat n)) = Some cw" using c(2) s(1) R(2) by (auto simp: loading_def)
    have tip: "tip = Hash C (R ! unat n)"
      using branch_hd [OF bs(1)] assms(2) tree_hash bs(2)
      by (metis R_def Suc_n_not_le_n branch_nonempty bs(1) diff_Suc_1 hd_conv_nth last_conv_nth last_rev ledger_ok_def
          length_rev list.size(3) nat.distinct(1) tree_ok_def)
    have cwv: "unat cw + work_of (take (unat s) R) = unat w"
    proof -
      obtain i where "i < length R" "Hash C (R ! unat n) = Hash C (R ! i)"
        "unat cw + work_of (take (unat s) R) = work_of (take (Suc i) R)"
        using loading_work [OF c(2) cw] by blast
      moreover from this have "unat n = i" using main_inj [OF assms(2) R(1)] R(2) by simp
      ultimately show ?thesis using R(2,3) by simp
    qed
    have off: "unat (w - cw) = work_of (take (unat s) R)" "\<not> w < cw"
      using cwv by (auto simp: unat_sub_if_size word_less_nat_alt)
    have wv: "\<exists>i < length R. h = Hash C (R ! i) \<and> unat x + unat (w - cw) = work_of (take (Suc i) R)"
      if "fmlookup (workAt c) h = Some x" for h x
      using loading_work [OF c(2) that] off(1) by metis
    have fit: "unat x + unat (w - cw) < 2 ^ 64" if hx: "fmlookup (workAt c) h = Some x" for h x
    proof -
      obtain i where "unat x + unat (w - cw) = work_of (take i R)" using wv [OF hx] by blast
      also have "\<dots> \<le> work_of R" by (metis append_take_drop_id le_add1 work_of_simps(3))
      finally show ?thesis using R(3) unat_bound [of w] by simp
    qed
    obtain m' where m': "offset_work (w - cw) (workAt c) = Inr m'" "fmdom m' = fmdom (workAt c)"
      "\<And>h x'. fmlookup m' h = Some x' \<Longrightarrow> \<exists>x. fmlookup (workAt c) h = Some x \<and> unat x' = unat x + unat (w - cw)"
      using offset_ok [of "workAt c" "w - cw"] fit by metis
    define m where "m = (if 0 < w - cw then m' else workAt c)"
    have c': "bestHash c = tip" "height c = n" "totalWork c = w" using c(3) by (simp_all add: load_base_def)
    have run: "NewChain B env st = Inr (c\<lparr>workAt := m, canonicalRingIndexDirty := True\<rparr>)"
    proof -
      have "fix_work c = Inr (c\<lparr>workAt := m, canonicalRingIndexDirty := True\<rparr>)"
        using cw tip off(2) m'(1) c' by (simp add: fix_work_def m_def Let_def)
      then show ?thesis
        using c(1) by (simp add: NewChain_def loadFromStorage_def stores_tip [OF assms(3)] t trim_id [OF small] s_def)
    qed
    have "\<exists>bs. branch (lblocks L) h bs \<and> unat x' = work_of bs" if "fmlookup m h = Some x'" for h x'
    proof -
      have "\<not> 0 < w - cw \<longrightarrow> unat (w - cw) = 0" by (simp add: word_less_nat_alt)
      then obtain x where x: "fmlookup (workAt c) h = Some x" "unat x' = unat x + unat (w - cw)"
        using m'(3) [of h x'] \<open>fmlookup m h = Some x'\<close> by (auto simp: m_def split: if_splits)
      obtain i where i: "i < length R" "h = Hash C (R ! i)" "unat x + unat (w - cw) = work_of (take (Suc i) R)"
        using wv [OF x(1)] by blast
      have "branch (lblocks L) h (rev (take (Suc i) R))" using main_nth(7) [OF assms(2) R(1) i(1)] i(2) by simp
      moreover have "unat x' = work_of (rev (take (Suc i) R))" using x i by (simp add: work_of_def rev_map [symmetric])
      ultimately show ?thesis by blast
    qed
    moreover have "fmdom m = fmdom (workAt c)" using m'(2) by (simp add: m_def)
    ultimately have "view_inv C B L (c\<lparr>workAt := m, canonicalRingIndexDirty := True\<rparr>)"
      using assms(1,2) c(2) c' cap small wf t
      by (simp add: view_inv_def mem_ok_def loading_def ring_ok_def cache_wf_def cacheOver_def)
    then show ?thesis using run by blast
  qed
qed

end
