(* ===== verification/ChainQueries.thy ===== *)
theory ChainQueries
  imports Chain
begin

text \<open>
  The rest of the chain's operations (\<open>src/block.go\<close>): the next difficulty and median time as the
  miner sees them, validation outside block processing, the start-up audit with and without
  checkpoints, truncation, and the queries of wallet and API.

  A nil dereference or an index out of range is \<^const>\<open>None\<close>.
\<close>

section \<open>Tip queries\<close>

definition HasGenesis :: "'b bolt \<Rightarrow> 'b chain \<Rightarrow> bool" where
  "HasGenesis B c = (case GetTip B (storage c) of (_, _, _, found) \<Rightarrow> found)"

definition medianTimestampLocked :: "'b chain \<Rightarrow> nat \<Rightarrow> i64 option" where
  "medianTimestampLocked c n =
     (if timestamps c = [] then Some 0
      else let count = (if length (timestamps c) < n then length (timestamps c) else n) in
           if count = 0 then None
           else Some (median_of (drop (length (timestamps c) - count) (timestamps c))))"

text \<open>\<open>c.byHeight\<close> of an unknown height reads as the zero hash.\<close>

definition hash_at :: "'b chain \<Rightarrow> u64 \<Rightarrow> hash" where
  "hash_at c h = (case byHeight c h of Some hash \<Rightarrow> hash | None \<Rightarrow> replicate 32 0)"

definition nextDifficultyLocked :: "'b chain \<Rightarrow> u64 option" where
  "nextDifficultyLocked c =
     (if height c < word_of_nat LWMAWindow then Some MinDifficulty
      else map_option lwma_window
             (those (map (\<lambda>i. fmlookup (blocks c) (hash_at c (height c - word_of_nat LWMAWindow + word_of_nat i)))
                [0..<Suc LWMAWindow])))"

record BlockTemplateParams =
  tp_Height :: u64
  tp_PrevHash :: hash
  tp_Difficulty :: u64

definition TemplateParams :: "'b chain \<Rightarrow> BlockTemplateParams option" where
  "TemplateParams c =
     map_option (\<lambda>d. \<lparr>tp_Height = height c + 1, tp_PrevHash = bestHash c, tp_Difficulty = d\<rparr>) (nextDifficultyLocked c)"

definition IsFinalized :: "'b chain \<Rightarrow> u64 \<Rightarrow> bool" where
  "IsFinalized c h = (if height c < h then False else MaxReorgDepth \<le> height c - h)"

section \<open>Finding a transaction\<close>

definition hex_digit :: "nat \<Rightarrow> char" where
  "hex_digit n = ''0123456789abcdef'' ! n"

definition go_hex :: "bytes \<Rightarrow> string" where
  "go_hex bs = concat (map (\<lambda>b. [hex_digit (unat b div 16), hex_digit (unat b mod 16)]) bs)"

text \<open>\<^const>\<open>None\<close> when computing a transaction id panics.\<close>

fun find_in_txs :: "crypto \<Rightarrow> string \<Rightarrow> Transaction list \<Rightarrow> Transaction option option" where
  "find_in_txs C hashStr [] = Some None"
| "find_in_txs C hashStr (tx # txs) =
     (case TxID C tx of
        None \<Rightarrow> None
      | Some txID \<Rightarrow> if go_hex txID = hashStr then Some (Some tx) else find_in_txs C hashStr txs)"

fun find_down :: "crypto \<Rightarrow> 'b bolt \<Rightarrow> 'b chain \<Rightarrow> string \<Rightarrow> u64 list \<Rightarrow> (Transaction \<times> u64) option option" where
  "find_down C B c hashStr [] = Some None"
| "find_down C B c hashStr (h # hs) =
     (case getBlockByHeightLocked B c h of
        None \<Rightarrow> find_down C B c hashStr hs
      | Some block \<Rightarrow>
          (case find_in_txs C hashStr (Transactions block) of
             None \<Rightarrow> None
           | Some (Some tx) \<Rightarrow> Some (Some (tx, h))
           | Some None \<Rightarrow> find_down C B c hashStr hs))"

definition FindTxByHashStr :: "crypto \<Rightarrow> 'b bolt \<Rightarrow> 'b chain \<Rightarrow> string \<Rightarrow> (Transaction \<times> u64) option option" where
  "FindTxByHashStr C B c hashStr = find_down C B c hashStr (rev (heights_upto 0 (height c)))"

section \<open>Ancestor path\<close>

text \<open>Fills \<open>path[b.Height]\<close> walking down; an index past the end is \<^const>\<open>None\<close>.\<close>

fun path_loop :: "'b bolt \<Rightarrow> nat \<Rightarrow> hash \<Rightarrow> hash list \<Rightarrow> 'b chain \<Rightarrow> hash list option option \<times> 'b chain" where
  "path_loop B 0 current path c = (None, c)"
| "path_loop B (Suc fuel) current path c =
     (case getBlockByHashLocked B c current of
        (None, c) \<Rightarrow> (Some None, c)
      | (Some b, c) \<Rightarrow>
          if length path \<le> unat (bheight b) then (None, c)
          else let path = path[unat (bheight b) := current] in
               if bheight b = 0 then (Some (Some path), c)
               else path_loop B fuel (bprev b) path c)"

definition getAncestorPath :: "'b bolt \<Rightarrow> hash \<Rightarrow> 'b chain \<Rightarrow> hash list option option \<times> 'b chain" where
  "getAncestorPath B tip c =
     (case getBlockByHashLocked B c tip of
        (None, c) \<Rightarrow> (Some None, c)
      | (Some block, c) \<Rightarrow>
          path_loop B (Suc (unat (bheight block))) tip (replicate (Suc (unat (bheight block))) (replicate 32 0)) c)"

section \<open>Validation outside block processing\<close>

definition validateTimestamp :: "BlockHeader \<Rightarrow> 'b chain \<Rightarrow> i64 \<Rightarrow> block_error + unit" where
  "validateTimestamp header c now =
     (case medianTimestampLocked c 11 of
        None \<Rightarrow> Inl (MedianContext BadMedianWindow)
      | Some medianTime \<Rightarrow> validateTimestampWithMedian header medianTime now)"

fun validate_each :: "crypto \<Rightarrow> KeyImageChecker \<Rightarrow> 's RingMemberChecker \<Rightarrow> nat \<Rightarrow> Transaction list \<Rightarrow> 's
    \<Rightarrow> (block_error + unit) \<times> 's" where
  "validate_each C isSpent check i [] s = (Inr (), s)"
| "validate_each C isSpent check i (tx # txs) s =
     (case ValidateTransaction C tx isSpent (Some check) s of
        (Inl e, s') \<Rightarrow> (Inl (BadTransaction i e), s')
      | (Inr _, s') \<Rightarrow> validate_each C isSpent check (Suc i) txs s')"

text \<open>\<open>ValidateBlock\<close>; a panic of \<open>NextDifficulty\<close> or of the Merkle root is an error of its own.\<close>

definition ValidateBlock :: "crypto \<Rightarrow> net_params \<Rightarrow> 'b bolt \<Rightarrow> i64 \<Rightarrow> Block \<Rightarrow> 'b chain
    \<Rightarrow> (block_error + unit) \<times> 'b chain" where
  "ValidateBlock C P B now block c =
     (let header = Header block; expectedHeight = height c + 1 in
      if Version header = 0 then (Inl BadBlockVersion, c)
      else if Height header \<noteq> expectedHeight
      then (if Height header \<le> height c then (Inl StaleBlock, c)
            else (Inl (WrongHeight expectedHeight (Height header)), c))
      else if PrevHash header \<noteq> bestHash c then (Inl StaleBlock, c)
      else case validateTimestamp header c now of
        Inl e \<Rightarrow> (Inl e, c)
      | Inr _ \<Rightarrow>
     (case nextDifficultyLocked c of
        None \<Rightarrow> (Inl (DifficultyContext InsufficientAncestors), c)
      | Some expectedDiff \<Rightarrow>
          if Difficulty header \<noteq> expectedDiff then (Inl (WrongDifficulty expectedDiff (Difficulty header)), c)
          else if \<not> validatePoW C header then (Inl BadProofOfWork, c)
          else if MaxBlockSize < block_Size block then (Inl (BlockTooLarge (block_Size block)), c)
          else case Transactions block of
            [] \<Rightarrow> (Inl NoTransactions, c)
          | coinbase # others \<Rightarrow>
              if \<not> IsCoinbase coinbase then (Inl FirstNotCoinbase, c)
              else if \<exists>tx \<in> set others. IsCoinbase tx then (Inl MultipleCoinbase, c)
              else case ComputeMerkleRoot C block of
                None \<Rightarrow> (Inl MerklePanic, c)
              | Some merkleRoot \<Rightarrow>
                  if merkleRoot \<noteq> MerkleRoot header then (Inl WrongMerkleRoot, c)
                  else case validate_each C (isKeyImageSpentLocked B c) (isCanonicalRingMemberLocked B) 0
                              (coinbase # others) c of
                    (Inl e, c') \<Rightarrow> (Inl e, c')
                  | (Inr _, c') \<Rightarrow>
                      (case validateCoinbaseConsensus C P coinbase (Height header) of
                         Inl e \<Rightarrow> (Inl (BadCoinbase e), c')
                       | Inr _ \<Rightarrow> (Inr (), c'))))"

definition ValidateBlockP2P :: "crypto \<Rightarrow> net_params \<Rightarrow> 'b bolt \<Rightarrow> (nat \<Rightarrow> i64) \<Rightarrow> Block \<Rightarrow> 'b chain
    \<Rightarrow> (block_error + unit) \<times> 'b chain" where
  "ValidateBlockP2P C P B now block c =
     (let extendsTip = bprev block = bestHash c;
          skipPoW = shouldSkipPoWLocked c (bheight block) extendsTip in
      validateBlockWithContext C P now block (bestHash c) (height c) (chain_GetBlock B)
        (isKeyImageSpentLocked B c) (isCanonicalRingMemberLocked B) skipPoW c)"

section \<open>The start-up audit\<close>

datatype violation =
    MissingBlock | MissingCheckpointBlock | PrevHashMismatch hash hash | DifficultyMismatch u64 u64
  | BeforeMedian i64 i64 | ShortBlockTime i64 i64 i64 | NoLWMAHistory | NoMedianHistory

type_synonym ChainViolation = "u64 \<times> violation"

text \<open>The four checks of one block, given the difficulty the schedule expects and the timestamps before
  it.  (A chain of \<open>2^63\<close> blocks does not fit into memory, so \<open>int(h)\<close> does not overflow.)\<close>

definition block_violations :: "crypto \<Rightarrow> u64 \<Rightarrow> Block \<Rightarrow> Block \<Rightarrow> u64 \<Rightarrow> i64 list \<Rightarrow> ChainViolation list" where
  "block_violations C h block prev expectedDiff tss =
     (if bprev block \<noteq> Hash C prev then [(h, PrevHashMismatch (bprev block) (Hash C prev))] else [])
   @ (if bdiff block \<noteq> expectedDiff then [(h, DifficultyMismatch (bdiff block) expectedDiff)] else [])
   @ (if sint (bts block) \<le> sint (median_of tss) then [(h, BeforeMedian (bts block) (median_of tss))] else [])
   @ (if sint (bts block - bts prev) < 1
      then [(h, ShortBlockTime (bts block - bts prev) (bts prev) (bts block))] else [])"

definition medianCount :: "u64 \<Rightarrow> nat" where
  "medianCount h = (if unat h < 11 then unat h else 11)"

fun load_range :: "'b bolt \<Rightarrow> 'b chain \<Rightarrow> u64 list \<Rightarrow> u64 + Block list" where
  "load_range B c [] = Inr []"
| "load_range B c (h # hs) =
     (case getBlockByHeightLocked B c h of
        None \<Rightarrow> Inl h
      | Some b \<Rightarrow> (case load_range B c hs of Inl e \<Rightarrow> Inl e | Inr bs \<Rightarrow> Inr (b # bs)))"

definition verify_block :: "crypto \<Rightarrow> Block list \<Rightarrow> u64 \<Rightarrow> ChainViolation list" where
  "verify_block C bs h =
     (let block = bs ! unat h; prev = bs ! unat (h - 1); parentHeight = h - 1;
          expectedDiff = (if parentHeight < word_of_nat LWMAWindow then MinDifficulty
                          else computeLWMA bs parentHeight);
          tss = map (\<lambda>i. bts (bs ! unat (h - word_of_nat (medianCount h) + word_of_nat i))) [0..<medianCount h]
      in block_violations C h block prev expectedDiff tss)"

definition VerifyChain :: "crypto \<Rightarrow> 'b bolt \<Rightarrow> 'b chain \<Rightarrow> ChainViolation list" where
  "VerifyChain C B c =
     (if height c = 0 then []
      else case load_range B c (heights_upto 0 (height c)) of
        Inl h \<Rightarrow> [(h, MissingBlock)]
      | Inr bs \<Rightarrow> concat (map (verify_block C bs) (heights_upto 1 (height c))))"

text \<open>The highest checkpoint the local chain matches, searched from the end of the list.\<close>

fun find_checkpoint :: "crypto \<Rightarrow> 'b bolt \<Rightarrow> 'b chain \<Rightarrow> (u64 \<rightharpoonup> hash) \<Rightarrow> u64 list \<Rightarrow> u64 + u64" where
  "find_checkpoint C B c cps [] = Inr 0"
| "find_checkpoint C B c cps (h # hs) =
     (if h = 0 \<or> height c < h then find_checkpoint C B c cps hs
      else case cps h of
        None \<Rightarrow> find_checkpoint C B c cps hs
      | Some want \<Rightarrow>
          (case getBlockByHeightLocked B c h of
             None \<Rightarrow> Inl h
           | Some b \<Rightarrow> if Hash C b = want then Inr h else find_checkpoint C B c cps hs))"

text \<open>The closure \<open>get\<close> over the loaded window.\<close>

definition window_get :: "u64 \<Rightarrow> u64 \<Rightarrow> Block list \<Rightarrow> u64 \<Rightarrow> Block option" where
  "window_get startLoad tipHeight bs h =
     (if h < startLoad \<or> tipHeight < h then None else Some (bs ! unat (h - startLoad)))"

fun verify_from :: "crypto \<Rightarrow> (u64 \<Rightarrow> Block option) \<Rightarrow> u64 list \<Rightarrow> ChainViolation list \<Rightarrow> ChainViolation list" where
  "verify_from C get [] violations = violations"
| "verify_from C get (h # hs) violations =
     (case (get h, get (h - 1)) of
        (Some block, Some prev) \<Rightarrow>
          let parentHeight = h - 1 in
          (case (if parentHeight < word_of_nat LWMAWindow then Some MinDifficulty
                 else computeLWMAFrom get parentHeight) of
             None \<Rightarrow> [(h, NoLWMAHistory)]
           | Some expectedDiff \<Rightarrow>
               (case those (map (\<lambda>i. get (h - word_of_nat (medianCount h) + word_of_nat i)) [0..<medianCount h]) of
                  None \<Rightarrow> [(h, NoMedianHistory)]
                | Some bs \<Rightarrow>
                    verify_from C get hs (violations @ block_violations C h block prev expectedDiff (map bts bs))))
      | _ \<Rightarrow> [(h, MissingBlock)])"

definition VerifyChainWithCheckpoints :: "crypto \<Rightarrow> 'b bolt \<Rightarrow> 'b chain \<Rightarrow> (u64, hash) fmap \<Rightarrow> u64 list
    \<Rightarrow> ChainViolation list \<times> u64" where
  "VerifyChainWithCheckpoints C B c checkpoints checkpointHeights =
     (if height c = 0 \<or> fmdom checkpoints = {||} then ([], 0)
      else case find_checkpoint C B c (fmlookup checkpoints) (rev checkpointHeights) of
        Inl h \<Rightarrow> ([(h, MissingCheckpointBlock)], 0)
      | Inr used \<Rightarrow>
          if used = 0 then ([], 0)
          else let startVerify = used + 1 in
          if height c < startVerify then ([], used)
          else
            let needBack = (if 11 < (word_of_nat (LWMAWindow + 1) :: u64) then word_of_nat (LWMAWindow + 1) else 11);
                startLoad = (if needBack < startVerify then startVerify - needBack else 0)
            in case load_range B c (heights_upto startLoad (height c)) of
                 Inl h \<Rightarrow> ([(h, MissingBlock)], used)
               | Inr bs \<Rightarrow>
                   (verify_from C (window_get startLoad (height c) bs) (heights_upto startVerify (height c)) [],
                    used))"

section \<open>Truncation\<close>

fun unmark_all :: "'b bolt \<Rightarrow> hash list \<Rightarrow> 'b chain \<Rightarrow> (chain_error + unit) \<times> 'b chain" where
  "unmark_all B [] c = (Inr (), c)"
| "unmark_all B (ki # kis) c =
     (let c = c\<lparr>keyImages := (keyImages c)(ki := None)\<rparr> in
      case UnmarkKeyImageSpent B ki (storage c) of
        (Inl e, st) \<Rightarrow> (Inl (TruncateFailed e), c\<lparr>storage := st\<rparr>)
      | (Inr _, st) \<Rightarrow> unmark_all B kis (c\<lparr>storage := st\<rparr>))"

definition remove_height :: "'b bolt \<Rightarrow> u64 \<Rightarrow> 'b chain \<Rightarrow> (chain_error + unit) \<times> 'b chain" where
  "remove_height B h c =
     (case RemoveMainChainBlock B h (storage c) of
        (Inl e, st) \<Rightarrow> (Inl (TruncateFailed e), c\<lparr>storage := st\<rparr>)
      | (Inr _, st) \<Rightarrow> (Inr (), c\<lparr>storage := st, byHeight := (byHeight c)(h := None)\<rparr>))"

fun truncate_loop :: "crypto \<Rightarrow> 'b bolt \<Rightarrow> u64 list \<Rightarrow> 'b chain \<Rightarrow> (chain_error + unit) \<times> 'b chain" where
  "truncate_loop C B [] c = (Inr (), c)"
| "truncate_loop C B (h # hs) c =
     (case getBlockByHeightLocked B c h of
        None \<Rightarrow>
          (case remove_height B h c of
             (Inl e, c) \<Rightarrow> (Inl e, c)
           | (Inr _, c) \<Rightarrow> truncate_loop C B hs c)
      | Some block \<Rightarrow>
          (case unmark_all B (spent_images (Transactions block)) c of
             (Inl e, c) \<Rightarrow> (Inl e, c)
           | (Inr _, c) \<Rightarrow>
          (case remove_height B h c of
             (Inl e, c) \<Rightarrow> (Inl e, c)
           | (Inr _, c) \<Rightarrow> truncate_loop C B hs (cacheForgetLocked (Hash C block) c))))"

definition TruncateToHeight :: "crypto \<Rightarrow> 'b bolt \<Rightarrow> u64 \<Rightarrow> 'b chain \<Rightarrow> (chain_error + unit) \<times> 'b chain" where
  "TruncateToHeight C B keepHeight c =
     (if height c \<le> keepHeight then (Inr (), c)
      else case truncate_loop C B (heights_down (height c) keepHeight) c of
        (Inl e, c) \<Rightarrow> (Inl e, c)
      | (Inr _, c) \<Rightarrow>
     (case getBlockByHeightLocked B c keepHeight of
        None \<Rightarrow> (Inl (MissingAtHeight keepHeight), c)
      | Some newTip \<Rightarrow>
          let newHash = Hash C newTip in
     (case cumulativeWorkAtLocked B newHash c of
        (Inl e, c) \<Rightarrow> (Inl e, c)
      | (Inr newWork, c) \<Rightarrow>
          let c = c\<lparr>bestHash := newHash, height := keepHeight, totalWork := newWork, canonicalRingIndexDirty := True\<rparr>;
              c = cacheTrimLocked (cacheTouchLocked newHash c);
              start = (if word_of_nat LWMAWindow < keepHeight then keepHeight - word_of_nat LWMAWindow else 0);
              c = c\<lparr>timestamps := map bts (List.map_filter (getBlockByHeightLocked B c) (heights_upto start keepHeight))\<rparr>
          in (case SetTip B newHash keepHeight newWork (storage c) of
                (Inl e, st) \<Rightarrow> (Inl (TruncateFailed e), c\<lparr>storage := st\<rparr>)
              | (Inr _, st) \<Rightarrow> (Inr (), c\<lparr>storage := st\<rparr>)))))"

section \<open>Ring selection\<close>

datatype ring_error = OutputsUnreadable | NotEnoughOutputs nat | RandomFailed

record RingMemberData =
  rd_Keys :: "hash list"
  rd_Commitments :: "hash list"
  rd_SecretIndex :: nat

text \<open>\<open>rnd k n\<close> is the result of the \<open>k\<close>-th call of \<open>rand.Int\<close>, with bound \<open>n\<close>.\<close>

fun decoys_of :: "'b bolt \<Rightarrow> hash \<Rightarrow> UTXO list \<Rightarrow> 'b chain \<Rightarrow> UTXO list \<times> 'b chain" where
  "decoys_of B realPubKey [] c = ([], c)"
| "decoys_of B realPubKey (utxo # utxos) c =
     (if PublicKey (Output utxo) = realPubKey then decoys_of B realPubKey utxos c
      else case isCanonicalRingMemberLocked B c (PublicKey (Output utxo)) (Commitment (Output utxo)) of
        (ok, c) \<Rightarrow> apfst (\<lambda>ds. if ok then utxo # ds else ds) (decoys_of B realPubKey utxos c))"

text \<open>Fisher-Yates from the last index down to 1.\<close>

fun shuffle :: "(nat \<Rightarrow> nat \<Rightarrow> nat option) \<Rightarrow> nat \<Rightarrow> nat \<Rightarrow> 'a list \<Rightarrow> 'a list option" where
  "shuffle rnd k 0 xs = Some xs"
| "shuffle rnd k (Suc i) xs =
     (case rnd k (Suc (Suc i)) of
        None \<Rightarrow> None
      | Some j \<Rightarrow> shuffle rnd (Suc k) i (xs[Suc i := xs ! j, j := xs ! Suc i]))"

definition place :: "nat \<Rightarrow> 'a \<Rightarrow> 'a list \<Rightarrow> 'a list" where
  "place i x xs = take i xs @ x # drop i xs"

definition chain_SelectRingMembers :: "'b bolt \<Rightarrow> (nat \<Rightarrow> nat \<Rightarrow> nat option) \<Rightarrow> hash \<Rightarrow> hash \<Rightarrow> 'b chain
    \<Rightarrow> (ring_error + RingMemberData) \<times> 'b chain" where
  "chain_SelectRingMembers B rnd realPubKey realCommitment c =
     (case st_GetAllOutputs B (storage c) of
        (_, True) \<Rightarrow> (Inl OutputsUnreadable, c)
      | (allOutputs, False) \<Rightarrow>
     (case decoys_of B realPubKey allOutputs c of
        (decoyPool, c) \<Rightarrow>
          if length decoyPool < RingSize - 1 then (Inl (NotEnoughOutputs (length decoyPool)), c)
          else (case shuffle rnd 0 (length decoyPool - 1) decoyPool of
                  None \<Rightarrow> (Inl RandomFailed, c)
                | Some decoyPool \<Rightarrow>
                    (case rnd (length decoyPool - 1) RingSize of
                       None \<Rightarrow> (Inl RandomFailed, c)
                     | Some secretIndex \<Rightarrow>
                         let decoys = take (RingSize - 1) decoyPool in
                         (Inr \<lparr>rd_Keys = place secretIndex realPubKey (map (PublicKey \<circ> Output) decoys),
                               rd_Commitments = place secretIndex realCommitment (map (Commitment \<circ> Output) decoys),
                               rd_SecretIndex = secretIndex\<rparr>, c)))))"

end
