(* ===== verification/Node.thy ===== *)
theory Node
  imports ChainRestart ChainQueries
begin

text \<open>
  The chain over the life of a node: the states reachable from an empty database by processing
  blocks, installing the genesis block, reading, setting checkpoints and restarting.  What holds in
  all of them is stated over the queries of the code itself.
\<close>

section \<open>The genesis block\<close>

lemma addBlockInternal_fails:
  assumes "sha3_32 C" "view_inv C B L c" "admissible L block"
    and "addBlockInternal C B block c = (Inl e, c')"
  shows "view_inv C B L c'"
proof -
  have m: "bolt_ok B" "mem_ok B L (lblocks L) c" "stores B (storage c) L" "\<not> cacheOver c" "ledger_ok C L"
    using assms(2) by (auto simp: view_inv_def mem_ok_def)
  show ?thesis
  proof (cases "bheight block = 0 \<and> ltip L = None")
    case False
    then have "c' = c"
      using assms(4) by (cases "ltip L") (auto simp: addBlockInternal_def stores_tip [OF m(3)] split: if_splits)
    then show ?thesis using assms(2) by simp
  next
    case True
    then have "block_images block = []" using assms(3) by (simp add: admissible_def)
    then have ki: "mark_block_images block (keyImages c) = keyImages c"
      by (simp add: mark_block_images_def spent_images_block block_images_def)
    have "c' = c \<or> (\<exists>w us x st. CommitBlock C B \<lparr>bc_Block = block, bc_Height = bheight block, bc_Hash = Hash C block,
        bc_Work = w, bc_IsMainTip = True, bc_NewOutputs = us, bc_SpentKeyImgs = spent_images (Transactions block)\<rparr>
        (storage c) = (Inl x, st) \<and> c' = c\<lparr>storage := st\<rparr>)"
      using assms(4) True ki
      by (auto simp: addBlockInternal_def stores_tip [OF m(3)] Let_def split: sum.splits option.splits prod.splits)
    then show ?thesis
    proof
      assume "\<exists>w us x st. CommitBlock C B \<lparr>bc_Block = block, bc_Height = bheight block, bc_Hash = Hash C block,
        bc_Work = w, bc_IsMainTip = True, bc_NewOutputs = us, bc_SpentKeyImgs = spent_images (Transactions block)\<rparr>
        (storage c) = (Inl x, st) \<and> c' = c\<lparr>storage := st\<rparr>"
      then obtain st where "stores B st L" "c' = c\<lparr>storage := st\<rparr>"
        using CommitBlock_genesis [OF m(1) assms(1) m(3)] by blast
      then show ?thesis using m by (simp add: view_inv_def mem_ok_def ring_ok_def cache_wf_def cacheOver_def)
    qed (use assms(2) in simp)
  qed
qed

lemma addGenesisBlock_ok:
  assumes "sha3_32 C" "view_inv C B L c" "addGenesisBlock C P B now block c = (r, c')"
  shows "(\<exists>e. r = Inl e) \<and> view_inv C B L c'
    \<or> r = Inr () \<and> ltip L = None \<and> (\<exists>L'. view_inv C B L' c' \<and> chain_of C L' [block]
        \<and> lblocks L' = [Hash C block \<mapsto> block] \<and> Transactions block = [])"
proof -
  have st: "stores B (storage c) L" "ledger_ok C L" using assms(2) by (auto simp: view_inv_def mem_ok_def)
  show ?thesis
  proof (cases "bheight block = 0 \<and> ltip L = None")
    case False
    then have "(\<exists>e. r = Inl e) \<and> c' = c"
      using assms(3) by (cases "ltip L") (auto simp: addGenesisBlock_def stores_tip [OF st(1)] split: if_splits)
    then show ?thesis using assms(2) by simp
  next
    case True
    obtain v c1 where v: "validateBlockForProcessLocked C P B now block c = (v, c1)" by fastforce
    note ver = process_verdict [OF assms(2) v]
    show ?thesis
    proof (cases v)
      case (Inl e)
      then show ?thesis using assms(3) True v ver(1) by (auto simp: addGenesisBlock_def stores_tip [OF st(1)])
    next
      case (Inr u)
      then have adm: "admissible L block" using ver(2) process_valid_admissible [OF st(2)] by simp
      have empty: "Transactions block = []"
        using Inr ver(2) True by (auto simp: process_valid_def block_valid_def validateGenesisBlock_def Let_def split: prod.splits if_splits)
      have "addBlockInternal C B block c1 = (r, c')"
        using assms(3) True v Inr by (simp add: addGenesisBlock_def stores_tip [OF st(1)])
      then show ?thesis
        using addBlockInternal_fails [OF assms(1) ver(1) adm] addBlockInternal_ok [OF assms(1) ver(1) adm] True empty
        by (cases r) auto
    qed
  qed
qed

section \<open>Reachable states\<close>

text \<open>A failed write of a side block is the one outcome that leaves memory ahead of the store; it is
  not part of the steps.\<close>

inductive reachable :: "crypto \<Rightarrow> net_params \<Rightarrow> 'b bolt \<Rightarrow> 'b chain \<Rightarrow> bool" for C P B where
  opened: "stores B st empty_ledger \<Longrightarrow> NewChain B env st = Inr c \<Longrightarrow> reachable C P B c"
| genesis: "reachable C P B c \<Longrightarrow> addGenesisBlock C P B now block c = (r, c') \<Longrightarrow> reachable C P B c'"
| process: "reachable C P B c \<Longrightarrow> ProcessBlock C P B now block c = (r, c') \<Longrightarrow>
    (\<forall>e. r \<noteq> Inl (ForkSaveFailed e)) \<Longrightarrow> reachable C P B c'"
| lookup: "reachable C P B c \<Longrightarrow> chain_GetBlock B c h = (b, c') \<Longrightarrow> reachable C P B c'"
| ring: "reachable C P B c \<Longrightarrow> isCanonicalRingMemberLocked B c k m = (b, c') \<Longrightarrow> reachable C P B c'"
| checkpoints: "reachable C P B c \<Longrightarrow> reachable C P B (SetTrustedCheckpoints cps n c)"
| restart: "reachable C P B c \<Longrightarrow> NewChain B env (storage c) = Inr c' \<Longrightarrow> reachable C P B c'"

lemma chain_GetBlock_same: "chain_GetBlock = getBlockByHashLocked"
  by (simp add: fun_eq_iff chain_GetBlock_def getBlockByHashLocked_def)

lemma empty_ledger_ok: "ledger_ok C empty_ledger"
  by (auto simp: ledger_ok_def empty_ledger_def tree_ok_def block_tree_def elim: branch_cases)

lemma SetTrustedCheckpoints_view: "view_inv C B L (SetTrustedCheckpoints cps n c) \<longleftrightarrow> view_inv C B L c"
  by (simp add: SetTrustedCheckpoints_def view_inv_def mem_ok_def ring_ok_def cache_wf_def cacheOver_def)

lemma reachable_view:
  assumes "sha3_32 C" "bolt_ok B" "reachable C P B c"
  shows "\<exists>L. view_inv C B L c"
  using assms(3)
proof induction
  case (opened st env c)
  then show ?case using restart_ok [OF assms(2) empty_ledger_ok opened(1), of env] by auto
next
  case (genesis c now block r c')
  then show ?case using addGenesisBlock_ok [OF assms(1)] by metis
next
  case (process c now block r c')
  then show ?case using process_refines [OF assms(1)] by metis
next
  case (lookup c h b c')
  then show ?case using view.get_keeps unfolding chain_GetBlock_same by (metis snd_conv)
next
  case (ring c k m b c')
  then show ?case using view.check_keeps by (metis snd_conv)
next
  case (checkpoints c cps n)
  then show ?case by (simp add: SetTrustedCheckpoints_view)
next
  case (restart c env c')
  then obtain L where "view_inv C B L c" by blast
  then have "ledger_ok C L" "stores B (storage c) L" by (auto simp: view_inv_def mem_ok_def)
  then show ?case using restart_ok [OF assms(2), of C L "storage c" env] restart by auto
qed

section \<open>Queries\<close>

abbreviation main_blocks :: "'b bolt \<Rightarrow> 'b chain \<Rightarrow> Block list" where
  "main_blocks B c \<equiv> GetBlocksByHeightRange B c 0 (height c)"

lemma blocks_from_all:
  assumes "\<And>i. i < length ns \<Longrightarrow> getBlockByHeightLocked B c (ns ! i) = Some (bs ! i)" "length bs = length ns"
  shows "blocks_from B c ns = bs"
  using assms
proof (induction ns arbitrary: bs)
  case (Cons n ns)
  then obtain b bs' where bs: "bs = b # bs'" by (cases bs) auto
  have "getBlockByHeightLocked B c n = Some b" using Cons.prems(1) [of 0] by (simp add: bs)
  moreover have "blocks_from B c ns = bs'"
  proof (rule Cons.IH)
    show "getBlockByHeightLocked B c (ns ! i) = Some (bs' ! i)" if "i < length ns" for i
      using Cons.prems(1) [of "Suc i"] that by (simp add: bs)
  qed (use Cons.prems(2) bs in simp)
  ultimately show ?case by (simp add: bs)
qed simp

lemma view_height: "view_inv C B L c \<Longrightarrow> ltip L = Some (tip, n, w) \<Longrightarrow> bestHash c = tip \<and> height c = n \<and> totalWork c = w"
  by (simp add: view_inv_def mem_ok_def)

lemma view_by_height: "view_inv C B L c \<Longrightarrow> getBlockByHeightLocked B c n = Option.bind (lheights L n) (lblocks L)"
  using getByHeight_ok [of C L B "lblocks L" c n] by (simp add: view_inv_def)

text \<open>The main chain as the range query returns it.\<close>

lemma view_main:
  assumes "view_inv C B L c"
  shows "ltip L = None \<and> main_blocks B c = [] \<and> limages L = Map.empty \<and> totalWork c = 0
    \<or> chain_of C L (rev (main_blocks B c))"
proof (cases "ltip L")
  case None
  then have h: "height c = 0" "totalWork c = 0" "lheights L = Map.empty" "limages L = Map.empty"
    using assms by (auto simp: view_inv_def mem_ok_def ledger_ok_def)
  then have "getBlockByHeightLocked B c 0 = None" using view_by_height [OF assms] by simp
  then have "main_blocks B c = []" using h by (simp add: GetBlocksByHeightRange_def heights_upto_def)
  then show ?thesis using None h by simp
next
  case (Some t)
  have lok: "ledger_ok C L" using assms by (simp add: view_inv_def)
  obtain bs where ch: "chain_of C L bs" using ledger_chain [OF lok] Some by auto
  define R where "R = rev bs"
  have R: "chain_of C L (rev R)" using ch by (simp add: R_def)
  obtain tip n w where t: "ltip L = Some (tip, n, w)" "length R = Suc (unat n)"
    using ch by (auto simp: chain_of_def R_def)
  have h: "height c = n" using view_height [OF assms t(1)] by simp
  have hs: "heights_upto 0 n = map word_of_nat [0..<length R]" by (simp only: heights_upto_def t(2) unat_0)
  have "getBlockByHeightLocked B c (word_of_nat i) = Some (R ! i)" if "i < length R" for i
    using main_nth(1,2) [OF lok R that] by (simp add: view_by_height [OF assms])
  then have "blocks_from B c (heights_upto 0 n) = R" unfolding hs by (intro blocks_from_all) simp_all
  then have "main_blocks B c = R" using h by (simp add: GetBlocksByHeightRange_def)
  then show ?thesis using R by simp
qed

lemma main_unique: "view_inv C B L c \<Longrightarrow> chain_of C L bs \<Longrightarrow> main_blocks B c = rev bs"
  using view_main chain_of_unique by (metis chain_of_def option.distinct(1) rev_rev_ident)

lemma view_spent: "view_inv C B L c \<Longrightarrow> isKeyImageSpentLocked B c k \<longleftrightarrow> k \<in> set (images_of (main_blocks B c))"
  using isKeyImageSpent_exact [of B L "lblocks L" c k] view_main [of C B L c]
  by (auto simp: view_inv_def chain_of_def main_is_def)

lemma view_has: "view_inv C B L c \<Longrightarrow> chain_HasBlock B c h \<longleftrightarrow> lblocks L h \<noteq> None"
  using stores_reads(2) [of B "storage c" L h]
  by (auto simp: chain_HasBlock_def view_inv_def mem_ok_def dest: map_leD)

text \<open>Two states of the same ledger answer all queries alike.\<close>

lemma same_view:
  assumes "view_inv C B L c" "view_inv C B L c'"
  shows "main_blocks B c' = main_blocks B c \<and> bestHash c' = bestHash c \<and> height c' = height c
    \<and> totalWork c' = totalWork c \<and> chain_HasBlock B c' = chain_HasBlock B c
    \<and> isKeyImageSpentLocked B c' = isKeyImageSpentLocked B c"
proof -
  have "mem_ok B L (lblocks L) c" "mem_ok B L (lblocks L) c'" using assms by (auto simp: view_inv_def)
  then have tip: "bestHash c' = bestHash c" "height c' = height c" "totalWork c' = totalWork c"
    using mem_ok_tip by (metis prod.inject)+
  have "getBlockByHeightLocked B c' = getBlockByHeightLocked B c"
    using view_by_height [OF assms(1)] view_by_height [OF assms(2)] by (simp add: fun_eq_iff)
  then have "blocks_from B c' ns = blocks_from B c ns" for ns
    by (induction ns) (simp_all split: option.split)
  then have "main_blocks B c' = main_blocks B c" using tip by (simp add: GetBlocksByHeightRange_def)
  moreover from this have "isKeyImageSpentLocked B c' = isKeyImageSpentLocked B c"
    using view_spent [OF assms(1)] view_spent [OF assms(2)] by (simp add: fun_eq_iff)
  moreover have "chain_HasBlock B c' = chain_HasBlock B c"
    using view_has [OF assms(1)] view_has [OF assms(2)] by (simp add: fun_eq_iff)
  ultimately show ?thesis using tip by simp
qed

section \<open>Properties\<close>

lemma distinct_images_rev: "distinct (images_of (rev bs)) \<longleftrightarrow> distinct (images_of bs)"
  by (induction bs) auto

lemma images_of_concat: "images_of bs = concat (map block_images bs)"
  by (simp add: images_of_def)

lemma chain_branch_ok: "ledger_ok C L \<Longrightarrow> chain_of C L bs \<Longrightarrow> branch_ok bs"
  by (auto simp: ledger_ok_def chain_of_def tree_ok_def)

lemma process_reachable:
  assumes "sha3_32 C" "bolt_ok B" "reachable C P B c" "ProcessBlock C P B now block c = (r, c')"
    and "\<forall>e. r \<noteq> Inl (ForkSaveFailed e)"
  shows "\<exists>L L'. view_inv C B L c \<and> view_inv C B L' c'
    \<and> process_step C P now (trustedCheckpoints c) (fastSyncUntilHeight c) L block r L'"
  using reachable_view [OF assms(1-3)] process_refines [OF assms(1) _ assms(4)] assms(5) by metis

lemma chain_by_height:
  assumes "view_inv C B L c" "chain_of C L (rev R)" "unat n < length R"
  shows "getBlockByHeightLocked B c n = Some (R ! unat n)"
  using main_nth(1,2) [OF _ assms(2,3)] assms(1) view_by_height [OF assms(1), of n] by (simp add: view_inv_def)

lemma save_by_height:
  assumes "view_inv C B L c" "view_inv C B (ledger_save C block L) c'" "lblocks L (Hash C block) = None"
  shows "getBlockByHeightLocked B c' n = getBlockByHeightLocked B c n"
proof -
  have "h \<noteq> Hash C block" if "lheights L n = Some h" for h
    using main_hash_stored [of C L n h] that assms(1,3) by (auto simp: view_inv_def)
  then show ?thesis
    unfolding view_by_height [OF assms(1)] view_by_height [OF assms(2)]
    by (cases "lheights L n") (auto simp: ledger_save_def)
qed

lemma kept_blocks:
  assumes "new = cs @ drop d old" "k + d < length old"
  shows "k < length (rev new) \<and> rev new ! k = rev old ! k"
proof -
  have "rev new = rev (drop d old) @ rev cs" using assms(1) by simp
  moreover have "rev (drop d old) = take (length old - d) (rev old)" by (simp add: rev_drop)
  moreover have "k < length old - d" using assms(2) by simp
  ultimately show ?thesis by (simp add: nth_append)
qed

lemma step_keeps_final:
  assumes "view_inv C B L c" "view_inv C B L' c'" "process_step C P now cps until L block r L'"
    and "unat n + unat MaxReorgDepth \<le> unat (height c)"
  shows "getBlockByHeightLocked B c' n = getBlockByHeightLocked B c n"
  using assms(3)
proof (cases rule: process_step.cases)
  case known
  then show ?thesis using assms by (simp add: view_by_height)
next
  case (refused e)
  then show ?thesis using assms by (simp add: view_by_height)
next
  case (side bs)
  then show ?thesis using save_by_height assms(1,2) by metis
next
  case (main old new cs d)
  have "ltip L \<noteq> None" using main by (auto simp: chain_of_def)
  then have "length old = Suc (unat (height c))" using main view_height [OF assms(1)] by (auto simp: chain_of_def)
  then have k: "unat n < length (rev new)" "rev new ! unat n = rev old ! unat n" "unat n < length (rev old)"
    using kept_blocks [of new cs d old "unat n"] main assms(4) by auto
  then show ?thesis
    using chain_by_height [OF assms(1), of "rev old" n] chain_by_height [OF assms(2), of "rev new" n] main by simp
qed

text \<open>C1.  No double spend.  In every reachable state of the node no key image occurs twice on the
  main chain, whatever blocks, reorganisations, failed writes and restarts led there.\<close>

theorem no_double_spend:
  assumes "sha3_32 C" "bolt_ok B" "reachable C P B c"
  shows "distinct (concat (map block_images (GetBlocksByHeightRange B c 0 (height c))))"
proof -
  obtain L where L: "view_inv C B L c" using reachable_view [OF assms] by blast
  show ?thesis
  proof (cases "main_blocks B c = []")
    case False
    then have ch: "chain_of C L (rev (main_blocks B c))" using view_main [OF L] by blast
    then have "distinct (images_of (rev (main_blocks B c)))"
      using chain_branch_ok L by (auto simp: view_inv_def branch_ok_def)
    then show ?thesis using distinct_images_rev images_of_concat by metis
  qed simp
qed

text \<open>C9.  The main chain is a chain.  In every reachable state the range query returns one block per
  height, each naming its predecessor by hash, the last one is the tip, and the recorded total
  work is the sum of the difficulties, without wrap-around.\<close>

theorem main_chain_linked:
  assumes "sha3_32 C" "bolt_ok B" "reachable C P B c"
  shows "(\<forall>i < length (main_blocks B c). unat (bheight (main_blocks B c ! i)) = i
      \<and> (0 < i \<longrightarrow> bprev (main_blocks B c ! i) = Hash C (main_blocks B c ! (i - 1))))
    \<and> (main_blocks B c \<noteq> [] \<longrightarrow> length (main_blocks B c) = Suc (unat (height c))
      \<and> Hash C (last (main_blocks B c)) = bestHash c)
    \<and> unat (totalWork c) = sum_list (map (unat \<circ> bdiff) (main_blocks B c))"
proof -
  obtain L where L: "view_inv C B L c" using reachable_view [OF assms] by blast
  have lok: "ledger_ok C L" using L by (simp add: view_inv_def)
  show ?thesis
  proof (cases "main_blocks B c = []")
    case True
    then have "totalWork c = 0" using view_main [OF L] by (auto simp: chain_of_def dest: branch_nonempty)
    then show ?thesis using True by simp
  next
    case False
    define R where "R = main_blocks B c"
    have ch: "chain_of C L (rev R)" using False view_main [OF L] by (auto simp: R_def)
    then obtain tip n w where t: "ltip L = Some (tip, n, w)" "branch (lblocks L) tip (rev R)"
      "length R = Suc (unat n)" "unat w = work_of (rev R)"
      by (auto simp: chain_of_def)
    have c: "bestHash c = tip" "height c = n" "totalWork c = w" using view_height [OF L t(1)] by auto
    have "lblocks L tip = Some (last R)" using branch_hd [OF t(2)] False by (simp add: R_def hd_rev)
    then have "Hash C (last R) = tip" using lok tree_hash by (auto simp: ledger_ok_def tree_ok_def)
    moreover have "work_of (rev R) = sum_list (map (unat \<circ> bdiff) R)" by (simp add: work_of_def rev_map [symmetric])
    ultimately show ?thesis
      unfolding R_def [symmetric] using c t(3,4) main_nth(3,5) [OF lok ch] by simp
  qed
qed

text \<open>C10.  The spent check is exact.  In every reachable state a key image is reported spent exactly when
  an input on the main chain carries it: reorganisations forget the images of disconnected blocks
  and no others.\<close>

theorem spent_exact:
  assumes "sha3_32 C" "bolt_ok B" "reachable C P B c"
  shows "isKeyImageSpentLocked B c k \<longleftrightarrow> k \<in> set (concat (map block_images (main_blocks B c)))"
  using reachable_view [OF assms] view_spent images_of_concat by metis

text \<open>C5.  Finality.  Processing a block keeps the main chain except for at most its last
  \<open>MaxReorgDepth\<close> blocks: no sequence of fork blocks rewrites deeper history in one step.\<close>

theorem reorg_depth_bounded:
  assumes "sha3_32 C" "bolt_ok B" "reachable C P B c" "ProcessBlock C P B now block c = (r, c')"
    and "\<forall>e. r \<noteq> Inl (ForkSaveFailed e)"
  shows "\<exists>d \<le> unat MaxReorgDepth.
    take (length (main_blocks B c) - d) (main_blocks B c') = take (length (main_blocks B c) - d) (main_blocks B c)"
proof -
  obtain L L' where v: "view_inv C B L c" "view_inv C B L' c'"
    and step: "process_step C P now (trustedCheckpoints c) (fastSyncUntilHeight c) L block r L'"
    using process_reachable [OF assms] by blast
  from step show ?thesis
  proof (cases rule: process_step.cases)
    case known
    then show ?thesis using same_view [OF v(1)] v(2) by fastforce
  next
    case (refused e)
    then show ?thesis using same_view [OF v(1)] v(2) by fastforce
  next
    case (side bs)
    have "main_blocks B c' = main_blocks B c"
    proof (cases "ltip L")
      case None
      then show ?thesis using side view_main [OF v(1)] view_main [OF v(2)]
        by (auto simp: ledger_save_def chain_of_def)
    next
      case (Some t)
      then obtain R where "chain_of C L R" using ledger_chain [of C L] v(1) by (auto simp: view_inv_def)
      moreover have "lblocks L \<subseteq>\<^sub>m lblocks L'" using side by (auto simp: ledger_save_def map_le_def)
      ultimately have "chain_of C L' R"
        using side branch_mono by (auto simp: chain_of_def ledger_save_def main_is_def)
      moreover note \<open>chain_of C L R\<close>
      ultimately show ?thesis using main_unique v by metis
    qed
    then show ?thesis by fastforce
  next
    case (main old new cs d)
    have m: "main_blocks B c = rev old" "main_blocks B c' = rev new" using main_unique v main by metis+
    have "rev new = take (length old - d) (rev old) @ rev cs" using main(9) by (simp add: rev_drop)
    then have "take (length old - d) (rev new) = take (length old - d) (rev old)" by simp
    then show ?thesis using m main(10) by auto
  qed
qed

text \<open>In particular a height that \<open>IsFinalized\<close> reports keeps its block.\<close>

lemma finalized_blocks_stay:
  assumes "sha3_32 C" "bolt_ok B" "reachable C P B c" "ProcessBlock C P B now block c = (r, c')"
    and "\<forall>e. r \<noteq> Inl (ForkSaveFailed e)" "IsFinalized c n"
  shows "getBlockByHeightLocked B c' n = getBlockByHeightLocked B c n"
proof -
  have "n \<le> height c" "MaxReorgDepth \<le> height c - n" using assms(6) by (auto simp: IsFinalized_def split: if_splits)
  then have "unat n + unat MaxReorgDepth \<le> unat (height c)"
    using unat_sub [of n "height c"] by (simp add: word_le_nat_alt)
  then show ?thesis using process_reachable [OF assms(1-5)] step_keeps_final by metis
qed

text \<open>C6.  Fork choice.  Processing a block never lowers the total work, raises it exactly when the block
  becomes the tip, and the block becomes the tip only of a chain that ends in it.\<close>

theorem work_never_drops:
  assumes "sha3_32 C" "bolt_ok B" "reachable C P B c" "ProcessBlock C P B now block c = (r, c')"
    and "\<forall>e. r \<noteq> Inl (ForkSaveFailed e)"
  shows "(if r = Inr (True, True) then totalWork c < totalWork c' \<and> bestHash c' = Hash C block
          else totalWork c' = totalWork c \<and> bestHash c' = bestHash c)"
proof -
  obtain L L' where v: "view_inv C B L c" "view_inv C B L' c'"
    and step: "process_step C P now (trustedCheckpoints c) (fastSyncUntilHeight c) L block r L'"
    using process_reachable [OF assms] by blast
  have t: "ledger_tip L = (bestHash c, height c, totalWork c)" "ledger_tip L' = (bestHash c', height c', totalWork c')"
    using v mem_ok_tip unfolding view_inv_def by metis+
  from step show ?thesis
  proof (cases rule: process_step.cases)
    case known
    then show ?thesis using t by simp
  next
    case (refused e)
    then show ?thesis using t by simp
  next
    case (side bs)
    then have "ledger_tip L' = ledger_tip L" by (simp add: ledger_tip_def ledger_save_def)
    then show ?thesis using t side by simp
  next
    case (main old new cs d)
    have w: "unat (totalWork c) < unat (totalWork c')"
      using chain_of_work [OF main(5)] chain_of_work [OF main(6)] main(8) view_work [OF v(1)] view_work [OF v(2)] by simp
    obtain tip n x where tip: "ltip L' = Some (tip, n, x)" "branch (lblocks L') tip new"
      using main(6) by (auto simp: chain_of_def)
    then have "lblocks L' tip = Some block" using branch_hd main(7) by metis
    then have "tip = Hash C block"
      using v(2) tree_hash by (auto simp: view_inv_def ledger_ok_def tree_ok_def)
    then show ?thesis using w main(1) view_height [OF v(2) tip(1)] by (simp add: word_less_nat_alt)
  qed
qed


text \<open>C11.  Caches are bounded.  In every reachable state the block cache, the work cache and the LRU list
  hold at most \<open>cacheCap\<close> entries, and the list and its index agree.\<close>

theorem caches_bounded:
  assumes "sha3_32 C" "bolt_ok B" "reachable C P B c"
  shows "fcard (fmdom (blocks c)) \<le> cacheCap c \<and> fcard (fmdom (workAt c)) \<le> cacheCap c
    \<and> length (cacheLRU c) \<le> cacheCap c \<and> distinct (cacheLRU c) \<and> set (cacheLRU c) = fset (cacheIndex c)"
proof -
  obtain L where L: "view_inv C B L c" using reachable_view [OF assms] by blast
  then have wf: "cache_wf c" and small: "\<not> cacheOver c" by (auto simp: view_inv_def mem_ok_def)
  have "length (cacheLRU c) = fcard (cacheIndex c)" using wf by (metis cache_wf_def distinct_card fcard.rep_eq)
  moreover have "fcard (fmdom (workAt c)) \<le> fcard (cacheIndex c)"
    using wf by (auto simp: cache_wf_def fcard.rep_eq intro: card_mono)
  ultimately show ?thesis using wf small by (auto simp: cacheOver_def cache_wf_def)
qed


text \<open>C3.  Validation does not depend on the caches.  The verdict on a block is a function of the ledger,
  the checkpoint settings and the clock: \<open>validateBlockForProcessLocked\<close> accepts exactly the
  blocks that are valid by the specification, whatever is cached and in whatever order.\<close>

theorem verdict_exact:
  assumes "view_inv C B L c"
  shows "fst (validateBlockForProcessLocked C P B now block c) = Inr ()
    \<longleftrightarrow> process_valid C P now (trustedCheckpoints c) (fastSyncUntilHeight c) L block"
  using process_verdict(2) [OF assms] by (metis prod.collapse)

text \<open>C8.  A restart changes nothing.  Opening a chain on the database of a reachable state succeeds,
  and the new state has the same tip, total work, main chain, known blocks and spent images; the
  cumulative works recomputed from the loaded window are those of the whole chain.\<close>

theorem restart_preserves_chain:
  assumes "sha3_32 C" "bolt_ok B" "reachable C P B c"
  shows "\<exists>c'. NewChain B env (storage c) = Inr c' \<and> main_blocks B c' = main_blocks B c
    \<and> bestHash c' = bestHash c \<and> height c' = height c \<and> totalWork c' = totalWork c
    \<and> chain_HasBlock B c' = chain_HasBlock B c \<and> isKeyImageSpentLocked B c' = isKeyImageSpentLocked B c
    \<and> (\<forall>h w. fmlookup (workAt c') h = Some w \<longrightarrow> (\<exists>bs L. view_inv C B L c \<and> branch (lblocks L) h bs \<and> unat w = work_of bs))"
proof -
  obtain L where L: "view_inv C B L c" using reachable_view [OF assms] by blast
  then have "ledger_ok C L" "stores B (storage c) L" by (auto simp: view_inv_def mem_ok_def)
  then obtain c' where c': "NewChain B env (storage c) = Inr c'" "view_inv C B L c'"
    using restart_ok [OF assms(2)] by metis
  have "\<exists>bs L. view_inv C B L c \<and> branch (lblocks L) h bs \<and> unat w = work_of bs"
    if "fmlookup (workAt c') h = Some w" for h w
    using c'(2) L that unfolding view_inv_def mem_ok_def by metis
  then show ?thesis using c'(1) same_view [OF L c'(2)] by blast
qed

end
