(* ===== verification/Liveness.thy ===== *)
theory Liveness
  imports Node
begin

text \<open>
  What is guaranteed to succeed when the database accepts every write: installing the genesis block
  on a fresh node.  The sample node built this way serves as the concrete instance for the
  properties of reachable states.
\<close>

definition bolt_total :: "'b bolt \<Rightarrow> bool" where
  "bolt_total B \<longleftrightarrow> (\<forall>b k v. bput B b k v \<noteq> None) \<and> (\<forall>b k. bdelete B b k \<noteq> None) \<and> (\<forall>n. bcommit B n)"

lemma list_bolt_total: "bolt_total list_bolt"
  by (simp add: bolt_total_def list_bolt_def)

lemma Put_total: "bolt_total B \<Longrightarrow> \<exists>b'. Put B b k v = Inr b'"
  unfolding bolt_total_def Put_def by (metis option.case_eq_if)

lemma put_all_total: "bolt_total B \<Longrightarrow> \<exists>b'. put_all B kvs b = Inr b'"
proof (induction kvs arbitrary: b)
  case (Cons kv kvs)
  obtain k v where kv: "kv = (k, v)" by fastforce
  obtain b' where "Put B b k v = Inr b'" using Put_total [OF Cons.prems] by blast
  then show ?case using Cons.IH [OF Cons.prems] by (simp add: kv)
qed simp

lemma put_tip_total: "bolt_total B \<Longrightarrow> \<exists>b'. put_tip B h n w meta = Inr b'"
proof -
  assume t: "bolt_total B"
  obtain m1 where m1: "Put B meta metaKeyTip (Raw h) = Inr m1" using Put_total [OF t] by blast
  obtain m2 where m2: "Put B m1 metaKeyHeight (Raw (BE_PutUint64 n)) = Inr m2" using Put_total [OF t] by blast
  show ?thesis using Put_total [OF t, of m2] m1 m2 by (simp add: put_tip_def)
qed

lemma db_Update_total: "bolt_total B \<Longrightarrow> f (db st) = Inr bk \<Longrightarrow> \<exists>st'. db_Update B f st = (Inr (), st')"
  by (simp add: db_Update_def bolt_total_def Let_def)

lemma CommitBlock_first:
  assumes "bolt_total B" "stores B st empty_ledger" "bheight b = 0"
  shows "\<exists>st'. CommitBlock C B \<lparr>bc_Block = b, bc_Height = bheight b, bc_Hash = Hash C b, bc_Work = w,
           bc_IsMainTip = True, bc_NewOutputs = us, bc_SpentKeyImgs = kis\<rparr> st = (Inr (), st')"
proof -
  let ?bk = "db st"
  have meta: "readTipMeta B (bucketMeta ?bk) = Inr None"
    using assms(2) stores_readTipMeta [of B ?bk empty_ledger] by (simp add: stores_def empty_ledger_def)
  obtain b1 where b1: "Put B (bucketBlocks ?bk) (Hash C b) (BlockJSON b) = Inr b1" using Put_total [OF assms(1)] by blast
  obtain b2 where b2: "Put B (bucketHeights ?bk) (heightKey 0) (Raw (Hash C b)) = Inr b2"
    using Put_total [OF assms(1)] by blast
  obtain b3 where b3: "put_all B (map utxo_kv us) (bucketOutputs ?bk) = Inr b3" using put_all_total [OF assms(1)] by blast
  obtain b4 where b4: "put_all B (map (\<lambda>ki. (ki, Raw (heightKey 0))) kis) (bucketKeyImages ?bk) = Inr b4"
    using put_all_total [OF assms(1)] by blast
  obtain b5 where b5: "put_tip B (Hash C b) 0 w (bucketMeta ?bk) = Inr b5" using put_tip_total [OF assms(1)] by blast
  show ?thesis
    unfolding CommitBlock_def Let_def
    by (simp add: assms(3))
      (rule db_Update_total [OF assms(1)], simp add: assms(3) check_main_tip_def meta b1 b2 b3 b4 b5)
qed

lemma genesis_valid: "validateGenesisBlock C P (GetGenesisBlock C P) = Inr ()"
  by (simp add: validateGenesisBlock_def GetGenesisBlock_def block_Size_def MaxBlockSize_def
      blockHeaderSerializedSize_def Let_def)

lemma fresh_checkpoints:
  "stores B st empty_ledger \<Longrightarrow> NewChain B env st = Inr c \<Longrightarrow> trustedCheckpoints c = None \<and> fastSyncUntilHeight c = 0"
  using stores_tip [of B st empty_ledger] by (auto simp: NewChain_def loadFromStorage_def empty_ledger_def)

lemma genesis_installs_fresh:
  assumes "sha3_32 C" "bolt_ok B" "bolt_total B" "stores B st empty_ledger" "NewChain B env st = Inr c"
  shows "\<exists>c'. addGenesisBlock C P B now (GetGenesisBlock C P) c = (Inr (), c')
    \<and> main_blocks B c' = [GetGenesisBlock C P]"
proof -
  let ?g = "GetGenesisBlock C P"
  have h: "bheight ?g = 0" "bdiff ?g = 4" "Transactions ?g = []" "Version (Header ?g) \<noteq> 0"
    by (simp_all add: GetGenesisBlock_def MinDifficulty_def)
  have v: "view_inv C B empty_ledger c"
    using restart_ok [OF assms(2) empty_ledger_ok assms(4), of env] assms(5) by auto
  then have st: "stores B (storage c) empty_ledger" by (simp add: view_inv_def mem_ok_def)
  have tip: "GetTip B (storage c) = (replicate 32 0, 0, 0, False)"
    using stores_tip [OF st] by (simp add: empty_ledger_def)
  have cps: "trustedCheckpoints c = None" using fresh_checkpoints [OF assms(4,5)] by simp
  have val: "validateBlockForProcessLocked C P B now ?g c = (Inr (), c)"
    using h cps genesis_valid [of C P]
    by (simp add: validateBlockForProcessLocked_def checkpoint_ok_def validateBlockWithContext_def Let_def)
  obtain st' where cm: "CommitBlock C B \<lparr>bc_Block = ?g, bc_Height = bheight ?g, bc_Hash = Hash C ?g, bc_Work = 4,
      bc_IsMainTip = True, bc_NewOutputs = [], bc_SpentKeyImgs = spent_images (Transactions ?g)\<rparr> (storage c) = (Inr (), st')"
    using CommitBlock_first [OF assms(3) st h(1)] by blast
  have w: "addCumulativeWork 0 4 = Inr 4" by (simp add: addCumulativeWork_Inr)
  have us: "block_utxos C 0 [] = Some []" by simp
  obtain r c' where a: "addGenesisBlock C P B now ?g c = (r, c')" by fastforce
  then have "r = Inr ()"
    using cm h by (auto simp: addGenesisBlock_def addBlockInternal_def tip val w us Let_def)
  moreover from this obtain L where "view_inv C B L c'" "chain_of C L [?g]"
    using addGenesisBlock_ok [OF assms(1) v a] by blast
  ultimately show ?thesis using a main_unique by fastforce
qed

section \<open>A sample node\<close>

definition sample_params :: net_params where
  "sample_params = \<lparr>IsTestnet = True, float_reward = (\<lambda>_. 0)\<rparr>"

definition sample_genesis :: Block where
  "sample_genesis = GetGenesisBlock sample_crypto sample_params"

definition sample_fresh :: "(bytes \<times> dbval) list chain" where
  "sample_fresh = projr (NewChain list_bolt None empty_store)"

definition sample_node :: "(bytes \<times> dbval) list chain" where
  "sample_node = snd (addGenesisBlock sample_crypto sample_params list_bolt (\<lambda>_. 0) sample_genesis sample_fresh)"

lemmas sample_ok = sample_crypto_sha3 list_bolt_ok

lemma sample_opens: "NewChain list_bolt None empty_store = Inr sample_fresh"
  using restart_ok [OF list_bolt_ok empty_ledger_ok [of sample_crypto] empty_stores, of None]
  by (auto simp: sample_fresh_def)

lemma sample_reachable: "reachable sample_crypto sample_params list_bolt sample_node"
  using reachable.genesis [OF reachable.opened [OF empty_stores sample_opens]]
  unfolding sample_node_def by (metis prod.collapse)

lemma sample_main: "main_blocks list_bolt sample_node = [sample_genesis]"
  using genesis_installs_fresh [OF sample_ok list_bolt_total empty_stores sample_opens, of sample_params "\<lambda>_. 0"]
  unfolding sample_node_def sample_genesis_def by auto

lemma sample_view: "\<exists>L. view_inv sample_crypto list_bolt L sample_node \<and> chain_of sample_crypto L [sample_genesis]"
  using reachable_view [OF sample_ok sample_reachable] view_main sample_main
  by (metis append_Nil list.distinct(1) rev.simps(1,2))

lemma ProcessBlock_known:
  "chain_HasBlock B c (Hash C block) \<Longrightarrow> ProcessBlock C P B now block c = (Inr (False, False), c)"
  by (auto simp: chain_HasBlock_def ProcessBlock_def Let_def)

lemma sample_known: "chain_HasBlock list_bolt sample_node (Hash sample_crypto sample_genesis)"
proof -
  obtain L where L: "view_inv sample_crypto list_bolt L sample_node" "chain_of sample_crypto L [sample_genesis]"
    using sample_view by blast
  then have "lblocks L (Hash sample_crypto sample_genesis) = Some sample_genesis"
    using main_nth(2) [of sample_crypto L "[sample_genesis]" 0] by (simp add: view_inv_def)
  then show ?thesis using view_has [OF L(1)] by simp
qed

section \<open>The properties at the sample node\<close>

theorem no_double_spend_witness:
  "main_blocks list_bolt sample_node = [sample_genesis]
   \<and> distinct (concat (map block_images (GetBlocksByHeightRange list_bolt sample_node 0 (height sample_node))))"
  using no_double_spend [OF sample_ok sample_reachable] sample_main by blast

theorem main_chain_linked_witness:
  "length (main_blocks list_bolt sample_node) = 1
   \<and> bestHash sample_node = Hash sample_crypto sample_genesis \<and> unat (totalWork sample_node) = 4"
proof -
  have "unat (bdiff sample_genesis) = 4" by (simp add: sample_genesis_def GetGenesisBlock_def MinDifficulty_def)
  then show ?thesis using main_chain_linked [OF sample_ok sample_reachable] unfolding sample_main by simp
qed

theorem spent_exact_witness:
  "\<not> isKeyImageSpentLocked list_bolt sample_node (replicate 32 0)"
proof -
  have "block_images sample_genesis = []"
    by (simp add: block_images_def sample_genesis_def GetGenesisBlock_def)
  then show ?thesis using spent_exact [OF sample_ok sample_reachable, of "replicate 32 0"] unfolding sample_main by simp
qed

theorem reorg_depth_bounded_witness:
  "fst (ProcessBlock sample_crypto sample_params list_bolt (\<lambda>_. 0) sample_genesis sample_node) = Inr (False, False)
   \<and> (\<exists>d \<le> unat MaxReorgDepth. take (1 - d) (main_blocks list_bolt
        (snd (ProcessBlock sample_crypto sample_params list_bolt (\<lambda>_. 0) sample_genesis sample_node)))
      = take (1 - d) [sample_genesis])"
  using reorg_depth_bounded [OF sample_ok sample_reachable
      ProcessBlock_known [OF sample_known, of sample_params "\<lambda>_. 0"]]
    ProcessBlock_known [OF sample_known, of sample_params "\<lambda>_. 0"] sample_main by simp

theorem work_never_drops_witness:
  "totalWork (snd (ProcessBlock sample_crypto sample_params list_bolt (\<lambda>_. 0) sample_genesis sample_node))
   = totalWork sample_node"
  using work_never_drops [OF sample_ok sample_reachable
      ProcessBlock_known [OF sample_known, of sample_params "\<lambda>_. 0"]]
    ProcessBlock_known [OF sample_known, of sample_params "\<lambda>_. 0"] by simp


theorem caches_bounded_witness: "fcard (fmdom (blocks sample_node)) \<le> cacheCap sample_node"
  using caches_bounded [OF sample_ok sample_reachable] by blast


theorem verdict_exact_witness:
  "process_valid sample_crypto sample_params (\<lambda>_. 0) None 0 empty_ledger sample_genesis"
proof -
  have v: "view_inv sample_crypto list_bolt empty_ledger sample_fresh"
    using restart_ok [OF list_bolt_ok empty_ledger_ok [of sample_crypto] empty_stores, of None] sample_opens by auto
  have c: "trustedCheckpoints sample_fresh = None" "fastSyncUntilHeight sample_fresh = 0"
    using fresh_checkpoints [OF empty_stores sample_opens] by simp_all
  have "validateBlockForProcessLocked sample_crypto sample_params list_bolt (\<lambda>_. 0) sample_genesis sample_fresh
      = (Inr (), sample_fresh)"
    using c genesis_valid [of sample_crypto sample_params]
    by (simp add: validateBlockForProcessLocked_def checkpoint_ok_def validateBlockWithContext_def Let_def
        sample_genesis_def) (simp add: GetGenesisBlock_def)
  then show ?thesis
    using verdict_exact [OF v, of sample_params "\<lambda>_. 0" sample_genesis] c by simp
qed

theorem restart_preserves_chain_witness:
  "\<exists>c'. NewChain list_bolt (Some 200) (storage sample_node) = Inr c' \<and> main_blocks list_bolt c' = [sample_genesis]"
  using restart_preserves_chain [OF sample_ok sample_reachable, of "Some 200"] sample_main by auto

text \<open>C12.  A fresh node can start.  On an empty database that accepts writes, opening the chain and
  installing the hard-coded genesis block succeed and the main chain is that block.\<close>

theorem genesis_installs:
  assumes "sha3_32 C" "bolt_ok B" "bolt_total B" "stores B st empty_ledger"
  shows "\<exists>c c'. NewChain B env st = Inr c
    \<and> addGenesisBlock C P B now (GetGenesisBlock C P) c = (Inr (), c') \<and> main_blocks B c' = [GetGenesisBlock C P]"
  using genesis_installs_fresh [OF assms(1-4)] restart_ok [OF assms(2) empty_ledger_ok assms(4)] by metis

theorem genesis_installs_witness:
  "\<exists>c c'. NewChain list_bolt None empty_store = Inr c
    \<and> addGenesisBlock sample_crypto sample_params list_bolt (\<lambda>_. 0) sample_genesis c = (Inr (), c')
    \<and> main_blocks list_bolt c' = [sample_genesis]"
  using genesis_installs [OF sample_ok list_bolt_total empty_stores, of None sample_params "\<lambda>_. 0"]
  by (simp add: sample_genesis_def)

end
