(* ===== verification/GoHeap.thy ===== *)
theory GoHeap
  imports GoSort
begin

text \<open>
  The parts of Go's \<open>container/heap\<close> that \<open>src/mempool.go\<close> uses.  The package works on any
  value that implements \<open>heap.Interface\<close>; here that is a record of the interface's methods on
  a state.  The locale \<open>heap_array\<close> is the contract the package relies on: the state behaves
  like an array that \<open>Swap\<close> permutes, and \<open>Less\<close> compares a key.
\<close>

record ('s, 'x) heap_if =
  hLen :: "'s \<Rightarrow> nat"
  hLess :: "'s \<Rightarrow> nat \<Rightarrow> nat \<Rightarrow> bool"
  hSwap :: "nat \<Rightarrow> nat \<Rightarrow> 's \<Rightarrow> 's"
  hPush :: "'x \<Rightarrow> 's \<Rightarrow> 's"
  hPop :: "'s \<Rightarrow> 's"

text \<open>In Go \<open>(j-1)/2\<close> is 0 for \<open>j = 0\<close>, as in HOL.\<close>

function heap_up :: "('s, 'x) heap_if \<Rightarrow> nat \<Rightarrow> 's \<Rightarrow> 's" where
  "heap_up I j s =
     (let i = (j - 1) div 2 in
      if i = j \<or> \<not> hLess I s j i then s else heap_up I i (hSwap I i j s))"
  by pat_completeness auto
termination by (relation "measure (\<lambda>(I, j, s). j)") auto

function down_loop :: "('s, 'x) heap_if \<Rightarrow> nat \<Rightarrow> nat \<Rightarrow> 's \<Rightarrow> nat \<times> 's" where
  "down_loop I n i s =
     (let j1 = 2 * i + 1 in
      if n \<le> j1 then (i, s)
      else let j2 = j1 + 1; j = (if j2 < n \<and> hLess I s j2 j1 then j2 else j1)
           in if \<not> hLess I s j i then (i, s) else down_loop I n j (hSwap I i j s))"
  by pat_completeness auto
termination by (relation "measure (\<lambda>(I, n, i, s). n - i)") (auto split: if_splits)

definition heap_down :: "('s, 'x) heap_if \<Rightarrow> nat \<Rightarrow> nat \<Rightarrow> 's \<Rightarrow> bool \<times> 's" where
  "heap_down I i0 n s = (case down_loop I n i0 s of (i, s) \<Rightarrow> (i0 < i, s))"

definition heap_Push :: "('s, 'x) heap_if \<Rightarrow> 'x \<Rightarrow> 's \<Rightarrow> 's" where
  "heap_Push I x s = (let s = hPush I x s in heap_up I (hLen I s - 1) s)"

definition heap_Remove :: "('s, 'x) heap_if \<Rightarrow> nat \<Rightarrow> 's \<Rightarrow> 's" where
  "heap_Remove I i s =
     (let n = hLen I s - 1;
          s = (if n \<noteq> i
               then (case heap_down I i n (hSwap I i n s) of (moved, s) \<Rightarrow> if moved then s else heap_up I i s)
               else s)
      in hPop I s)"

declare heap_up.simps [simp del] down_loop.simps [simp del]

section \<open>Arrays in heap order\<close>

text \<open>Position \<open>k\<close> of the first \<open>n\<close> is not above its parent.\<close>

definition ordered_at :: "('a \<Rightarrow> 'k::linorder) \<Rightarrow> nat \<Rightarrow> 'a list \<Rightarrow> nat \<Rightarrow> bool" where
  "ordered_at key n xs k \<longleftrightarrow> (0 < k \<and> k < n \<longrightarrow> key (xs ! k) \<le> key (xs ! ((k - 1) div 2)))"

definition heap_ordered :: "('a \<Rightarrow> 'k::linorder) \<Rightarrow> nat \<Rightarrow> 'a list \<Rightarrow> bool" where
  "heap_ordered key n xs \<longleftrightarrow> (\<forall>k. ordered_at key n xs k)"

text \<open>The children of \<open>i\<close> are not above the parent of \<open>i\<close>.\<close>

definition grand_ordered :: "('a \<Rightarrow> 'k::linorder) \<Rightarrow> nat \<Rightarrow> 'a list \<Rightarrow> nat \<Rightarrow> bool" where
  "grand_ordered key n xs i \<longleftrightarrow>
     (\<forall>k. 0 < i \<and> 0 < k \<and> k < n \<and> (k - 1) div 2 = i \<longrightarrow> key (xs ! k) \<le> key (xs ! ((i - 1) div 2)))"

lemma heap_root_max:
  assumes "heap_ordered key (length xs) xs" "x \<in> set xs"
  shows "key x \<le> key (xs ! 0)"
proof -
  have "k < length xs \<Longrightarrow> key (xs ! k) \<le> key (xs ! 0)" for k
  proof (induction k rule: less_induct)
    case (less k)
    show ?case
    proof (cases "k = 0")
      case False
      then have "key (xs ! k) \<le> key (xs ! ((k - 1) div 2))"
        using assms(1) less.prems by (auto simp: heap_ordered_def ordered_at_def)
      moreover have "(k - 1) div 2 < k" using False by linarith
      ultimately show ?thesis using less.IH [of "(k - 1) div 2"] less.prems by (meson order_trans less_trans)
    qed simp
  qed
  with assms(2) show ?thesis by (metis in_set_conv_nth)
qed

lemma swap_up_ordered:
  assumes ord: "\<And>k. k \<noteq> j \<Longrightarrow> ordered_at key n xs k" and gr: "grand_ordered key n xs j"
    and n: "n \<le> length xs" "j < n" "0 < j" and lt: "key (xs ! ((j - 1) div 2)) < key (xs ! j)"
  shows "k \<noteq> (j - 1) div 2 \<Longrightarrow> ordered_at key n (swap_at ((j - 1) div 2) j xs) k"
    and "grand_ordered key n (swap_at ((j - 1) div 2) j xs) ((j - 1) div 2)"
proof -
  define i where "i = (j - 1) div 2"
  have i: "i < j" unfolding i_def using n by linarith
  have nth: "swap_at i j xs ! k = (if k = j then xs ! i else if k = i then xs ! j else xs ! k)" if "k < n" for k
    using nth_swap_at [of i xs j k] i n that by simp
  have par: "(k - 1) div 2 < k" if "0 < k" for k :: nat using that by linarith
  have ji: "key (xs ! i) \<le> key (xs ! j)" using lt unfolding i_def by simp
  show "ordered_at key n (swap_at ((j - 1) div 2) j xs) k" if ne: "k \<noteq> (j - 1) div 2"
    unfolding ordered_at_def i_def [symmetric]
  proof (intro impI)
    assume k: "0 < k \<and> k < n"
    have pk: "(k - 1) div 2 < n" using par [of k] k by linarith
    show "key (swap_at i j xs ! k) \<le> key (swap_at i j xs ! ((k - 1) div 2))"
    proof (cases "k = j")
      case True
      then show ?thesis using nth [of k] nth [of i] k i ji n unfolding i_def by auto
    next
      case False
      have o: "key (xs ! k) \<le> key (xs ! ((k - 1) div 2))"
        using ord [OF False] k by (simp add: ordered_at_def)
      have g: "key (xs ! k) \<le> key (xs ! i)" if "(k - 1) div 2 = j"
        using gr that k n unfolding grand_ordered_def i_def by blast
      show ?thesis using nth [of k] nth [of "(k - 1) div 2"] pk k False ne o g ji unfolding i_def [symmetric]
        by (auto intro: order_trans)
    qed
  qed
  show "grand_ordered key n (swap_at ((j - 1) div 2) j xs) ((j - 1) div 2)"
    unfolding grand_ordered_def i_def [symmetric]
  proof (intro allI impI)
    fix k assume k: "0 < i \<and> 0 < k \<and> k < n \<and> (k - 1) div 2 = i"
    have pp: "(i - 1) div 2 < i" using par [of i] k by simp
    have oi: "key (xs ! i) \<le> key (xs ! ((i - 1) div 2))"
      using ord [of i] i k n by (auto simp: ordered_at_def)
    have ok: "key (xs ! k) \<le> key (xs ! i)" if "k \<noteq> j"
      using ord [OF that] k by (auto simp: ordered_at_def)
    have ki: "k \<noteq> i" using par [of k] k by simp
    show "key (swap_at i j xs ! k) \<le> key (swap_at i j xs ! ((i - 1) div 2))"
      using nth [of k] nth [of "(i - 1) div 2"] k pp i n oi ok ki by (auto intro: order_trans)
  qed
qed

lemma swap_down_ordered:
  assumes ord: "\<And>k. k \<noteq> i \<Longrightarrow> k = 0 \<or> (k - 1) div 2 \<noteq> i \<Longrightarrow> ordered_at key n xs k"
    and gr: "grand_ordered key n xs i" and n: "n \<le> length xs" "j < n"
    and j: "0 < j" "(j - 1) div 2 = i" and lt: "key (xs ! i) < key (xs ! j)"
    and big: "\<And>k. 0 < k \<Longrightarrow> k < n \<Longrightarrow> (k - 1) div 2 = i \<Longrightarrow> key (xs ! k) \<le> key (xs ! j)"
  shows "k = 0 \<or> (k - 1) div 2 \<noteq> j \<Longrightarrow> ordered_at key n (swap_at i j xs) k"
    and "grand_ordered key n (swap_at i j xs) j"
proof -
  have i: "i < j" using j by linarith
  have nth: "swap_at i j xs ! k = (if k = j then xs ! i else if k = i then xs ! j else xs ! k)" if "k < n" for k
    using nth_swap_at [of i xs j k] i n that by simp
  have par: "(k - 1) div 2 < k" if "0 < k" for k :: nat using that by linarith
  show "ordered_at key n (swap_at i j xs) k" if p: "k = 0 \<or> (k - 1) div 2 \<noteq> j"
    unfolding ordered_at_def
  proof (intro impI)
    assume k: "0 < k \<and> k < n"
    have pk: "(k - 1) div 2 < n" using par [of k] k by linarith
    have o: "key (xs ! k) \<le> key (xs ! ((k - 1) div 2))" if "k \<noteq> i" "(k - 1) div 2 \<noteq> i"
      using ord [of k] that k by (simp add: ordered_at_def)
    have g: "key (xs ! j) \<le> key (xs ! ((i - 1) div 2))" if "k = i"
      using gr j n k that unfolding grand_ordered_def by blast
    have b: "key (xs ! k) \<le> key (xs ! j)" if "(k - 1) div 2 = i" using big that k by blast
    have pi: "(i - 1) div 2 \<noteq> i \<or> i = 0" using par [of i] by linarith
    show "key (swap_at i j xs ! k) \<le> key (swap_at i j xs ! ((k - 1) div 2))"
      using nth [of k] nth [of "(k - 1) div 2"] pk k i o g b lt p j pi n by (auto dest: less_imp_le)
  qed
  show "grand_ordered key n (swap_at i j xs) j"
    unfolding grand_ordered_def
  proof (intro allI impI)
    fix k assume k: "0 < j \<and> 0 < k \<and> k < n \<and> (k - 1) div 2 = j"
    then have "j < k" using par [of k] by auto
    then have "key (xs ! k) \<le> key (xs ! j)" using ord [of k] k i by (auto simp: ordered_at_def)
    then show "key (swap_at i j xs ! k) \<le> key (swap_at i j xs ! ((j - 1) div 2))"
      using nth [of k] nth [of i] k i \<open>j < k\<close> j n by auto
  qed
qed

lemma heap_swap_last:
  assumes h: "heap_ordered key (Suc n) xs" and n: "length xs = Suc n" "i < n"
  shows "k \<noteq> i \<Longrightarrow> k = 0 \<or> (k - 1) div 2 \<noteq> i \<Longrightarrow> ordered_at key n (swap_at i n xs) k"
    and "grand_ordered key n (swap_at i n xs) i"
proof -
  have o: "0 < k \<Longrightarrow> k \<le> n \<Longrightarrow> key (xs ! k) \<le> key (xs ! ((k - 1) div 2))" for k
    using h by (auto simp: heap_ordered_def ordered_at_def)
  have par: "(k - 1) div 2 < k" if "0 < k" for k :: nat using that by linarith
  have nth: "swap_at i n xs ! k = (if k = i then xs ! n else xs ! k)" if "k < n" for k
    using nth_swap_at [of i xs n k] n that by simp
  show "ordered_at key n (swap_at i n xs) k" if "k \<noteq> i" "k = 0 \<or> (k - 1) div 2 \<noteq> i"
    using nth [of k] nth [of "(k - 1) div 2"] o [of k] par [of k] that by (auto simp: ordered_at_def)
  show "grand_ordered key n (swap_at i n xs) i"
    unfolding grand_ordered_def
  proof (intro allI impI)
    fix k assume k: "0 < i \<and> 0 < k \<and> k < n \<and> (k - 1) div 2 = i"
    then have "key (xs ! k) \<le> key (xs ! ((i - 1) div 2))"
      using o [of k] o [of i] n by (auto intro: order_trans)
    then show "key (swap_at i n xs ! k) \<le> key (swap_at i n xs ! ((i - 1) div 2))"
      using nth [of k] nth [of "(i - 1) div 2"] par [of k] par [of i] k n by auto
  qed
qed

section \<open>The contract of the interface and what the package gives for it\<close>

locale heap_array =
  fixes I :: "('s, 'x) heap_if" and arr :: "'s \<Rightarrow> 'a list" and key :: "'a \<Rightarrow> 'k::linorder"
    and inv :: "'s \<Rightarrow> bool" and pushable :: "'x \<Rightarrow> 's \<Rightarrow> bool" and elt :: "'x \<Rightarrow> 's \<Rightarrow> 'a"
  assumes len_law: "inv s \<Longrightarrow> hLen I s = length (arr s)"
    and less_law: "\<lbrakk>inv s; i < length (arr s); j < length (arr s)\<rbrakk>
      \<Longrightarrow> hLess I s i j = (key (arr s ! j) < key (arr s ! i))"
    and swap_law: "\<lbrakk>inv s; i < length (arr s); j < length (arr s); i \<noteq> j\<rbrakk>
      \<Longrightarrow> inv (hSwap I i j s) \<and> arr (hSwap I i j s) = swap_at i j (arr s)"
    and push_law: "\<lbrakk>inv s; pushable x s\<rbrakk> \<Longrightarrow> inv (hPush I x s) \<and> arr (hPush I x s) = arr s @ [elt x s]"
    and pop_law: "\<lbrakk>inv s; arr s \<noteq> []\<rbrakk> \<Longrightarrow> inv (hPop I s) \<and> arr (hPop I s) = butlast (arr s)"
begin

lemma up_ok:
  assumes "inv s" "j < n" "n \<le> length (arr s)" "\<And>k. k \<noteq> j \<Longrightarrow> ordered_at key n (arr s) k"
    "grand_ordered key n (arr s) j"
  shows "inv (heap_up I j s) \<and> mset (arr (heap_up I j s)) = mset (arr s)
    \<and> heap_ordered key n (arr (heap_up I j s)) \<and> (\<forall>k. j < k \<longrightarrow> k < length (arr s) \<longrightarrow> arr (heap_up I j s) ! k = arr s ! k)"
  using assms
proof (induction j arbitrary: s rule: less_induct)
  case (less j)
  define i where "i = (j - 1) div 2"
  have step: "heap_up I j s = (if i = j \<or> \<not> hLess I s j i then s else heap_up I i (hSwap I i j s))"
    unfolding heap_up.simps [of I j s] i_def by (simp add: Let_def)
  have il: "i < length (arr s)" "j < length (arr s)" using less.prems unfolding i_def by linarith+
  have ls: "hLess I s j i = (key (arr s ! i) < key (arr s ! j))" using less_law less.prems(1) il by simp
  show ?case
  proof (cases "i = j \<or> \<not> hLess I s j i")
    case True
    have "ordered_at key n (arr s) j"
      using True ls unfolding ordered_at_def i_def by (auto simp: not_less)
    then have "heap_ordered key n (arr s)" using less.prems(4) unfolding heap_ordered_def by metis
    then show ?thesis using True less.prems(1) step by simp
  next
    case False
    then have j0: "0 < j" and ij: "i < j" unfolding i_def by (auto intro: ccontr)
    have lt: "key (arr s ! i) < key (arr s ! j)" using False ls by simp
    have sw: "inv (hSwap I i j s)" "arr (hSwap I i j s) = swap_at i j (arr s)"
      using swap_law [OF less.prems(1) il(1) il(2)] ij by auto
    have ord: "k \<noteq> i \<Longrightarrow> ordered_at key n (swap_at i j (arr s)) k" for k
      unfolding i_def by (rule swap_up_ordered(1) [OF less.prems(4,5,3,2) j0 lt [unfolded i_def]])
    have gr: "grand_ordered key n (swap_at i j (arr s)) i"
      unfolding i_def by (rule swap_up_ordered(2) [OF less.prems(4,5,3,2) j0 lt [unfolded i_def]])
    have "i < n" using ij less.prems(2) by simp
    from less.IH [OF ij sw(1) this] sw(2) ord gr less.prems(3)
    show ?thesis using False step il ij nth_swap_at [OF il] by (auto simp: nth_swap_at)
  qed
qed

lemma down_loop_ok:
  assumes "inv s" "i < n" "n \<le> length (arr s)"
    "\<And>k. k \<noteq> i \<Longrightarrow> k = 0 \<or> (k - 1) div 2 \<noteq> i \<Longrightarrow> ordered_at key n (arr s) k"
    "grand_ordered key n (arr s) i" "down_loop I n i s = (i', s')"
  shows "inv s' \<and> mset (arr s') = mset (arr s) \<and> (\<forall>k. n \<le> k \<longrightarrow> k < length (arr s) \<longrightarrow> arr s' ! k = arr s ! k)
    \<and> (\<forall>k. k \<noteq> i \<longrightarrow> ordered_at key n (arr s') k) \<and> i \<le> i' \<and> (i' = i \<longrightarrow> s' = s)
    \<and> (i' \<noteq> i \<or> ordered_at key n (arr s) i \<longrightarrow> ordered_at key n (arr s') i)"
  using assms
proof (induction "n - i" arbitrary: i s rule: less_induct)
  case (less i s)
  define j where "j = (if 2 * i + 2 < n \<and> hLess I s (2 * i + 2) (2 * i + 1) then 2 * i + 2 else 2 * i + 1)"
  have step: "down_loop I n i s = (if n \<le> 2 * i + 1 \<or> \<not> hLess I s j i then (i, s) else down_loop I n j (hSwap I i j s))"
    unfolding down_loop.simps [of I n i s] j_def by (simp add: Let_def)
  have kids: "k = 2 * i + 1 \<or> k = 2 * i + 2" if "0 < k" "(k - 1) div 2 = i" for k :: nat
    using that by presburger
  have big: "key (arr s ! k) \<le> key (arr s ! j)" if k: "0 < k" "k < n" "(k - 1) div 2 = i" for k
  proof -
    have "2 * i + 1 < n" using kids [OF k(1,3)] k(2) by auto
    then have "2 * i + 2 < n \<Longrightarrow> hLess I s (2 * i + 2) (2 * i + 1) = (key (arr s ! (2 * i + 1)) < key (arr s ! (2 * i + 2)))"
      using less_law [OF less.prems(1), of "2 * i + 2" "2 * i + 1"] less.prems(3) by simp
    then show ?thesis using kids [OF k(1,3)] k(2) unfolding j_def by auto
  qed
  show ?case
  proof (cases "n \<le> 2 * i + 1 \<or> \<not> hLess I s j i")
    case True
    have "ordered_at key n (arr s) k" if ki: "k \<noteq> i" for k
    proof (cases "k = 0 \<or> (k - 1) div 2 \<noteq> i")
      case False
      have "key (arr s ! k) \<le> key (arr s ! i)" if kn: "k < n"
      proof -
        have "j < n" using kids [of k] False kn unfolding j_def by auto
        moreover have "\<not> n \<le> 2 * i + 1" using kids [of k] False kn by auto
        ultimately have "key (arr s ! j) \<le> key (arr s ! i)"
          using True less_law [OF less.prems(1), of j i] less.prems(2,3) by (simp add: not_less)
        then show ?thesis using big [of k] False kn by (auto intro: order_trans)
      qed
      then show ?thesis using False by (simp add: ordered_at_def)
    qed (use less.prems(4) ki in blast)
    then show ?thesis using True step less.prems(1,6) by auto
  next
    case False
    have jn: "j < n" "0 < j" "(j - 1) div 2 = i" "i < j" using False unfolding j_def by auto
    have il: "i < length (arr s)" "j < length (arr s)" using jn less.prems(2,3) by auto
    have lt: "key (arr s ! i) < key (arr s ! j)" using False less_law [OF less.prems(1) il(2,1)] by simp
    have sw: "inv (hSwap I i j s)" "arr (hSwap I i j s) = swap_at i j (arr s)"
      using swap_law [OF less.prems(1) il] jn by auto
    note so = swap_down_ordered [OF less.prems(4,5,3) jn(1,2,3) lt big]
    have d: "down_loop I n j (hSwap I i j s) = (i', s')" using step False less.prems(6) by simp
    have ord: "k = 0 \<or> (k - 1) div 2 \<noteq> j \<Longrightarrow> ordered_at key n (arr (hSwap I i j s)) k" for k
      unfolding sw(2) by (rule so(1))
    have gr: "grand_ordered key n (arr (hSwap I i j s)) j" unfolding sw(2) by (rule so(2))
    have oj: "ordered_at key n (arr (hSwap I i j s)) j" by (rule ord) (use jn in auto)
    have "n - j < n - i" using jn by linarith
    from less.hyps [OF this sw(1) jn(1) _ ord gr d] less.prems(3) sw(2)
    have IH: "inv s'" "mset (arr s') = mset (swap_at i j (arr s))"
      "\<And>k. n \<le> k \<Longrightarrow> k < length (arr s) \<Longrightarrow> arr s' ! k = swap_at i j (arr s) ! k"
      "\<And>k. k \<noteq> j \<Longrightarrow> ordered_at key n (arr s') k" "j \<le> i'" "ordered_at key n (arr s') j"
      using oj by auto
    have all: "ordered_at key n (arr s') k" for k using IH(4,6) by metis
    show ?thesis
      using IH all jn il less.prems(2) nth_swap_at [OF il] by auto
  qed
qed

lemma down_loop_beyond: "n \<le> 2 * i + 1 \<Longrightarrow> down_loop I n i s = (i, s)"
  by (simp add: down_loop.simps Let_def)

lemma Push_ok:
  assumes "inv s" "pushable x s" "heap_ordered key (length (arr s)) (arr s)"
  shows "inv (heap_Push I x s) \<and> mset (arr (heap_Push I x s)) = add_mset (elt x s) (mset (arr s))
    \<and> heap_ordered key (length (arr (heap_Push I x s))) (arr (heap_Push I x s))"
proof -
  let ?s = "hPush I x s"
  have p: "inv ?s" "arr ?s = arr s @ [elt x s]" using push_law [OF assms(1,2)] by auto
  have ord: "ordered_at key (length (arr ?s)) (arr ?s) k" if "k \<noteq> length (arr s)" for k
  proof -
    have "(k - 1) div 2 < length (arr s)" if "k < length (arr s)" using that by linarith
    then show ?thesis using that assms(3) p(2)
      by (auto simp: heap_ordered_def ordered_at_def nth_append less_Suc_eq)
  qed
  have gr: "grand_ordered key (length (arr ?s)) (arr ?s) (length (arr s))"
    unfolding grand_ordered_def p(2) by auto
  have e: "heap_Push I x s = heap_up I (length (arr s)) ?s"
    unfolding heap_Push_def using len_law [OF p(1)] p(2) by (simp add: Let_def)
  have up: "inv (heap_Push I x s)" "mset (arr (heap_Push I x s)) = mset (arr ?s)"
    "heap_ordered key (length (arr ?s)) (arr (heap_Push I x s))"
    using up_ok [OF p(1) _ order_refl ord gr] p(2) unfolding e by auto
  show ?thesis using up mset_eq_length [OF up(2)] p(2) by auto
qed

lemma Remove_ok:
  assumes inv: "inv s" and i: "i < length (arr s)" and h: "heap_ordered key (length (arr s)) (arr s)"
  shows "inv (heap_Remove I i s) \<and> mset (arr s) = add_mset (arr s ! i) (mset (arr (heap_Remove I i s)))
    \<and> heap_ordered key (length (arr (heap_Remove I i s))) (arr (heap_Remove I i s))"
proof -
  obtain n where n: "length (arr s) = Suc n" using i by (cases "length (arr s)") auto
  have hl: "hLen I s - 1 = n" using len_law [OF inv] n by simp
  have popped: "?thesis"
    if t: "inv t" "mset (arr t) = mset (arr s)" "arr t ! n = arr s ! i" "heap_ordered key n (arr t)"
      and r: "heap_Remove I i s = hPop I t" for t
  proof -
    have len: "length (arr t) = Suc n" using mset_eq_length [OF t(2)] n by simp
    then have ne: "arr t \<noteq> []" by auto
    have last: "last (arr t) = arr s ! i" using t(3) len ne by (simp add: last_conv_nth)
    have pop: "inv (hPop I t)" "arr (hPop I t) = butlast (arr t)" using pop_law [OF t(1) ne] by auto
    have "mset (arr t) = add_mset (last (arr t)) (mset (butlast (arr t)))"
      by (metis add_mset_add_single append_butlast_last_id mset_append mset_single_iff_right ne mset.simps(1,2))
    moreover have "heap_ordered key n (butlast (arr t))"
      unfolding heap_ordered_def ordered_at_def
    proof (intro allI impI)
      fix k assume k: "0 < k \<and> k < n"
      then have "(k - 1) div 2 < n" by linarith
      then show "key (butlast (arr t) ! k) \<le> key (butlast (arr t) ! ((k - 1) div 2))"
        using t(4) k len by (auto simp: heap_ordered_def ordered_at_def nth_butlast)
    qed
    ultimately show ?thesis using pop last r t(2) len by simp
  qed
  show ?thesis
  proof (cases "n = i")
    case True
    have "heap_ordered key n (arr s)" using h n by (auto simp: heap_ordered_def ordered_at_def)
    then show ?thesis using popped [OF inv refl] True hl by (simp add: heap_Remove_def)
  next
    case False
    then have il: "i < n" using i n by simp
    let ?s = "hSwap I i n s"
    have sw: "inv ?s" "arr ?s = swap_at i n (arr s)" using swap_law [OF inv i] n il by auto
    note hs = heap_swap_last [OF h [unfolded n] n il, folded sw(2)]
    obtain i' t where d: "down_loop I n i ?s = (i', t)" by fastforce
    have ln: "n \<le> length (arr ?s)" using sw n by simp
    note dl = down_loop_ok [OF sw(1) il ln hs d]
    have at: "arr ?s ! n = arr s ! i" unfolding sw(2) using n il by (simp add: nth_swap_at)
    have ms: "mset (arr ?s) = mset (arr s)" unfolding sw(2) using n il by simp
    have nl: "n < length (arr ?s)" using sw n by simp
    show ?thesis
    proof (cases "i < i'")
      case True
      have "heap_ordered key n (arr t)" using dl True unfolding heap_ordered_def by (metis less_irrefl)
      then show ?thesis
        using popped [of t] dl at ms nl d True False hl by (auto simp: heap_Remove_def heap_down_def Let_def)
    next
      case nm: False
      then have t: "t = ?s" "i' = i" using dl by auto
      have ord: "k \<noteq> i \<Longrightarrow> ordered_at key n (arr ?s) k" for k using dl t by blast
      note u = up_ok [OF sw(1) il ln ord hs(2)]
      show ?thesis
        using popped [of "heap_up I i ?s"] u at ms nl il d t False hl
        by (auto simp: heap_Remove_def heap_down_def Let_def)
    qed
  qed
qed

end

end
