(* ===== verification/Mempool.thy ===== *)
theory Mempool
  imports BlockValidation GoHeap
begin

text \<open>
  The pool of unconfirmed transactions (\<open>src/mempool.go\<close>).

  An entry is shared between the table \<open>txByID\<close> and the priority queue, and the queue's \<open>Swap\<close>
  writes the field \<open>index\<close> that \<open>removeTxByID\<close> reads.  Entries therefore live at addresses:
  \<open>memory\<close> is the store, \<open>fresh\<close> the next free address, and table and queue hold addresses.

  Go ranges over a map in an order of its own choosing.  An operation that does so takes the order
  as an argument \<open>ord\<close>, and \<open>range_order ord\<close> says that it lists every pair of the map once.  No
  operation ranges over the same map twice.  Times are nanoseconds; Go's \<open>int\<close> does not overflow
  for sizes that fit into memory, so sizes are \<open>int\<close>.
\<close>

record MempoolConfig =
  MaxSize :: int
  MaxSizeBytes :: int
  MinFeeRate :: u64
  ExpirationTime :: int

definition DefaultMempoolConfig :: MempoolConfig where
  "DefaultMempoolConfig = \<lparr>MaxSize = 5000, MaxSizeBytes = 100 * 1024 * 1024, MinFeeRate = 1,
     ExpirationTime = 24 * 3600 * 1000000000\<rparr>"

record MempoolEntry =
  me_Tx :: Transaction
  me_TxID :: hash
  me_TxData :: bytes
  me_Fee :: u64
  me_FeeRate :: u64
  me_Size :: int
  me_AddedAt :: int
  me_Height :: u64
  me_index :: int

record mempool =
  config :: MempoolConfig
  txByID :: "(hash, nat) fmap"
  txByImage :: "hash \<rightharpoonup> hash"
  priorityQueue :: "nat list"
  totalSize :: int
  memory :: "nat \<Rightarrow> MempoolEntry"
  fresh :: nat

datatype mempool_error =
    InvalidTxData decode_error | CoinbaseInMempool | TxIDPanic | MempoolDoubleSpend hash
  | ValidationFailed tx_error | FeeRateTooLow u64 | MempoolFull | MempoolSizeLimit

type_synonym map_order = "(hash, nat) fmap \<Rightarrow> (hash \<times> nat) list"

definition range_order :: "map_order \<Rightarrow> bool" where
  "range_order ord \<longleftrightarrow>
     (\<forall>m. distinct (ord m) \<and> (\<forall>k p. (k, p) \<in> set (ord m) \<longleftrightarrow> fmlookup m k = Some p))"

definition zero_entry :: MempoolEntry where
  "zero_entry = \<lparr>me_Tx = \<lparr>TxVersion = 0, Inputs = [], Outputs = [], Fee = 0, TxPublicKey = replicate 32 0\<rparr>,
     me_TxID = replicate 32 0, me_TxData = [], me_Fee = 0, me_FeeRate = 0, me_Size = 0, me_AddedAt = 0,
     me_Height = 0, me_index = 0\<rparr>"

definition NewMempool :: "MempoolConfig \<Rightarrow> mempool" where
  "NewMempool cfg = \<lparr>config = cfg, txByID = fmempty, txByImage = Map.empty, priorityQueue = [], totalSize = 0,
     memory = (\<lambda>_. zero_entry), fresh = 0\<rparr>"

section \<open>The priority queue\<close>

definition pq_Less :: "mempool \<Rightarrow> nat \<Rightarrow> nat \<Rightarrow> bool" where
  "pq_Less m i j = (me_FeeRate (memory m (priorityQueue m ! j)) < me_FeeRate (memory m (priorityQueue m ! i)))"

definition set_index :: "nat \<Rightarrow> int \<Rightarrow> mempool \<Rightarrow> mempool" where
  "set_index p i m = m\<lparr>memory := (memory m)(p := (memory m p)\<lparr>me_index := i\<rparr>)\<rparr>"

definition pq_Swap :: "nat \<Rightarrow> nat \<Rightarrow> mempool \<Rightarrow> mempool" where
  "pq_Swap i j m =
     (let m = m\<lparr>priorityQueue := swap_at i j (priorityQueue m)\<rparr>;
          m = set_index (priorityQueue m ! i) (int i) m
      in set_index (priorityQueue m ! j) (int j) m)"

definition pq_Push :: "nat \<Rightarrow> mempool \<Rightarrow> mempool" where
  "pq_Push p m =
     (let n = length (priorityQueue m); m = set_index p (int n) m
      in m\<lparr>priorityQueue := priorityQueue m @ [p]\<rparr>)"

definition pq_Pop :: "mempool \<Rightarrow> mempool" where
  "pq_Pop m =
     (let p = last (priorityQueue m); m = set_index p (- 1) m
      in m\<lparr>priorityQueue := butlast (priorityQueue m)\<rparr>)"

definition txPriorityQueue :: "(mempool, nat) heap_if" where
  "txPriorityQueue = \<lparr>hLen = (\<lambda>m. length (priorityQueue m)), hLess = pq_Less, hSwap = pq_Swap,
     hPush = pq_Push, hPop = pq_Pop\<rparr>"

section \<open>Removal and eviction\<close>

definition forget_images :: "TxInput list \<Rightarrow> (hash \<rightharpoonup> hash) \<Rightarrow> (hash \<rightharpoonup> hash)" where
  "forget_images ins im = fold (\<lambda>input im. im(KeyImage input := None)) ins im"

definition note_images :: "hash \<Rightarrow> TxInput list \<Rightarrow> (hash \<rightharpoonup> hash) \<Rightarrow> (hash \<rightharpoonup> hash)" where
  "note_images txID ins im = fold (\<lambda>input im. im(KeyImage input \<mapsto> txID)) ins im"

definition removeTxByID :: "hash \<Rightarrow> mempool \<Rightarrow> mempool" where
  "removeTxByID txID m =
     (case fmlookup (txByID m) txID of
        None \<Rightarrow> m
      | Some p \<Rightarrow>
          let entry = memory m p;
              m = m\<lparr>txByID := fmdrop txID (txByID m),
                    txByImage := forget_images (Inputs (me_Tx entry)) (txByImage m),
                    totalSize := totalSize m - me_Size entry\<rparr>
          in if 0 \<le> me_index entry \<and> me_index entry < int (length (priorityQueue m))
             then heap_Remove txPriorityQueue (nat (me_index entry)) m else m)"

definition RemoveTransactions :: "hash list \<Rightarrow> mempool \<Rightarrow> mempool" where
  "RemoveTransactions txIDs m = fold removeTxByID txIDs m"

definition RemoveByKeyImage :: "hash \<Rightarrow> mempool \<Rightarrow> mempool" where
  "RemoveByKeyImage keyImage m =
     (case txByImage m keyImage of Some txID \<Rightarrow> removeTxByID txID m | None \<Rightarrow> m)"

text \<open>The oldest entry in the order of the iteration: the first of those added earliest.\<close>

fun oldest_from :: "(nat \<Rightarrow> MempoolEntry) \<Rightarrow> (hash \<times> nat) option \<Rightarrow> (hash \<times> nat) list \<Rightarrow> (hash \<times> nat) option" where
  "oldest_from mem oldest [] = oldest"
| "oldest_from mem oldest ((txID, p) # rest) =
     oldest_from mem
       (case oldest of
          None \<Rightarrow> Some (txID, p)
        | Some (_, q) \<Rightarrow> if me_AddedAt (mem p) < me_AddedAt (mem q) then Some (txID, p) else oldest)
       rest"

definition evictLowest :: "map_order \<Rightarrow> u64 \<Rightarrow> mempool \<Rightarrow> bool \<times> mempool" where
  "evictLowest ord minFeeRate m =
     (if priorityQueue m = [] then (False, m)
      else case oldest_from (memory m) None (ord (txByID m)) of
        None \<Rightarrow> (False, m)
      | Some (oldestID, oldest) \<Rightarrow>
          if me_FeeRate (memory m oldest) < minFeeRate then (True, removeTxByID oldestID m) else (False, m))"

text \<open>The loop that makes room, with a bound on its rounds; \<^const>\<open>None\<close> is a loop that has not ended.\<close>

fun evict_loop :: "map_order \<Rightarrow> u64 \<Rightarrow> int \<Rightarrow> nat \<Rightarrow> mempool \<Rightarrow> (bool \<times> mempool) option" where
  "evict_loop ord feeRate sz 0 m = None"
| "evict_loop ord feeRate sz (Suc fuel) m =
     (if MaxSizeBytes (config m) < totalSize m + sz \<and> priorityQueue m \<noteq> []
      then (case evictLowest ord feeRate m of
              (False, m) \<Rightarrow> Some (False, m)
            | (True, m) \<Rightarrow> evict_loop ord feeRate sz fuel m)
      else Some (True, m))"

section \<open>Adding a transaction\<close>

text \<open>The insertion that \<open>AddTransaction\<close> and \<open>OnBlockDisconnected\<close> share.\<close>

definition insert_entry :: "Transaction \<Rightarrow> hash \<Rightarrow> bytes \<Rightarrow> u64 \<Rightarrow> int \<Rightarrow> mempool \<Rightarrow> mempool" where
  "insert_entry tx txID txData feeRate now m =
     (let p = fresh m;
          size = int (length txData);
          entry = \<lparr>me_Tx = tx, me_TxID = txID, me_TxData = txData, me_Fee = Fee tx, me_FeeRate = feeRate,
                   me_Size = size, me_AddedAt = now, me_Height = 0, me_index = 0\<rparr>;
          m = m\<lparr>memory := (memory m)(p := entry), fresh := Suc p,
                txByID := fmupd txID p (txByID m),
                txByImage := note_images txID (Inputs tx) (txByImage m)\<rparr>;
          m = heap_Push txPriorityQueue p m
      in m\<lparr>totalSize := totalSize m + size\<rparr>)"

fun mempool_conflict :: "(hash \<rightharpoonup> hash) \<Rightarrow> TxInput list \<Rightarrow> hash option" where
  "mempool_conflict im [] = None"
| "mempool_conflict im (input # ins) =
     (case im (KeyImage input) of Some existingTxID \<Rightarrow> Some existingTxID | None \<Rightarrow> mempool_conflict im ins)"

text \<open>\<open>make_room\<close>: the two limit checks; \<open>Inl\<close> the error of the first that fails.\<close>

definition make_room :: "map_order \<Rightarrow> u64 \<Rightarrow> int \<Rightarrow> mempool \<Rightarrow> ((mempool_error + unit) \<times> mempool) option" where
  "make_room ord feeRate sz m =
     (case (if MaxSize (config m) \<le> int (fcard (fmdom (txByID m))) then evictLowest ord feeRate m else (True, m)) of
        (False, m) \<Rightarrow> Some (Inl MempoolFull, m)
      | (True, m) \<Rightarrow>
          (if MaxSizeBytes (config m) < totalSize m + sz
           then (case evict_loop ord feeRate sz (Suc (length (priorityQueue m))) m of
                   None \<Rightarrow> None
                 | Some (False, m) \<Rightarrow> Some (Inl MempoolSizeLimit, m)
                 | Some (True, m) \<Rightarrow> Some (Inr (), m))
           else Some (Inr (), m)))"

definition AddTransaction :: "crypto \<Rightarrow> KeyImageChecker \<Rightarrow> 's RingMemberChecker \<Rightarrow> map_order \<Rightarrow> int \<Rightarrow> Transaction
    \<Rightarrow> bytes \<Rightarrow> mempool \<Rightarrow> 's \<Rightarrow> ((mempool_error + unit) \<times> mempool \<times> 's) option" where
  "AddTransaction C isSpent isCanonical ord now tx txData m s =
     (case DeserializeTx txData of
        Inl e \<Rightarrow> Some (Inl (InvalidTxData e), m, s)
      | Inr parsedTx \<Rightarrow>
     (if IsCoinbase parsedTx then Some (Inl CoinbaseInMempool, m, s)
      else case TxID C parsedTx of
        None \<Rightarrow> Some (Inl TxIDPanic, m, s)
      | Some txID \<Rightarrow>
     (if txID |\<in>| fmdom (txByID m) then Some (Inr (), m, s)
      else case mempool_conflict (txByImage m) (Inputs parsedTx) of
        Some existingTxID \<Rightarrow> Some (Inl (MempoolDoubleSpend existingTxID), m, s)
      | None \<Rightarrow>
     (case ValidateTransaction C parsedTx isSpent (Some isCanonical) s of
        (Inl e, s) \<Rightarrow> Some (Inl (ValidationFailed e), m, s)
      | (Inr _, s) \<Rightarrow>
          let size = length txData; feeRate = Fee tx div word_of_nat size in
          if feeRate < MinFeeRate (config m) then Some (Inl (FeeRateTooLow feeRate), m, s)
          else case make_room ord feeRate (int size) m of
            None \<Rightarrow> None
          | Some (Inl e, m) \<Rightarrow> Some (Inl e, m, s)
          | Some (Inr _, m) \<Rightarrow> Some (Inr (), insert_entry parsedTx txID txData feeRate now m, s)))))"

section \<open>Queries and block templates\<close>

definition GetTransaction :: "hash \<Rightarrow> mempool \<Rightarrow> Transaction option" where
  "GetTransaction txID m = map_option (\<lambda>p. me_Tx (memory m p)) (fmlookup (txByID m) txID)"

definition HasTransaction :: "hash \<Rightarrow> mempool \<Rightarrow> bool" where
  "HasTransaction txID m \<longleftrightarrow> txID |\<in>| fmdom (txByID m)"

definition HasKeyImage :: "hash \<Rightarrow> mempool \<Rightarrow> bool" where
  "HasKeyImage keyImage m \<longleftrightarrow> txByImage m keyImage \<noteq> None"

definition mempool_Size :: "mempool \<Rightarrow> nat" where
  "mempool_Size m = fcard (fmdom (txByID m))"

definition SizeBytes :: "mempool \<Rightarrow> int" where
  "SizeBytes m = totalSize m"

definition GetAllTransactionData :: "map_order \<Rightarrow> mempool \<Rightarrow> bytes list" where
  "GetAllTransactionData ord m = map (\<lambda>(txID, p). me_TxData (memory m p)) (ord (txByID m))"

definition sort_by_rate :: "MempoolEntry list \<Rightarrow> MempoolEntry list" where
  "sort_by_rate es = fold (sort_inner (\<lambda>a b. me_FeeRate b < me_FeeRate a)) [0..<length es - 1] es"

definition GetAllEntries :: "map_order \<Rightarrow> mempool \<Rightarrow> MempoolEntry list" where
  "GetAllEntries ord m = sort_by_rate (map (\<lambda>(txID, p). memory m p) (ord (txByID m)))"

fun select_entries :: "int \<Rightarrow> nat \<Rightarrow> nat \<Rightarrow> int \<Rightarrow> MempoolEntry list \<Rightarrow> MempoolEntry list" where
  "select_entries maxSize maxCount n acc [] = []"
| "select_entries maxSize maxCount n acc (entry # rest) =
     (if maxCount \<le> n then []
      else if maxSize < acc + me_Size entry then select_entries maxSize maxCount n acc rest
      else entry # select_entries maxSize maxCount (Suc n) (acc + me_Size entry) rest)"

definition GetTransactionsForBlock :: "map_order \<Rightarrow> int \<Rightarrow> nat \<Rightarrow> mempool \<Rightarrow> Transaction list" where
  "GetTransactionsForBlock ord maxSize maxCount m =
     map me_Tx (select_entries maxSize maxCount 0 0
       (sort_by_rate (map (\<lambda>(txID, p). memory m p) (ord (txByID m)))))"

section \<open>Clearing, expiry and blocks\<close>

definition Clear :: "mempool \<Rightarrow> mempool" where
  "Clear m = m\<lparr>txByID := fmempty, txByImage := Map.empty, priorityQueue := [], totalSize := 0\<rparr>"

definition RemoveExpired :: "map_order \<Rightarrow> int \<Rightarrow> mempool \<Rightarrow> nat \<times> mempool" where
  "RemoveExpired ord now m =
     (let cutoff = now - ExpirationTime (config m);
          toRemove = map fst (filter (\<lambda>(txID, p). me_AddedAt (memory m p) < cutoff) (ord (txByID m)))
      in (length toRemove, fold removeTxByID toRemove m))"

text \<open>A transaction whose id cannot be computed is a panic of \<open>Serialize\<close>, \<^const>\<open>None\<close>.\<close>

fun connect_txs :: "crypto \<Rightarrow> Transaction list \<Rightarrow> mempool \<Rightarrow> mempool option" where
  "connect_txs C [] m = Some m"
| "connect_txs C (tx # txs) m =
     (case TxID C tx of
        None \<Rightarrow> None
      | Some txID \<Rightarrow>
          let m = (if txID |\<in>| fmdom (txByID m) then removeTxByID txID m else m);
              m = fold (\<lambda>input. RemoveByKeyImage (KeyImage input)) (Inputs tx) m
          in connect_txs C txs m)"

definition OnBlockConnected :: "crypto \<Rightarrow> Block \<Rightarrow> mempool \<Rightarrow> mempool option" where
  "OnBlockConnected C block m = connect_txs C (Transactions block) m"

fun still_valid :: "KeyImageChecker \<Rightarrow> hash \<Rightarrow> (hash \<rightharpoonup> hash) \<Rightarrow> TxInput list \<Rightarrow> bool" where
  "still_valid isSpent txID im [] = True"
| "still_valid isSpent txID im (input # ins) =
     (if (case im (KeyImage input) of Some existingTxID \<Rightarrow> existingTxID \<noteq> txID | None \<Rightarrow> False) then False
      else if isSpent (KeyImage input) then False
      else still_valid isSpent txID im ins)"

fun disconnect_txs :: "crypto \<Rightarrow> KeyImageChecker \<Rightarrow> (nat \<Rightarrow> int) \<Rightarrow> (hash \<rightharpoonup> bytes) \<Rightarrow> nat \<Rightarrow> Transaction list
    \<Rightarrow> mempool \<Rightarrow> mempool option" where
  "disconnect_txs C isSpent now txDataMap i [] m = Some m"
| "disconnect_txs C isSpent now txDataMap i (tx # txs) m =
     (if IsCoinbase tx then disconnect_txs C isSpent now txDataMap (Suc i) txs m
      else case TxID C tx of
        None \<Rightarrow> None
      | Some txID \<Rightarrow>
          if txID |\<in>| fmdom (txByID m) then disconnect_txs C isSpent now txDataMap (Suc i) txs m
          else case (case txDataMap txID of Some d \<Rightarrow> Some d | None \<Rightarrow> Serialize tx) of
            None \<Rightarrow> None
          | Some txData \<Rightarrow>
              if still_valid isSpent txID (txByImage m) (Inputs tx) \<and> length txData \<noteq> 0
              then disconnect_txs C isSpent now txDataMap (Suc i) txs
                     (insert_entry tx txID txData (Fee tx div word_of_nat (length txData)) (now i) m)
              else disconnect_txs C isSpent now txDataMap (Suc i) txs m)"

definition OnBlockDisconnected :: "crypto \<Rightarrow> KeyImageChecker \<Rightarrow> (nat \<Rightarrow> int) \<Rightarrow> Block \<Rightarrow> (hash \<rightharpoonup> bytes)
    \<Rightarrow> mempool \<Rightarrow> mempool option" where
  "OnBlockDisconnected C isSpent now block txDataMap m =
     disconnect_txs C isSpent now txDataMap 0 (Transactions block) m"

end
