(* ===== verification/MempoolSpec.thy ===== *)
theory MempoolSpec
  imports Mempool
begin

text \<open>
  What the mempool means: a finite map from transaction ids to entries (\<open>pool\<close>), of which the table,
  the key-image index, the priority queue and the size counter are consistent views (\<open>mempool_ok\<close>).
  The queue implements the contract of \<open>container/heap\<close>, so removal and insertion act on the pool as
  deletion and update of the map.
\<close>

section \<open>The queue as a heap\<close>

definition queue_ok :: "mempool \<Rightarrow> bool" where
  "queue_ok m \<longleftrightarrow> distinct (priorityQueue m) \<and> (\<forall>i < length (priorityQueue m). me_index (memory m (priorityQueue m ! i)) = int i)"

definition rated :: "mempool \<Rightarrow> (nat \<times> u64) list" where
  "rated m = map (\<lambda>p. (p, me_FeeRate (memory m p))) (priorityQueue m)"

text \<open>Everything of the mempool but the queue and the index fields.\<close>

definition strip :: "mempool \<Rightarrow> mempool" where
  "strip m = m\<lparr>priorityQueue := [], memory := (\<lambda>p. (memory m p)\<lparr>me_index := 0\<rparr>)\<rparr>"

lemma strip_set_index [simp]: "strip (set_index p i m) = strip m"
  by (simp add: strip_def set_index_def fun_eq_iff)

lemma strip_queue [simp]: "strip (m\<lparr>priorityQueue := q\<rparr>) = strip m"
  by (simp add: strip_def)

lemma strip_fields:
  assumes "strip m = strip m'"
  shows "config m = config m'" "txByID m = txByID m'" "txByImage m = txByImage m'" "totalSize m = totalSize m'"
    "fresh m = fresh m'" "(memory m p)\<lparr>me_index := i\<rparr> = (memory m' p)\<lparr>me_index := i\<rparr>"
proof -
  show "config m = config m'" "txByID m = txByID m'" "txByImage m = txByImage m'" "totalSize m = totalSize m'"
    "fresh m = fresh m'"
    using assms by (cases m; cases m'; simp add: strip_def)+
  have "(memory m p)\<lparr>me_index := 0\<rparr> = (memory m' p)\<lparr>me_index := 0\<rparr>"
    using assms by (cases m; cases m') (simp add: strip_def fun_eq_iff)
  then have "(memory m p)\<lparr>me_index := 0\<rparr>\<lparr>me_index := i\<rparr> = (memory m' p)\<lparr>me_index := 0\<rparr>\<lparr>me_index := i\<rparr>" by simp
  then show "(memory m p)\<lparr>me_index := i\<rparr> = (memory m' p)\<lparr>me_index := i\<rparr>" by simp
qed

lemma set_index_simps [simp]:
  "priorityQueue (set_index p i m) = priorityQueue m"
  "me_FeeRate (memory (set_index p i m) q) = me_FeeRate (memory m q)"
  "me_index (memory (set_index p i m) q) = (if q = p then i else me_index (memory m q))"
  by (simp_all add: set_index_def)

lemma length_rated [simp]: "length (rated m) = length (priorityQueue m)"
  by (simp add: rated_def)

lemma rated_nil [simp]: "rated m = [] \<longleftrightarrow> priorityQueue m = []"
  by (simp add: rated_def)

lemma rated_set_index [simp]: "rated (set_index p i m) = rated m"
  by (simp add: rated_def)

lemma rated_queue [simp]: "rated (m\<lparr>priorityQueue := q\<rparr>) = map (\<lambda>p. (p, me_FeeRate (memory m p))) q"
  by (simp add: rated_def)

lemma nth_rated: "i < length (priorityQueue m) \<Longrightarrow> rated m ! i = (priorityQueue m ! i, me_FeeRate (memory m (priorityQueue m ! i)))"
  by (simp add: rated_def)

lemma map_swap_at: "i < length xs \<Longrightarrow> j < length xs \<Longrightarrow> map f (swap_at i j xs) = swap_at i j (map f xs)"
  by (simp add: swap_at_def map_update)

lemma distinct_swap_at: "i < length xs \<Longrightarrow> j < length xs \<Longrightarrow> distinct (swap_at i j xs) = distinct xs"
  by (metis mset_swap_at mset_eq_imp_distinct_iff)

lemma swap_queue_ok:
  assumes q: "queue_ok m" and i: "i < length (priorityQueue m)" "j < length (priorityQueue m)" "i \<noteq> j"
  shows "queue_ok (pq_Swap i j m)"
proof -
  let ?q = "swap_at i j (priorityQueue m)"
  have d: "distinct ?q" using q i distinct_swap_at by (auto simp: queue_ok_def)
  have ne: "?q ! k \<noteq> ?q ! l" if "k < length ?q" "l < length ?q" "k \<noteq> l" for k l
    using d that nth_eq_iff_index_eq by blast
  have old: "me_index (memory m (?q ! k)) = int k" if "k < length ?q" "k \<noteq> i" "k \<noteq> j" for k
    using q that i by (simp add: queue_ok_def nth_swap_at)
  show ?thesis using d old ne i by (auto simp: queue_ok_def pq_Swap_def Let_def)
qed

lemma push_queue_ok: "queue_ok m \<Longrightarrow> p \<notin> set (priorityQueue m) \<Longrightarrow> queue_ok (pq_Push p m)"
  by (auto simp: queue_ok_def pq_Push_def Let_def nth_append less_Suc_eq)

lemma pop_queue_ok: "queue_ok m \<Longrightarrow> priorityQueue m \<noteq> [] \<Longrightarrow> queue_ok (pq_Pop m)"
proof -
  assume q: "queue_ok m" and ne: "priorityQueue m \<noteq> []"
  obtain xs x where x: "priorityQueue m = xs @ [x]" using ne by (metis append_butlast_last_id)
  have "me_index (memory m (xs ! i)) = int i \<and> xs ! i \<noteq> x" if "i < length xs" for i
    using q that x nth_mem [OF that] by (auto simp: queue_ok_def nth_append dest!: spec [of _ i])
  then show ?thesis using q x by (auto simp: queue_ok_def pq_Pop_def Let_def)
qed

interpretation pq: heap_array txPriorityQueue rated snd "\<lambda>m. queue_ok m \<and> strip m = strip m0"
    "\<lambda>p m. p \<notin> set (priorityQueue m)" "\<lambda>p m. (p, me_FeeRate (memory m p))"
  for m0 :: mempool
proof (unfold_locales, goal_cases)
  case (3 s i j)
  then have "queue_ok (pq_Swap i j s)" using swap_queue_ok by simp
  with 3 show ?case by (simp add: txPriorityQueue_def pq_Swap_def Let_def map_swap_at rated_def [symmetric])
next
  case (4 s x)
  then show ?case using push_queue_ok [of s x] by (auto simp: txPriorityQueue_def pq_Push_def Let_def rated_def)
next
  case (5 s)
  then show ?case using pop_queue_ok [of s]
    by (auto simp: txPriorityQueue_def pq_Pop_def Let_def map_butlast rated_def)
qed (simp_all add: txPriorityQueue_def pq_Less_def nth_rated)

section \<open>The pool\<close>

definition pool :: "mempool \<Rightarrow> (hash, MempoolEntry) fmap" where
  "pool m = fmmap (\<lambda>p. (memory m p)\<lparr>me_index := 0\<rparr>) (txByID m)"

definition input_images :: "Transaction \<Rightarrow> hash list" where
  "input_images tx = map KeyImage (Inputs tx)"

definition entry_ok :: "crypto \<Rightarrow> hash \<Rightarrow> MempoolEntry \<Rightarrow> bool" where
  "entry_ok C txID e \<longleftrightarrow> me_TxID e = txID \<and> TxID C (me_Tx e) = Some txID \<and> \<not> IsCoinbase (me_Tx e)
     \<and> me_TxData e \<noteq> [] \<and> me_Size e = int (length (me_TxData e)) \<and> me_Fee e = Fee (me_Tx e) \<and> me_index e = 0
     \<and> distinct (input_images (me_Tx e))"

definition pool_size :: "(hash, MempoolEntry) fmap \<Rightarrow> int" where
  "pool_size M = (\<Sum>k \<in> fmdom' M. me_Size (the (fmlookup M k)))"

text \<open>The index of key images that belongs to a pool.\<close>

definition indexes :: "(hash, MempoolEntry) fmap \<Rightarrow> (hash \<rightharpoonup> hash) \<Rightarrow> bool" where
  "indexes M im \<longleftrightarrow>
     (\<forall>ki txID. im ki = Some txID \<longleftrightarrow> (\<exists>e. fmlookup M txID = Some e \<and> ki \<in> set (input_images (me_Tx e))))"

definition mempool_ok :: "crypto \<Rightarrow> mempool \<Rightarrow> bool" where
  "mempool_ok C m \<longleftrightarrow> queue_ok m \<and> heap_ordered snd (length (rated m)) (rated m)
     \<and> (\<forall>p. p \<in> set (priorityQueue m) \<longleftrightarrow> (\<exists>txID. fmlookup (txByID m) txID = Some p))
     \<and> (\<forall>p \<in> set (priorityQueue m). p < fresh m)
     \<and> fmpred (entry_ok C) (pool m) \<and> indexes (pool m) (txByImage m) \<and> totalSize m = pool_size (pool m)"

lemma mempool_okD:
  assumes "mempool_ok C m"
  shows "queue_ok m" "heap_ordered snd (length (rated m)) (rated m)"
    "p \<in> set (priorityQueue m) \<longleftrightarrow> (\<exists>txID. fmlookup (txByID m) txID = Some p)"
    "p \<in> set (priorityQueue m) \<Longrightarrow> p < fresh m"
    "fmpred (entry_ok C) (pool m)" "indexes (pool m) (txByImage m)" "totalSize m = pool_size (pool m)"
    "distinct (priorityQueue m)"
  using assms by (auto simp: mempool_ok_def queue_ok_def)

lemma pool_lookup [simp]:
  "fmlookup (pool m) txID = map_option (\<lambda>p. (memory m p)\<lparr>me_index := 0\<rparr>) (fmlookup (txByID m) txID)"
  by (simp add: pool_def)

lemma pool_dom [simp]: "fmdom (pool m) = fmdom (txByID m)"
  by (simp add: pool_def)

lemma strip_pool: "strip m = strip m' \<Longrightarrow> pool m = pool m'"
  using strip_fields [of m m'] by (auto intro!: fmap_ext)

lemma pool_size_drop:
  "fmlookup M k = Some e \<Longrightarrow> pool_size (fmdrop k M) = pool_size M - me_Size e"
proof -
  assume k: "fmlookup M k = Some e"
  have "pool_size (fmdrop k M) = (\<Sum>x \<in> fmdom' M - {k}. me_Size (the (fmlookup M x)))"
    unfolding pool_size_def by (rule sum.cong) auto
  moreover have "k \<in> fmdom' M" using k by (simp add: fmdom'I)
  ultimately show ?thesis using k by (simp add: pool_size_def sum_diff1)
qed

lemma pool_size_upd:
  "fmlookup M k = None \<Longrightarrow> pool_size (fmupd k e M) = pool_size M + me_Size e"
proof -
  assume k: "fmlookup M k = None"
  then have "k \<notin> fmdom' M" by (simp add: fmdom'_notI)
  then have "(\<Sum>x \<in> fmdom' M. me_Size (the (if k = x then Some e else fmlookup M x)))
      = (\<Sum>x \<in> fmdom' M. me_Size (the (fmlookup M x)))"
    by (intro sum.cong) auto
  then show ?thesis using \<open>k \<notin> fmdom' M\<close> by (simp add: pool_size_def)
qed

lemma forget_images_lookup:
  "forget_images ins im ki = (if ki \<in> KeyImage ` set ins then None else im ki)"
  unfolding forget_images_def by (induction ins arbitrary: im) auto

lemma note_images_lookup:
  "note_images txID ins im ki = (if ki \<in> KeyImage ` set ins then Some txID else im ki)"
  unfolding note_images_def by (induction ins arbitrary: im) auto

lemma indexes_drop:
  assumes M: "indexes M im" and k: "fmlookup M k = Some e"
  shows "indexes (fmdrop k M) (forget_images (Inputs (me_Tx e)) im)"
proof -
  have uni: "txID = k" if "fmlookup M txID = Some e'" "ki \<in> set (input_images (me_Tx e'))" "ki \<in> set (input_images (me_Tx e))"
    for txID e' ki
    using M k that unfolding indexes_def by (metis option.inject)
  have img: "(ki \<in> KeyImage ` set (Inputs tx)) = (ki \<in> set (input_images tx))" for ki tx
    by (simp add: input_images_def)
  show ?thesis
    unfolding indexes_def forget_images_lookup img
  proof (intro allI)
    fix ki txID
    have M': "im ki = Some txID \<longleftrightarrow> (\<exists>e. fmlookup M txID = Some e \<and> ki \<in> set (input_images (me_Tx e)))"
      using M by (simp add: indexes_def)
    show "((if ki \<in> set (input_images (me_Tx e)) then None else im ki) = Some txID)
      = (\<exists>e'. fmlookup (fmdrop k M) txID = Some e' \<and> ki \<in> set (input_images (me_Tx e')))"
    proof (cases "ki \<in> set (input_images (me_Tx e))")
      case True
      then show ?thesis using uni [of txID _ ki] by (auto split: if_splits)
    next
      case False
      then show ?thesis using M' k by (cases "txID = k") auto
    qed
  qed
qed

lemma indexes_upd:
  assumes "indexes M im" "fmlookup M k = None" "\<forall>ki \<in> set (input_images (me_Tx e)). im ki = None"
  shows "indexes (fmupd k e M) (note_images k (Inputs (me_Tx e)) im)"
proof -
  have img: "(ki \<in> KeyImage ` set (Inputs tx)) = (ki \<in> set (input_images tx))" for ki tx
    by (simp add: input_images_def)
  show ?thesis
    unfolding indexes_def note_images_lookup img
  proof (intro allI)
    fix ki txID
    have M: "im ki = Some txID \<longleftrightarrow> (\<exists>e. fmlookup M txID = Some e \<and> ki \<in> set (input_images (me_Tx e)))"
      using assms(1) by (simp add: indexes_def)
    show "((if ki \<in> set (input_images (me_Tx e)) then Some k else im ki) = Some txID)
      = (\<exists>e'. fmlookup (fmupd k e M) txID = Some e' \<and> ki \<in> set (input_images (me_Tx e')))"
    proof (cases "ki \<in> set (input_images (me_Tx e))")
      case True
      then have "im ki = None" using assms(3) by blast
      then show ?thesis using True M by (cases "txID = k") auto
    next
      case False
      then show ?thesis using M assms(2) by (cases "txID = k") auto
    qed
  qed
qed

lemma ok_address:
  assumes ok: "mempool_ok C m" and p: "fmlookup (txByID m) txID = Some p"
  shows "me_TxID (memory m p) = txID" "p \<in> set (priorityQueue m)"
    "0 \<le> me_index (memory m p)" "nat (me_index (memory m p)) < length (priorityQueue m)"
    "priorityQueue m ! nat (me_index (memory m p)) = p"
proof -
  have "entry_ok C txID ((memory m p)\<lparr>me_index := 0\<rparr>)"
    using ok p fmpredD [of "entry_ok C" "pool m" txID] by (simp add: mempool_ok_def)
  then show "me_TxID (memory m p) = txID" by (simp add: entry_ok_def)
  show q: "p \<in> set (priorityQueue m)" using ok p by (auto simp: mempool_ok_def)
  then obtain i where i: "i < length (priorityQueue m)" "priorityQueue m ! i = p" by (auto simp: in_set_conv_nth)
  then have "me_index (memory m p) = int i" using ok by (auto simp: mempool_ok_def queue_ok_def)
  then show "0 \<le> me_index (memory m p)" "nat (me_index (memory m p)) < length (priorityQueue m)"
    "priorityQueue m ! nat (me_index (memory m p)) = p" using i by auto
qed

section \<open>Removal and insertion\<close>

lemma queue_of_rated: "mset (rated m') = add_mset (p, r) (mset (rated m)) \<Longrightarrow> mset (priorityQueue m') = add_mset p (mset (priorityQueue m))"
proof -
  have q: "mset (priorityQueue m) = image_mset fst (mset (rated m))" for m
    by (simp add: rated_def multiset.map_comp comp_def flip: mset_map)
  show "mset (rated m') = add_mset (p, r) (mset (rated m)) \<Longrightarrow> mset (priorityQueue m') = add_mset p (mset (priorityQueue m))"
    by (simp add: q)
qed

lemma queue_set:
  assumes "mset q = add_mset p (mset q')" "distinct q"
  shows "set q' = set q - {p}" "p \<in> set q" "p \<notin> set q'"
proof -
  have "set q = insert p (set q')" using assms(1) by (metis set_mset_add_mset_insert set_mset_mset)
  moreover have "p \<notin> set q'"
    using assms by (metis add_mset_eq_singleton_iff distinct.simps(2) mset.simps(2) mset_eq_imp_distinct_iff)
  ultimately show "set q' = set q - {p}" "p \<in> set q" "p \<notin> set q'" by auto
qed

lemma remove_ok:
  assumes ok: "mempool_ok C m"
  shows "mempool_ok C (removeTxByID txID m)" "pool (removeTxByID txID m) = fmdrop txID (pool m)"
    "config (removeTxByID txID m) = config m"
proof -
  have "mempool_ok C (removeTxByID txID m) \<and> pool (removeTxByID txID m) = fmdrop txID (pool m)
    \<and> config (removeTxByID txID m) = config m"
  proof (cases "fmlookup (txByID m) txID")
    case None
    then have "fmdrop txID (pool m) = pool m" by (auto intro!: fmap_ext)
    then show ?thesis using ok None by (simp add: removeTxByID_def)
  next
    case (Some p)
    note a = ok_address [OF ok Some]
    let ?e = "(memory m p)\<lparr>me_index := 0\<rparr>" and ?i = "nat (me_index (memory m p))"
    define m1 where "m1 = m\<lparr>txByID := fmdrop txID (txByID m),
      txByImage := forget_images (Inputs (me_Tx (memory m p))) (txByImage m), totalSize := totalSize m - me_Size (memory m p)\<rparr>"
    define m' where "m' = heap_Remove txPriorityQueue ?i m1"
    have m': "removeTxByID txID m = m'"
      using Some a unfolding m'_def m1_def by (simp add: removeTxByID_def Let_def)
    have m1: "priorityQueue m1 = priorityQueue m" "memory m1 = memory m" "rated m1 = rated m" "queue_ok m1"
      using mempool_okD(1) [OF ok] by (simp_all add: m1_def rated_def queue_ok_def)
    have R: "queue_ok m'" "strip m' = strip m1" "mset (rated m1) = add_mset (rated m1 ! ?i) (mset (rated m'))"
      "heap_ordered snd (length (rated m')) (rated m')"
      using pq.Remove_ok [of m1 m1 ?i] m1 a(4) mempool_okD(2) [OF ok] unfolding m'_def by auto
    note f = strip_fields [OF R(2)]
    have "mset (priorityQueue m) = add_mset p (mset (priorityQueue m'))"
      using queue_of_rated [of m1 "priorityQueue m ! ?i" _ m'] R(3) m1 a(4,5) by (simp add: nth_rated)
    then have q: "set (priorityQueue m') = set (priorityQueue m) - {p}"
      by (rule queue_set) (rule mempool_okD(8) [OF ok])
    have pool: "pool m' = fmdrop txID (pool m)"
      unfolding strip_pool [OF R(2)] by (auto intro!: fmap_ext simp: m1_def)
    have e: "fmlookup (pool m) txID = Some ?e" using Some by simp
    have other: "txID' = txID" if "fmlookup (txByID m) txID' = Some p" for txID'
      using ok_address(1) [OF ok that] a(1) by simp
    have addr: "(r \<in> set (priorityQueue m')) = (\<exists>txID'. fmlookup (txByID m') txID' = Some r)" for r
    proof (cases "r = p")
      case True
      then have "fmlookup (txByID m') txID' \<noteq> Some r" for txID' using other [of txID'] by (auto simp: f(2) m1_def)
      then show ?thesis using True q by simp
    next
      case False
      then have "fmlookup (txByID m') txID' = Some r \<longleftrightarrow> fmlookup (txByID m) txID' = Some r" for txID'
        using Some by (simp add: f(2) m1_def)
      then show ?thesis using False q mempool_okD(3) [OF ok, of r] by simp
    qed
    have "indexes (pool m') (txByImage m')"
      unfolding pool f(3) using indexes_drop [OF mempool_okD(6) [OF ok] e] by (simp add: m1_def)
    moreover have "totalSize m' = pool_size (pool m')"
      unfolding pool f(4) pool_size_drop [OF e] using mempool_okD(7) [OF ok] by (simp add: m1_def)
    moreover have "fmpred (entry_ok C) (pool m')"
      unfolding pool using mempool_okD(5) [OF ok] by auto
    moreover have "\<forall>p \<in> set (priorityQueue m'). p < fresh m'"
      unfolding q f(5) using mempool_okD(4) [OF ok] by (simp add: m1_def)
    ultimately show ?thesis
      unfolding m' mempool_ok_def using R pool addr f(1) by (simp add: m1_def)
  qed
  then show "mempool_ok C (removeTxByID txID m)" "pool (removeTxByID txID m) = fmdrop txID (pool m)"
    "config (removeTxByID txID m) = config m" by auto
qed

definition new_entry :: "Transaction \<Rightarrow> hash \<Rightarrow> bytes \<Rightarrow> u64 \<Rightarrow> int \<Rightarrow> MempoolEntry" where
  "new_entry tx txID txData feeRate now =
     \<lparr>me_Tx = tx, me_TxID = txID, me_TxData = txData, me_Fee = Fee tx, me_FeeRate = feeRate,
      me_Size = int (length txData), me_AddedAt = now, me_Height = 0, me_index = 0\<rparr>"

lemma insert_ok:
  fixes feeRate :: u64 and now :: int
  assumes ok: "mempool_ok C m" and new: "txID |\<notin>| fmdom (txByID m)" "TxID C tx = Some txID" "\<not> IsCoinbase tx" "txData \<noteq> []"
    and dist: "distinct (input_images tx)" and free: "\<forall>ki \<in> set (input_images tx). txByImage m ki = None"
  defines "m' \<equiv> insert_entry tx txID txData feeRate now m"
  shows "mempool_ok C m'" "pool m' = fmupd txID (new_entry tx txID txData feeRate now) (pool m)" "config m' = config m"
proof -
  let ?e = "new_entry tx txID txData feeRate now" and ?p = "fresh m"
  define m1 where "m1 = m\<lparr>memory := (memory m)(?p := ?e), fresh := Suc ?p, txByID := fmupd txID ?p (txByID m),
    txByImage := note_images txID (Inputs tx) (txByImage m)\<rparr>"
  define m2 where "m2 = heap_Push txPriorityQueue ?p m1"
  have m': "m' = m2\<lparr>totalSize := totalSize m2 + me_Size ?e\<rparr>"
    unfolding m'_def m2_def m1_def by (simp add: insert_entry_def new_entry_def Let_def)
  have np: "?p \<notin> set (priorityQueue m)" using mempool_okD(4) [OF ok] by blast
  have old: "memory m1 q = memory m q" if "q \<in> set (priorityQueue m)" for q
    using that np by (auto simp: m1_def)
  have rated: "rated m1 = rated m" using old by (simp add: rated_def m1_def)
  have "memory m1 (priorityQueue m ! i) = memory m (priorityQueue m ! i)" if "i < length (priorityQueue m)" for i
    by (rule old) (use that in simp)
  then have q1: "queue_ok m1" using mempool_okD(1) [OF ok] unfolding queue_ok_def by (simp add: m1_def)
  have P: "queue_ok m2" "strip m2 = strip m1" "mset (rated m2) = add_mset (?p, feeRate) (mset (rated m))"
    "heap_ordered snd (length (rated m2)) (rated m2)"
    using pq.Push_ok [of m1 m1 ?p] q1 np mempool_okD(2) [OF ok] rated unfolding m2_def
    by (auto simp: m1_def new_entry_def)
  note f = strip_fields [OF P(2)]
  have "mset (priorityQueue m2) = add_mset ?p (mset (priorityQueue m))" by (rule queue_of_rated [OF P(3)])
  then have q: "set (priorityQueue m2) = insert ?p (set (priorityQueue m))"
    by (metis set_mset_add_mset_insert set_mset_mset)
  have none: "fmlookup (txByID m) txID = None" using new(1) by (simp add: fmdom_notD)
  have at: "memory m1 r = memory m r" if "fmlookup (txByID m) k = Some r" for k r
    by (rule old) (use mempool_okD(3) [OF ok] that in blast)
  have "pool m1 = fmupd txID ?e (pool m)"
  proof (rule fmap_ext)
    fix k
    show "fmlookup (pool m1) k = fmlookup (fmupd txID ?e (pool m)) k"
      using at [of k] by (cases "k = txID"; cases "fmlookup (txByID m) k") (simp_all add: m1_def new_entry_def)
  qed
  then have pool2: "pool m2 = fmupd txID ?e (pool m)" using strip_pool [OF P(2)] by simp
  show pool: "pool m' = fmupd txID ?e (pool m)"
    unfolding m' pool2 [symmetric] by (simp add: pool_def)
  have e: "entry_ok C txID ?e" using new dist by (simp add: entry_ok_def new_entry_def)
  have "fmpred (entry_ok C) (pool m')"
    unfolding pool using e mempool_okD(5) [OF ok] by auto
  moreover have "indexes (pool m') (txByImage m')"
    unfolding pool using indexes_upd [of "pool m" "txByImage m" txID ?e] mempool_okD(6) [OF ok] none free
    by (simp add: m' f(3) m1_def new_entry_def)
  moreover have "totalSize m' = pool_size (pool m')"
    unfolding pool using pool_size_upd [of "pool m" txID ?e] mempool_okD(7) [OF ok] none
    by (simp add: m' f(4) m1_def)
  moreover have "(r \<in> set (priorityQueue m')) = (\<exists>k. fmlookup (txByID m') k = Some r)" for r
  proof -
    have "fmlookup (txByID m') k = Some r \<longleftrightarrow> k = txID \<and> r = ?p \<or> fmlookup (txByID m) k = Some r" for k
      using none by (auto simp: m' f(2) m1_def)
    then have "(\<exists>k. fmlookup (txByID m') k = Some r) = (r = ?p \<or> r \<in> set (priorityQueue m))"
      unfolding mempool_okD(3) [OF ok, of r] by metis
    then show ?thesis by (simp add: m' q)
  qed
  moreover have "\<forall>r \<in> set (priorityQueue m'). r < fresh m'"
    using mempool_okD(4) [OF ok] by (auto simp: m' q f(5) m1_def intro: less_SucI)
  moreover have "queue_ok m'" "rated m' = rated m2" using P(1) by (simp_all add: m' queue_ok_def rated_def)
  ultimately show "mempool_ok C m'" using P(4) unfolding mempool_ok_def by simp
  show "config m' = config m" by (simp add: m' f(1) m1_def)
qed

end
