(* ===== verification/MempoolOps.thy ===== *)
theory MempoolOps
  imports MempoolSpec
begin

text \<open>
  The operations of the mempool on its abstract pool: eviction, the limits, adding a transaction,
  blocks that connect and disconnect, expiry, and the selection of transactions for a block.
\<close>

section \<open>Eviction\<close>

lemma oldest_from_ok:
  "oldest_from mem oldest xs = Some x
   \<Longrightarrow> (x \<in> set xs \<or> oldest = Some x)
     \<and> (\<forall>y \<in> set xs \<union> set_option oldest. me_AddedAt (mem (snd x)) \<le> me_AddedAt (mem (snd y)))"
proof (induction xs arbitrary: oldest)
  case (Cons z xs)
  obtain txID p where z: "z = (txID, p)" by fastforce
  define next_oldest where "next_oldest =
    (case oldest of None \<Rightarrow> Some z | Some (_, q) \<Rightarrow> if me_AddedAt (mem p) < me_AddedAt (mem q) then Some z else oldest)"
  have "oldest_from mem next_oldest xs = Some x" using Cons.prems unfolding next_oldest_def z by simp
  note ih = Cons.IH [OF this]
  obtain y where y: "next_oldest = Some y" "y = z \<or> oldest = Some y" "me_AddedAt (mem (snd y)) \<le> me_AddedAt (mem p)"
    "oldest = None \<or> me_AddedAt (mem (snd y)) \<le> me_AddedAt (mem (snd (the oldest)))"
  proof (cases oldest)
    case None
    then show thesis using that [of z] by (simp add: next_oldest_def z)
  next
    case (Some w)
    obtain a q where w: "w = (a, q)" by fastforce
    show thesis
    proof (cases "me_AddedAt (mem p) < me_AddedAt (mem q)")
      case True
      then show thesis using that [of z] Some w by (simp add: next_oldest_def z)
    next
      case False
      then show thesis using that [of w] Some w by (simp add: next_oldest_def)
    qed
  qed
  have "me_AddedAt (mem (snd x)) \<le> me_AddedAt (mem (snd y))" using ih y(1) by auto
  then show ?case using ih y z by (cases oldest) auto
qed auto

lemma order_lookup: "range_order ord \<Longrightarrow> (k, p) \<in> set (ord m) \<longleftrightarrow> fmlookup m k = Some p"
  by (simp add: range_order_def)

lemma evict_ok:
  assumes ok: "mempool_ok C m" and ord: "range_order ord" and ev: "evictLowest ord r m = (b, m')"
  shows "b \<Longrightarrow> \<exists>txID e. fmlookup (pool m) txID = Some e \<and> me_FeeRate e < r \<and> m' = removeTxByID txID m
      \<and> (\<forall>k e'. fmlookup (pool m) k = Some e' \<longrightarrow> me_AddedAt e \<le> me_AddedAt e')"
    and "\<not> b \<Longrightarrow> m' = m"
proof -
  show "\<not> b \<Longrightarrow> m' = m" using ev by (auto simp: evictLowest_def split: if_splits option.splits)
  assume b: b
  then obtain txID p where o: "oldest_from (memory m) None (ord (txByID m)) = Some (txID, p)"
    and r: "me_FeeRate (memory m p) < r" and m': "m' = removeTxByID txID m"
    using ev by (auto simp: evictLowest_def split: if_splits option.splits)
  have x: "(txID, p) \<in> set (ord (txByID m))"
    "\<forall>y \<in> set (ord (txByID m)). me_AddedAt (memory m p) \<le> me_AddedAt (memory m (snd y))"
    using oldest_from_ok [OF o] by auto
  have "me_AddedAt (memory m p) \<le> me_AddedAt e'" if "fmlookup (pool m) k = Some e'" for k e'
  proof -
    obtain q where q: "fmlookup (txByID m) k = Some q" "e' = (memory m q)\<lparr>me_index := 0\<rparr>"
      using \<open>fmlookup (pool m) k = Some e'\<close> by auto
    then have "(k, q) \<in> set (ord (txByID m))" using order_lookup [OF ord] by blast
    then show ?thesis using x(2) q(2) by force
  qed
  moreover have "fmlookup (pool m) txID = Some ((memory m p)\<lparr>me_index := 0\<rparr>)"
    using x(1) order_lookup [OF ord] by simp
  ultimately show "\<exists>txID e. fmlookup (pool m) txID = Some e \<and> me_FeeRate e < r \<and> m' = removeTxByID txID m
      \<and> (\<forall>k e'. fmlookup (pool m) k = Some e' \<longrightarrow> me_AddedAt e \<le> me_AddedAt e')"
    using r m' by (intro exI [of _ txID] exI [of _ "(memory m p)\<lparr>me_index := 0\<rparr>"]) auto
qed

text \<open>A pool from which only entries below a fee rate were dropped.\<close>

definition sheds :: "u64 \<Rightarrow> (hash, MempoolEntry) fmap \<Rightarrow> (hash, MempoolEntry) fmap \<Rightarrow> bool" where
  "sheds r M M' \<longleftrightarrow> fmlookup M' \<subseteq>\<^sub>m fmlookup M
     \<and> (\<forall>k e. fmlookup M k = Some e \<and> fmlookup M' k = None \<longrightarrow> me_FeeRate e < r)"

lemma sheds_refl [simp]: "sheds r M M"
  by (auto simp: sheds_def)

lemma sheds_trans: "sheds r M M' \<Longrightarrow> sheds r M' M'' \<Longrightarrow> sheds r M M''"
  unfolding sheds_def map_le_def by (metis domIff not_None_eq)

lemma sheds_lookup: "sheds r M M' \<Longrightarrow> fmlookup M' k = Some e \<Longrightarrow> fmlookup M k = Some e"
  unfolding sheds_def map_le_def by (metis domI)

lemma sheds_dom: "sheds r M M' \<Longrightarrow> k |\<notin>| fmdom M \<Longrightarrow> k |\<notin>| fmdom M'"
  using sheds_lookup [of r M M' k] by (cases "fmlookup M' k") (auto simp: fmlookup_dom_iff)

lemma sheds_drop: "fmlookup M k = Some e \<Longrightarrow> me_FeeRate e < r \<Longrightarrow> sheds r M (fmdrop k M)"
  by (auto simp: sheds_def map_le_def split: if_splits)

lemma fcard_drop: "fmlookup M k = Some e \<Longrightarrow> Suc (fcard (fmdom (fmdrop k M))) = fcard (fmdom M)"
  by (metis fcard_Suc_fminus1 fmdomI fmdom_drop)

lemma queue_length:
  assumes ok: "mempool_ok C m" shows "length (priorityQueue m) = fcard (fmdom (pool m))"
proof -
  let ?f = "\<lambda>k. the (fmlookup (txByID m) k)" and ?D = "fset (fmdom (txByID m))"
  have look: "fmlookup (txByID m) k = Some (?f k)" if "k \<in> ?D" for k using that by auto
  have "inj_on ?f ?D"
    by (rule inj_on_inverseI [where g = "\<lambda>p. me_TxID (memory m p)"]) (rule ok_address(1) [OF ok look])
  moreover have "?f ` ?D = set (priorityQueue m)"
  proof
    show "?f ` ?D \<subseteq> set (priorityQueue m)" using ok_address(2) [OF ok look] by blast
    show "set (priorityQueue m) \<subseteq> ?f ` ?D"
    proof
      fix p assume "p \<in> set (priorityQueue m)"
      then obtain k where "fmlookup (txByID m) k = Some p" using mempool_okD(3) [OF ok] by blast
      then show "p \<in> ?f ` ?D" by (intro image_eqI [of _ _ k]) (auto simp: fmdomI)
    qed
  qed
  ultimately have "card (set (priorityQueue m)) = card ?D" by (metis card_image)
  then show ?thesis using mempool_okD(8) [OF ok] by (simp add: distinct_card fcard.rep_eq)
qed

lemma evicted:
  assumes ok: "mempool_ok C m" and ord: "range_order ord" and ev: "evictLowest ord r m = (b, m')"
  shows "mempool_ok C m'" "sheds r (pool m) (pool m')" "config m' = config m"
    "b \<Longrightarrow> Suc (fcard (fmdom (pool m'))) = fcard (fmdom (pool m))" "\<not> b \<Longrightarrow> m' = m"
proof -
  note e = evict_ok [OF ok ord ev]
  show "\<not> b \<Longrightarrow> m' = m" by (rule e(2))
  have "mempool_ok C m' \<and> sheds r (pool m) (pool m') \<and> config m' = config m
    \<and> (b \<longrightarrow> Suc (fcard (fmdom (pool m'))) = fcard (fmdom (pool m)))"
  proof (cases b)
    case True
    obtain txID e where x: "fmlookup (pool m) txID = Some e" "me_FeeRate e < r" "m' = removeTxByID txID m"
      using e(1) [OF True] by blast
    show ?thesis
      unfolding x(3) remove_ok(2) [OF ok] using remove_ok(1,3) [OF ok] sheds_drop [OF x(1,2)] fcard_drop [OF x(1)] by simp
  qed (use ok e(2) in simp)
  then show "mempool_ok C m'" "sheds r (pool m) (pool m')" "config m' = config m"
    "b \<Longrightarrow> Suc (fcard (fmdom (pool m'))) = fcard (fmdom (pool m))" by auto
qed

lemma queue_nil: "mempool_ok C m \<Longrightarrow> priorityQueue m = [] \<longleftrightarrow> pool m = fmempty"
proof -
  assume ok: "mempool_ok C m"
  have "priorityQueue m = [] \<longleftrightarrow> fcard (fmdom (pool m)) = 0" using queue_length [OF ok] by (metis length_0_conv)
  also have "\<dots> \<longleftrightarrow> fmdom (pool m) = {||}" by (metis fcard_fempty fcard_0_eq)
  also have "\<dots> \<longleftrightarrow> pool m = fmempty" by (metis fmdom_empty fmrestrict_fset_dom fmrestrict_fset_null)
  finally show "priorityQueue m = [] \<longleftrightarrow> pool m = fmempty" .
qed

lemma pool_size_empty [simp]: "pool_size fmempty = 0"
  by (simp add: pool_size_def)

lemma evict_loop_ok:
  assumes "mempool_ok C m" "range_order ord" "fcard (fmdom (pool m)) < fuel"
  shows "\<exists>b m'. evict_loop ord r sz fuel m = Some (b, m') \<and> mempool_ok C m' \<and> sheds r (pool m) (pool m')
    \<and> config m' = config m \<and> fcard (fmdom (pool m')) \<le> fcard (fmdom (pool m))
    \<and> (b \<longrightarrow> totalSize m' + sz \<le> MaxSizeBytes (config m) \<or> pool m' = fmempty)"
  using assms(1,3)
proof (induction fuel arbitrary: m)
  case (Suc fuel)
  obtain b m1 where ev: "evictLowest ord r m = (b, m1)" by (cases "evictLowest ord r m")
  note e = evicted [OF Suc.prems(1) assms(2) ev]
  show ?case
  proof (cases "MaxSizeBytes (config m) < totalSize m + sz \<and> priorityQueue m \<noteq> []")
    case False
    then have l: "evict_loop ord r sz (Suc fuel) m = Some (True, m)" by auto
    have "totalSize m + sz \<le> MaxSizeBytes (config m) \<or> pool m = fmempty"
      using False queue_nil [OF Suc.prems(1)] by (metis not_le)
    then show ?thesis unfolding l using Suc.prems(1) by (intro exI [of _ True] exI [of _ m]) simp
  next
    case more: True
    show ?thesis
    proof (cases b)
      case False
      then have l: "evict_loop ord r sz (Suc fuel) m = Some (False, m)" using more ev e(5) by simp
      show ?thesis unfolding l using Suc.prems(1) by (intro exI [of _ False] exI [of _ m]) simp
    next
      case True
      have "fcard (fmdom (pool m1)) < fuel" using e(4) [OF True] Suc.prems(2) by simp
      from Suc.IH [OF e(1) this] obtain b' m2 where
        "evict_loop ord r sz fuel m1 = Some (b', m2)" "mempool_ok C m2" "sheds r (pool m1) (pool m2)"
        "config m2 = config m1" "fcard (fmdom (pool m2)) \<le> fcard (fmdom (pool m1))"
        "b' \<longrightarrow> totalSize m2 + sz \<le> MaxSizeBytes (config m1) \<or> pool m2 = fmempty" by blast
      moreover have "evict_loop ord r sz (Suc fuel) m = evict_loop ord r sz fuel m1" using more ev True by simp
      moreover have "fcard (fmdom (pool m1)) \<le> fcard (fmdom (pool m))" using e(4) [OF True] by linarith
      ultimately show ?thesis using e(3) sheds_trans [OF e(2)]
        by (intro exI [of _ b'] exI [of _ m2]) (simp add: order_trans [of _ "fcard (fmdom (pool m1))"])
    qed
  qed
qed simp

lemma make_room_ok:
  assumes ok: "mempool_ok C m" and ord: "range_order ord"
  obtains res m' where "make_room ord r sz m = Some (res, m')" "mempool_ok C m'" "sheds r (pool m) (pool m')"
    "config m' = config m"
    "res = Inr () \<Longrightarrow> int (fcard (fmdom (pool m))) \<le> MaxSize (config m) \<Longrightarrow> int (fcard (fmdom (pool m'))) < MaxSize (config m)"
    "res = Inr () \<Longrightarrow> totalSize m' + sz \<le> MaxSizeBytes (config m) \<or> pool m' = fmempty"
    "res = Inr () \<or> res = Inl MempoolFull \<or> res = Inl MempoolSizeLimit"
proof -
  define full where "full \<longleftrightarrow> MaxSize (config m) \<le> int (fcard (fmdom (pool m)))"
  obtain b m1 where ev: "(if full then evictLowest ord r m else (True, m)) = (b, m1)"
    by (cases "if full then evictLowest ord r m else (True, m)")
  have e: "mempool_ok C m1" "sheds r (pool m) (pool m1)" "config m1 = config m"
    "full \<and> b \<Longrightarrow> Suc (fcard (fmdom (pool m1))) = fcard (fmdom (pool m))" "\<not> full \<Longrightarrow> b \<and> m1 = m"
    using evicted [OF ok ord, of r b m1] ev ok by (auto split: if_splits)
  have less: "b \<Longrightarrow> int (fcard (fmdom (pool m))) \<le> MaxSize (config m) \<Longrightarrow> int (fcard (fmdom (pool m1))) < MaxSize (config m)"
    using e(4,5) full_def by (cases full) auto
  have room: "make_room ord r sz m = (case (b, m1) of (False, m) \<Rightarrow> Some (Inl MempoolFull, m)
      | (True, m) \<Rightarrow> (if MaxSizeBytes (config m) < totalSize m + sz
           then (case evict_loop ord r sz (Suc (length (priorityQueue m))) m of
                   None \<Rightarrow> None
                 | Some (False, m) \<Rightarrow> Some (Inl MempoolSizeLimit, m)
                 | Some (True, m) \<Rightarrow> Some (Inr (), m))
           else Some (Inr (), m)))"
    unfolding make_room_def ev [symmetric] full_def by simp
  show thesis
  proof (cases b)
    case False
    then show thesis using that [of "Inl MempoolFull" m1] room e by simp
  next
    case b: True
    show thesis
    proof (cases "MaxSizeBytes (config m1) < totalSize m1 + sz")
      case False
      show thesis by (rule that [of "Inr ()" m1]) (use False b room e less in auto)
    next
      case over: True
      have "fcard (fmdom (pool m1)) < Suc (length (priorityQueue m1))" using queue_length [OF e(1)] by simp
      from evict_loop_ok [OF e(1) ord this, of r sz] obtain b' m2 where
        l: "evict_loop ord r sz (Suc (length (priorityQueue m1))) m1 = Some (b', m2)" "mempool_ok C m2"
          "sheds r (pool m1) (pool m2)" "config m2 = config m1" "fcard (fmdom (pool m2)) \<le> fcard (fmdom (pool m1))"
          "b' \<longrightarrow> totalSize m2 + sz \<le> MaxSizeBytes (config m1) \<or> pool m2 = fmempty" by blast
      have r: "make_room ord r sz m = Some (if b' then Inr () else Inl MempoolSizeLimit, m2)"
        unfolding room using b over l(1) by (cases b') (simp_all del: evict_loop.simps)
      show thesis
        by (rule that [OF r l(2) sheds_trans [OF e(2) l(3)]]) (use l less [OF b] e(3) in \<open>auto split: if_splits\<close>)
    qed
  qed
qed

section \<open>Adding a transaction\<close>

lemma conflict_free:
  "mempool_conflict im ins = None \<longleftrightarrow> (\<forall>input \<in> set ins. im (KeyImage input) = None)"
  by (induction ins) (auto split: option.splits)

lemma decoded_tx:
  assumes "DeserializeTx txData = Inr tx"
  shows "Serialize tx = Some txData" "txData \<noteq> []" "\<exists>txID. TxID C tx = Some txID"
proof -
  have "txData = enc_tx tx" "wf_tx tx" using DeserializeTx_inv [OF assms] by blast+
  then show s: "Serialize tx = Some txData" using Serialize_aligned wf_tx_go by blast
  then show "\<exists>txID. TxID C tx = Some txID" by (simp add: TxID_def)
  show "txData \<noteq> []" using assms by (auto simp: DeserializeTx_def limit_defs split: if_splits)
qed

lemma validated_distinct:
  assumes "ValidateTransaction C tx isSpent check s = (Inr u, s')" "\<not> IsCoinbase tx"
  shows "distinct (input_images tx)"
proof -
  have "(if 1 < length (Inputs tx) then check_dups {} 0 (Inputs tx) else Inr ()) = Inr ()"
    using assms by (auto simp: ValidateTransaction_def split: if_splits option.splits sum.splits prod.splits)
  then show ?thesis using dup_check_ok by (simp add: input_images_def)
qed

text \<open>The transactions the pool takes, apart from its limits.\<close>

definition admits :: "crypto \<Rightarrow> KeyImageChecker \<Rightarrow> 's RingMemberChecker \<Rightarrow> Transaction \<Rightarrow> bytes \<Rightarrow> mempool \<Rightarrow> 's
    \<Rightarrow> Transaction \<Rightarrow> hash \<Rightarrow> bool" where
  "admits C isSpent isCanonical tx txData m s parsed txID \<longleftrightarrow>
     DeserializeTx txData = Inr parsed \<and> \<not> IsCoinbase parsed \<and> TxID C parsed = Some txID
     \<and> (\<forall>ki \<in> set (input_images parsed). txByImage m ki = None)
     \<and> fst (ValidateTransaction C parsed isSpent (Some isCanonical) s) = Inr ()
     \<and> MinFeeRate (config m) \<le> Fee tx div word_of_nat (length txData)"

text \<open>What adding a transaction may do.\<close>

inductive add_step :: "crypto \<Rightarrow> KeyImageChecker \<Rightarrow> 's RingMemberChecker \<Rightarrow> int \<Rightarrow> Transaction \<Rightarrow> bytes \<Rightarrow> 's
    \<Rightarrow> mempool \<Rightarrow> mempool_error + unit \<Rightarrow> mempool \<Rightarrow> bool"
  for C isSpent isCanonical now tx txData s where
  known: "DeserializeTx txData = Inr parsed \<Longrightarrow> \<not> IsCoinbase parsed \<Longrightarrow> TxID C parsed = Some txID
    \<Longrightarrow> txID |\<in>| fmdom (pool m)
    \<Longrightarrow> add_step C isSpent isCanonical now tx txData s m (Inr ()) m"
| refused: "(\<And>parsed txID. \<not> admits C isSpent isCanonical tx txData m s parsed txID)
    \<Longrightarrow> e \<noteq> MempoolFull \<Longrightarrow> e \<noteq> MempoolSizeLimit
    \<Longrightarrow> add_step C isSpent isCanonical now tx txData s m (Inl e) m"
| no_room: "admits C isSpent isCanonical tx txData m s parsed txID \<Longrightarrow> txID |\<notin>| fmdom (pool m)
    \<Longrightarrow> sheds (Fee tx div word_of_nat (length txData)) (pool m) (pool m')
    \<Longrightarrow> e = MempoolFull \<or> e = MempoolSizeLimit
    \<Longrightarrow> add_step C isSpent isCanonical now tx txData s m (Inl e) m'"
| added: "admits C isSpent isCanonical tx txData m s parsed txID \<Longrightarrow> txID |\<notin>| fmdom (pool m)
    \<Longrightarrow> sheds (Fee tx div word_of_nat (length txData)) (pool m) M
    \<Longrightarrow> int (fcard (fmdom (pool m))) \<le> MaxSize (config m) \<longrightarrow> int (fcard (fmdom M)) < MaxSize (config m)
    \<Longrightarrow> pool_size M + int (length txData) \<le> MaxSizeBytes (config m) \<or> M = fmempty
    \<Longrightarrow> pool m' = fmupd txID (new_entry parsed txID txData (Fee tx div word_of_nat (length txData)) now) M
    \<Longrightarrow> add_step C isSpent isCanonical now tx txData s m (Inr ()) m'"

lemma sheds_images:
  assumes "sheds r (pool m) (pool m')" "mempool_ok C m" "mempool_ok C m'" "txByImage m ki = None"
  shows "txByImage m' ki = None"
proof (rule ccontr)
  assume "txByImage m' ki \<noteq> None"
  then obtain txID e where "fmlookup (pool m') txID = Some e" "ki \<in> set (input_images (me_Tx e))"
    using mempool_okD(6) [OF assms(3)] unfolding indexes_def by blast
  moreover from this(1) have "fmlookup (pool m) txID = Some e"
    by (rule sheds_lookup [OF assms(1)])
  ultimately have "txByImage m ki = Some txID" using mempool_okD(6) [OF assms(2)] unfolding indexes_def by blast
  then show False using assms(4) by simp
qed

lemma add_refused:
  assumes no: "\<And>parsed txID. \<not> admits C isSpent isCanonical tx txData m s parsed txID"
    and new: "\<And>parsed txID. DeserializeTx txData = Inr parsed \<Longrightarrow> TxID C parsed = Some txID \<Longrightarrow> txID |\<notin>| fmdom (txByID m)"
  shows "\<exists>e s'. AddTransaction C isSpent isCanonical ord now tx txData m s = Some (Inl e, m, s')
    \<and> e \<noteq> MempoolFull \<and> e \<noteq> MempoolSizeLimit"
proof (cases "DeserializeTx txData")
  case (Inl e)
  then show ?thesis by (simp add: AddTransaction_def)
next
  case parsed: (Inr parsed)
  obtain txID where txID: "TxID C parsed = Some txID" using decoded_tx(3) [OF parsed] by blast
  obtain v s1 where v: "ValidateTransaction C parsed isSpent (Some isCanonical) s = (v, s1)"
    by (cases "ValidateTransaction C parsed isSpent (Some isCanonical) s")
  have free: "mempool_conflict (txByImage m) (Inputs parsed) = None \<longleftrightarrow> (\<forall>ki \<in> set (input_images parsed). txByImage m ki = None)"
    using conflict_free [of "txByImage m" "Inputs parsed"] by (auto simp: input_images_def)
  have "\<not> admits C isSpent isCanonical tx txData m s parsed txID" by (rule no)
  then have "IsCoinbase parsed \<or> mempool_conflict (txByImage m) (Inputs parsed) \<noteq> None \<or> (\<exists>e. v = Inl e)
    \<or> Fee tx div word_of_nat (length txData) < MinFeeRate (config m)"
    unfolding admits_def free by (cases v) (auto simp: parsed txID v)
  then show ?thesis
    using new [OF parsed txID] by (cases v) (auto simp: AddTransaction_def parsed txID v Let_def split: option.split)
qed

lemma add_admitted:
  assumes "admits C isSpent isCanonical tx txData m s parsed txID" "txID |\<notin>| fmdom (txByID m)"
  shows "\<exists>s'. AddTransaction C isSpent isCanonical ord now tx txData m s =
    (case make_room ord (Fee tx div word_of_nat (length txData)) (int (length txData)) m of
       None \<Rightarrow> None
     | Some (Inl e, m) \<Rightarrow> Some (Inl e, m, s')
     | Some (Inr _, m) \<Rightarrow>
         Some (Inr (), insert_entry parsed txID txData (Fee tx div word_of_nat (length txData)) now m, s'))"
proof -
  obtain s1 where v: "ValidateTransaction C parsed isSpent (Some isCanonical) s = (Inr (), s1)"
    using assms(1) by (cases "ValidateTransaction C parsed isSpent (Some isCanonical) s") (simp add: admits_def)
  have "mempool_conflict (txByImage m) (Inputs parsed) = None"
    using assms(1) by (auto simp: conflict_free admits_def input_images_def)
  then show ?thesis
    using assms by (intro exI [of _ s1]) (simp add: AddTransaction_def admits_def v Let_def not_less [symmetric])
qed

lemma AddTransaction_step:
  assumes ok: "mempool_ok C m" and ord: "range_order ord"
  shows "\<exists>r m' s'. AddTransaction C isSpent isCanonical ord now tx txData m s = Some (r, m', s')
    \<and> mempool_ok C m' \<and> config m' = config m \<and> add_step C isSpent isCanonical now tx txData s m r m'"
    (is "\<exists>r m' s'. ?add = Some (r, m', s') \<and> _ \<and> _ \<and> ?step r m'")
proof (cases "\<exists>parsed txID. DeserializeTx txData = Inr parsed \<and> \<not> IsCoinbase parsed \<and> TxID C parsed = Some txID
    \<and> txID |\<in>| fmdom (txByID m)")
  case True
  then obtain parsed txID where k: "DeserializeTx txData = Inr parsed" "\<not> IsCoinbase parsed" "TxID C parsed = Some txID"
    "txID |\<in>| fmdom (txByID m)" by blast
  then have "?add = Some (Inr (), m, s)" by (simp add: AddTransaction_def)
  moreover have "?step (Inr ()) m" by (rule add_step.known [OF k(1-3)]) (use k(4) in simp)
  ultimately show ?thesis using ok by blast
next
  case new: False
  let ?rate = "Fee tx div word_of_nat (length txData)"
  show ?thesis
  proof (cases "\<exists>parsed txID. admits C isSpent isCanonical tx txData m s parsed txID")
    case False
    have refuse: "?step (Inl e) m" if "e \<noteq> MempoolFull" "e \<noteq> MempoolSizeLimit" for e
      by (rule add_step.refused) (use False that in auto)
    show ?thesis
    proof (cases "\<exists>parsed. DeserializeTx txData = Inr parsed \<and> IsCoinbase parsed")
      case True
      then have "?add = Some (Inl CoinbaseInMempool, m, s)" by (auto simp: AddTransaction_def)
      then show ?thesis using ok refuse [of CoinbaseInMempool] by blast
    next
      case nc: False
      have "\<exists>e s'. ?add = Some (Inl e, m, s') \<and> e \<noteq> MempoolFull \<and> e \<noteq> MempoolSizeLimit"
        by (rule add_refused) (use False new nc in blast)+
      then show ?thesis using ok refuse by blast
    qed
  next
    case True
    then obtain parsed txID where adm: "admits C isSpent isCanonical tx txData m s parsed txID" by blast
    then have p: "DeserializeTx txData = Inr parsed" "TxID C parsed = Some txID" "\<not> IsCoinbase parsed"
      "\<forall>ki \<in> set (input_images parsed). txByImage m ki = None"
      "fst (ValidateTransaction C parsed isSpent (Some isCanonical) s) = Inr ()" by (simp_all add: admits_def)
    have ne: "txID |\<notin>| fmdom (txByID m)" using new p by blast
    then have nep: "txID |\<notin>| fmdom (pool m)" by simp
    obtain res m1 where room: "make_room ord ?rate (int (length txData)) m = Some (res, m1)" "mempool_ok C m1"
      "sheds ?rate (pool m) (pool m1)" "config m1 = config m"
      "res = Inr () \<Longrightarrow> int (fcard (fmdom (pool m))) \<le> MaxSize (config m) \<Longrightarrow> int (fcard (fmdom (pool m1))) < MaxSize (config m)"
      "res = Inr () \<Longrightarrow> totalSize m1 + int (length txData) \<le> MaxSizeBytes (config m) \<or> pool m1 = fmempty"
      "res = Inr () \<or> res = Inl MempoolFull \<or> res = Inl MempoolSizeLimit"
      by (rule make_room_ok [OF ok ord, of ?rate "int (length txData)"]) (rule that)
    obtain s' where add: "?add = (case res of Inl e \<Rightarrow> Some (Inl e, m1, s')
        | Inr _ \<Rightarrow> Some (Inr (), insert_entry parsed txID txData ?rate now m1, s'))"
      using add_admitted [OF adm ne, of ord now] unfolding room(1) by auto
    show ?thesis
    proof (cases res)
      case (Inl e)
      then have "e = MempoolFull \<or> e = MempoolSizeLimit" using room(7) by simp
      then have "?step (Inl e) m1" by (rule add_step.no_room [OF adm nep room(3)])
      then show ?thesis using add Inl room(2,4) by simp
    next
      case (Inr u)
      then have r: "res = Inr ()" by simp
      have sub: "txID |\<notin>| fmdom (txByID m1)"
        using sheds_dom [OF room(3)] ne by simp
      have free: "\<forall>ki \<in> set (input_images parsed). txByImage m1 ki = None"
        using p(4) sheds_images [OF room(3) ok room(2)] by blast
      have "distinct (input_images parsed)"
        using validated_distinct [OF _ p(3)] p(5) by (metis prod.collapse)
      note ins = insert_ok [OF room(2) sub p(2,3) decoded_tx(2) [OF p(1)] this free, of ?rate now]
      have "?step (Inr ()) (insert_entry parsed txID txData ?rate now m1)"
        by (rule add_step.added [OF adm nep room(3) _ _ ins(2)])
          (use room(5,6) [OF r] mempool_okD(7) [OF room(2)] in auto)
      then show ?thesis using add Inr ins room(4) by simp
    qed
  qed
qed

section \<open>Blocks, expiry and clearing\<close>

declare pool_lookup [simp del]

lemma removals_ok:
  assumes "mempool_ok C m"
  shows "mempool_ok C (fold removeTxByID ids m)" "pool (fold removeTxByID ids m) = fmdrop_set (set ids) (pool m)"
    "config (fold removeTxByID ids m) = config m"
proof -
  have "mempool_ok C (fold removeTxByID ids m) \<and> pool (fold removeTxByID ids m) = fmdrop_set (set ids) (pool m)
    \<and> config (fold removeTxByID ids m) = config m"
    using assms
  proof (induction ids arbitrary: m)
    case (Cons x ids)
    have "fmdrop_set (set ids) (fmdrop x (pool m)) = fmdrop_set (set (x # ids)) (pool m)"
      by (rule fmap_ext) auto
    then show ?case using Cons.IH [OF remove_ok(1) [OF Cons.prems, of x]] remove_ok(2,3) [OF Cons.prems, of x] by simp
  qed auto
  then show "mempool_ok C (fold removeTxByID ids m)" "pool (fold removeTxByID ids m) = fmdrop_set (set ids) (pool m)"
    "config (fold removeTxByID ids m) = config m" by auto
qed

lemma remove_image_ok:
  assumes ok: "mempool_ok C m"
  shows "mempool_ok C (RemoveByKeyImage ki m)"
    "pool (RemoveByKeyImage ki m) = fmfilter (\<lambda>txID. \<forall>e. fmlookup (pool m) txID = Some e \<longrightarrow> ki \<notin> set (input_images (me_Tx e))) (pool m)"
    "config (RemoveByKeyImage ki m) = config m"
proof -
  note ix = mempool_okD(6) [OF ok, unfolded indexes_def, rule_format, of ki]
  show "mempool_ok C (RemoveByKeyImage ki m)" "config (RemoveByKeyImage ki m) = config m"
    using ok remove_ok [OF ok] by (auto simp: RemoveByKeyImage_def split: option.split)
  show "pool (RemoveByKeyImage ki m) = fmfilter (\<lambda>txID. \<forall>e. fmlookup (pool m) txID = Some e \<longrightarrow> ki \<notin> set (input_images (me_Tx e))) (pool m)"
  proof (cases "txByImage m ki")
    case None
    then have "ki \<notin> set (input_images (me_Tx e))" if "fmlookup (pool m) k = Some e" for k e using ix [of k] that by auto
    then show ?thesis using None by (intro fmap_ext) (auto simp: RemoveByKeyImage_def  split: option.split)
  next
    case (Some txID)
    then have "ki \<in> set (input_images (me_Tx e)) \<longleftrightarrow> k = txID" if "fmlookup (pool m) k = Some e" for k e
      using ix [of k] that ix [of txID] by (metis option.inject)
    then show ?thesis using Some remove_ok(2) [OF ok]
      by (intro fmap_ext) (auto simp: RemoveByKeyImage_def)
  qed
qed

text \<open>The entries that touch none of the ids and key images given.\<close>

definition clear_of :: "hash set \<Rightarrow> hash set \<Rightarrow> (hash, MempoolEntry) fmap \<Rightarrow> (hash, MempoolEntry) fmap" where
  "clear_of ids kis M = fmfilter (\<lambda>k. k \<notin> ids \<and> (\<forall>e. fmlookup M k = Some e \<longrightarrow> set (input_images (me_Tx e)) \<inter> kis = {})) M"

lemma clear_of_lookup:
  "fmlookup (clear_of ids kis M) k =
     (case fmlookup M k of Some e \<Rightarrow> if k \<notin> ids \<and> set (input_images (me_Tx e)) \<inter> kis = {} then Some e else None | None \<Rightarrow> None)"
  by (auto simp: clear_of_def split: option.splits)

lemma clear_of_clear_of: "clear_of ids kis (clear_of ids' kis' M) = clear_of (ids' \<union> ids) (kis' \<union> kis) M"
  by (rule fmap_ext) (auto simp: clear_of_lookup split: option.splits)

lemma remove_images_ok:
  assumes "mempool_ok C m"
  shows "mempool_ok C (fold (\<lambda>input. RemoveByKeyImage (KeyImage input)) ins m)
    \<and> pool (fold (\<lambda>input. RemoveByKeyImage (KeyImage input)) ins m) = clear_of {} (KeyImage ` set ins) (pool m)
    \<and> config (fold (\<lambda>input. RemoveByKeyImage (KeyImage input)) ins m) = config m"
  using assms
proof (induction ins arbitrary: m)
  case Nil
  then show ?case by (auto intro!: fmap_ext simp: clear_of_lookup split: option.splits)
next
  case (Cons x ins)
  note r = remove_image_ok [OF Cons.prems, of "KeyImage x"]
  have "pool (RemoveByKeyImage (KeyImage x) m) = clear_of {} {KeyImage x} (pool m)"
    unfolding r(2) by (rule fmap_ext) (auto simp: clear_of_lookup split: option.split)
  then show ?case using Cons.IH [OF r(1)] r(3) by (simp add: clear_of_clear_of)
qed

lemma connect_txs_ok:
  assumes "mempool_ok C m" "connect_txs C txs m = Some m'"
  shows "mempool_ok C m' \<and> pool m' = clear_of {txID. \<exists>tx \<in> set txs. TxID C tx = Some txID} (set (tx_images txs)) (pool m)
    \<and> config m' = config m"
  using assms
proof (induction txs arbitrary: m)
  case Nil
  then show ?case by (auto intro!: fmap_ext simp: clear_of_lookup tx_images_def split: option.splits)
next
  case (Cons tx txs)
  obtain txID where txID: "TxID C tx = Some txID" using Cons.prems(2) by (auto split: option.splits)
  let ?m1 = "if txID |\<in>| fmdom (txByID m) then removeTxByID txID m else m"
  let ?m2 = "fold (\<lambda>input. RemoveByKeyImage (KeyImage input)) (Inputs tx) ?m1"
  have m1: "?m1 = removeTxByID txID m" by (simp add: removeTxByID_def fmdom_notD)
  have p1: "pool ?m1 = clear_of {txID} {} (pool m)"
    unfolding m1 remove_ok(2) [OF Cons.prems(1)] by (rule fmap_ext) (auto simp: clear_of_lookup split: option.splits)
  have ok1: "mempool_ok C ?m1" "config ?m1 = config m" unfolding m1 using remove_ok [OF Cons.prems(1)] by auto
  note ok2 = remove_images_ok [OF ok1(1), of "Inputs tx"]
  have "connect_txs C txs ?m2 = Some m'" using Cons.prems(2) txID by (simp add: Let_def)
  note ih = Cons.IH [OF conjunct1 [OF ok2] this]
  have "{i. \<exists>t \<in> set (tx # txs). TxID C t = Some i} = {txID} \<union> {i. \<exists>t \<in> set txs. TxID C t = Some i}"
    using txID by auto
  then show ?case using ih ok1(2) ok2 p1 by (simp add: clear_of_clear_of Un_assoc)
qed

lemma still_valid_ok:
  "still_valid isSpent txID im ins \<longleftrightarrow>
     (\<forall>input \<in> set ins. (\<forall>k. im (KeyImage input) = Some k \<longrightarrow> k = txID) \<and> \<not> isSpent (KeyImage input))"
  by (induction ins) (auto split: option.splits)

lemma disconnect_txs_ok:
  assumes "mempool_ok C m" "disconnect_txs C isSpent now txDataMap i txs m = Some m'"
    "\<forall>tx \<in> set txs. distinct (input_images tx)"
  shows "mempool_ok C m' \<and> config m' = config m \<and> fmlookup (pool m) \<subseteq>\<^sub>m fmlookup (pool m')
    \<and> (\<forall>txID e. fmlookup (pool m') txID = Some e \<longrightarrow> fmlookup (pool m) txID = None
         \<longrightarrow> me_Tx e \<in> set txs \<and> (\<forall>ki \<in> set (input_images (me_Tx e)). \<not> isSpent ki))"
  using assms
proof (induction txs arbitrary: m i)
  case (Cons tx txs)
  have ball_subset: "\<forall>tx \<in> set txs. distinct (input_images tx)" using Cons.prems(3) by simp
  show ?case
  proof (cases "\<exists>txID txData. \<not> IsCoinbase tx \<and> TxID C tx = Some txID \<and> txID |\<notin>| fmdom (txByID m)
      \<and> (case txDataMap txID of Some d \<Rightarrow> Some d | None \<Rightarrow> Serialize tx) = Some txData
      \<and> still_valid isSpent txID (txByImage m) (Inputs tx) \<and> length txData \<noteq> 0")
    case False
    then have "disconnect_txs C isSpent now txDataMap (Suc i) txs m = Some m'"
      using Cons.prems(2) by (auto split: if_splits option.splits)
    from Cons.IH [OF Cons.prems(1) this ball_subset] show ?thesis by auto
  next
    case True
    then obtain txID txData where t: "\<not> IsCoinbase tx" "TxID C tx = Some txID" "txID |\<notin>| fmdom (txByID m)"
      "(case txDataMap txID of Some d \<Rightarrow> Some d | None \<Rightarrow> Serialize tx) = Some txData"
      "still_valid isSpent txID (txByImage m) (Inputs tx)" "txData \<noteq> []" by auto
    let ?m = "insert_entry tx txID txData (Fee tx div word_of_nat (length txData)) (now i) m"
    have none: "fmlookup (pool m) txID = None" using t(3) by (simp add: pool_lookup fmdom_notD)
    have "txByImage m ki \<noteq> Some txID" for ki
      using mempool_okD(6) [OF Cons.prems(1)] none unfolding indexes_def by auto
    then have free: "\<forall>ki \<in> set (input_images tx). txByImage m ki = None"
      using t(5) unfolding still_valid_ok input_images_def by (metis (no_types, lifting) imageE list.set_map option.exhaust)
    have d: "distinct (input_images tx)" using Cons.prems(3) by simp
    note ins = insert_ok [OF Cons.prems(1) t(3,2,1,6) d free, of "Fee tx div word_of_nat (length txData)" "now i"]
    have unspent: "\<forall>ki \<in> set (input_images tx). \<not> isSpent ki"
      using t(5) unfolding still_valid_ok by (auto simp: input_images_def)
    have "disconnect_txs C isSpent now txDataMap (Suc i) txs ?m = Some m'" using Cons.prems(2) t by simp
    note ih = Cons.IH [OF ins(1) this ball_subset]
    have "fmlookup (pool m) \<subseteq>\<^sub>m fmlookup (pool ?m)"
      unfolding ins(2) map_le_def using none by (metis domIff fmupd_lookup)
    moreover have "me_Tx e \<in> set (tx # txs) \<and> (\<forall>ki \<in> set (input_images (me_Tx e)). \<not> isSpent ki)"
      if "fmlookup (pool m') k = Some e" "fmlookup (pool m) k = None" for k e
    proof (cases "k = txID")
      case True
      then have "fmlookup (pool ?m) k = Some (new_entry tx txID txData (Fee tx div word_of_nat (length txData)) (now i))"
        unfolding ins(2) by simp
      moreover have "fmlookup (pool ?m) \<subseteq>\<^sub>m fmlookup (pool m')" using ih by simp
      ultimately have "e = new_entry tx txID txData (Fee tx div word_of_nat (length txData)) (now i)"
        using that(1) unfolding map_le_def by (metis domI option.inject)
      then show ?thesis using unspent by (simp add: new_entry_def)
    next
      case False
      then have "fmlookup (pool ?m) k = None" unfolding ins(2) using that(2) by simp
      then show ?thesis using ih that(1) by auto
    qed
    ultimately show ?thesis using ih ins(3) map_le_trans [of "fmlookup (pool m)"] by auto
  qed
qed auto

lemma clear_ok: "mempool_ok C (Clear m)" "pool (Clear m) = fmempty"
  by (auto simp: mempool_ok_def Clear_def queue_ok_def rated_def heap_ordered_def ordered_at_def pool_def indexes_def)

lemma new_ok: "mempool_ok C (NewMempool cfg)" "pool (NewMempool cfg) = fmempty"
  by (auto simp: mempool_ok_def NewMempool_def queue_ok_def rated_def heap_ordered_def ordered_at_def pool_def indexes_def)

end
