(* ===== verification/MempoolProps.thy ===== *)
theory MempoolProps
  imports MempoolOps "HOL-Library.List_Lexorder"
begin

text \<open>
  The guarantees of the mempool: it stays consistent under every sequence of its operations, it admits
  exactly the acceptable transactions within its limits, a connected block leaves nothing behind that
  conflicts with it, and the transactions it offers for a block spend each key image once.
\<close>

section \<open>Selecting transactions for a block\<close>

lemma sort_by_rate_ok:
  "mset (sort_by_rate es) = mset es"
  "sorted_wrt (\<lambda>a b. me_FeeRate b \<le> me_FeeRate a) (sort_by_rate es)"
proof -
  let ?lt = "\<lambda>a b. me_FeeRate b < me_FeeRate a" and ?key = "\<lambda>e. - uint (me_FeeRate e)"
  have lt: "?lt a b = (?key a < ?key b)" for a b by (simp add: word_less_def)
  have eq: "sort_by_rate es = exchange_sort ?lt es"
  proof (cases "length es")
    case (Suc n)
    have "length (fold (sort_inner ?lt) [0..<n] es) = length es"
      using exchange_sort_upto [of ?lt ?key n es, OF lt] Suc by simp
    then have "sort_inner ?lt n (fold (sort_inner ?lt) [0..<n] es) = fold (sort_inner ?lt) [0..<n] es"
      using Suc by (intro sort_inner_last) simp
    then show ?thesis using Suc by (simp add: sort_by_rate_def exchange_sort_def)
  qed (simp add: sort_by_rate_def exchange_sort_def)
  show "mset (sort_by_rate es) = mset es" unfolding eq using exchange_sort_ok(1) [of ?lt ?key, OF lt] .
  have "sorted (map ?key (exchange_sort ?lt es))" using exchange_sort_ok(2) [of ?lt ?key, OF lt] .
  then show "sorted_wrt (\<lambda>a b. me_FeeRate b \<le> me_FeeRate a) (sort_by_rate es)"
    unfolding eq by (simp add: sorted_map word_le_def)
qed

lemma select_subset: "set (select_entries mx cnt n acc xs) \<subseteq> set xs"
  by (induction mx cnt n acc xs rule: select_entries.induct) auto

lemma select_sorted: "sorted_wrt P xs \<Longrightarrow> sorted_wrt P (select_entries mx cnt n acc xs)"
proof (induction mx cnt n acc xs rule: select_entries.induct)
  case (2 mx cnt n acc y ys)
  then show ?case using subsetD [OF select_subset [of mx cnt "Suc n" "acc + me_Size y" ys]] by auto
qed simp

lemma select_distinct: "distinct (map f xs) \<Longrightarrow> distinct (map f (select_entries mx cnt n acc xs))"
proof (induction mx cnt n acc xs rule: select_entries.induct)
  case (2 mx cnt n acc y ys)
  then show ?case using image_mono [OF select_subset [of mx cnt "Suc n" "acc + me_Size y" ys], of f] by auto
qed simp

lemma select_count: "n \<le> cnt \<Longrightarrow> n + length (select_entries mx cnt n acc xs) \<le> cnt"
  by (induction mx cnt n acc xs rule: select_entries.induct) auto

lemma select_total: "acc \<le> mx \<Longrightarrow> acc + sum_list (map me_Size (select_entries mx cnt n acc xs)) \<le> mx"
  by (induction mx cnt n acc xs rule: select_entries.induct) (auto simp: algebra_simps)

text \<open>An entry that is left out does not fit beside the chosen entries of at least its fee rate.\<close>

lemma select_greedy:
  assumes "x \<in> set xs" "x \<notin> set (select_entries mx cnt n acc xs)" "\<forall>y \<in> set xs. 0 \<le> me_Size y"
    "sorted_wrt (\<lambda>a b. me_FeeRate b \<le> me_FeeRate a) xs"
  shows "cnt \<le> n + length (select_entries mx cnt n acc xs)
    \<or> mx < acc + me_Size x + sum_list (map me_Size (filter (\<lambda>y. me_FeeRate x \<le> me_FeeRate y) (select_entries mx cnt n acc xs)))"
  using assms
proof (induction mx cnt n acc xs rule: select_entries.induct)
  case (2 mx cnt n acc y ys)
  have pos: "0 \<le> sum_list (map me_Size (filter P (select_entries mx cnt k a ys)))" for P k a
    by (rule sum_list_nonneg) (use 2(5) select_subset in \<open>fastforce\<close>)
  show ?case
  proof (cases "cnt \<le> n")
    case False
    show ?thesis
    proof (cases "mx < acc + me_Size y")
      case skip: True
      show ?thesis
      proof (cases "x = y")
        case True
        then show ?thesis using skip pos False by (auto simp: add_increasing2 intro: less_le_trans)
      next
        case ne: False
        then show ?thesis using 2(1) [OF False skip] 2(3-6) skip False by auto
      qed
    next
      case take: False
      have x: "x \<in> set ys" "x \<notin> set (select_entries mx cnt (Suc n) (acc + me_Size y) ys)" "me_FeeRate x \<le> me_FeeRate y"
        using 2(3,4,6) False take by auto
      show ?thesis using 2(2) [OF False take x(1,2)] 2(5,6) x(3) False take by (auto simp: algebra_simps)
    qed
  qed simp
qed simp

definition listing :: "map_order \<Rightarrow> mempool \<Rightarrow> MempoolEntry list" where
  "listing ord m = map (\<lambda>(txID, p). memory m p) (ord (txByID m))"

lemma listing_ok:
  assumes ok: "mempool_ok C m" and ord: "range_order ord"
  shows "distinct (map me_TxID (listing ord m))"
    "e \<in> set (listing ord m) \<Longrightarrow> fmlookup (pool m) (me_TxID e) = Some (e\<lparr>me_index := 0\<rparr>)"
    "fmlookup (pool m) txID = Some e' \<Longrightarrow> \<exists>e \<in> set (listing ord m). me_TxID e = txID \<and> e\<lparr>me_index := 0\<rparr> = e'"
proof -
  have id: "me_TxID (memory m p) = k" if "(k, p) \<in> set (ord (txByID m))" for k p
    using ok_address(1) [OF ok] order_lookup [OF ord] that by blast
  then have "map me_TxID (listing ord m) = map fst (ord (txByID m))"
    by (auto simp: listing_def intro!: map_cong)
  moreover have "inj_on fst (set (ord (txByID m)))"
    by (rule inj_onI) (metis order_lookup [OF ord] option.inject prod.collapse)
  ultimately show "distinct (map me_TxID (listing ord m))"
    using ord by (simp add: distinct_map range_order_def)
  show "fmlookup (pool m) (me_TxID e) = Some (e\<lparr>me_index := 0\<rparr>)" if mem: "e \<in> set (listing ord m)"
  proof -
    obtain k p where "(k, p) \<in> set (ord (txByID m))" "e = memory m p" using mem by (auto simp: listing_def)
    then show ?thesis using id [of k p] order_lookup [OF ord] by (simp add: pool_lookup)
  qed
  show "\<exists>e \<in> set (listing ord m). me_TxID e = txID \<and> e\<lparr>me_index := 0\<rparr> = e'" if mem: "fmlookup (pool m) txID = Some e'"
  proof -
    obtain p where p: "fmlookup (txByID m) txID = Some p" "e' = (memory m p)\<lparr>me_index := 0\<rparr>"
      using mem by (auto simp: pool_lookup)
    then have "(txID, p) \<in> set (ord (txByID m))" using order_lookup [OF ord] by blast
    then show ?thesis using p(2) id [of txID p] by (intro bexI [of _ "memory m p"]) (force simp: listing_def)+
  qed
qed

lemma images_distinct:
  assumes "distinct (map me_TxID es)" "\<forall>e \<in> set es. fmlookup M (me_TxID e) = Some (e\<lparr>me_index := 0\<rparr>)"
    "indexes M im" "fmpred (entry_ok C) M"
  shows "distinct (tx_images (map me_Tx es))"
  using assms(1,2)
proof (induction es)
  case (Cons e es)
  have own: "im ki = Some (me_TxID x)" if "x \<in> set (e # es)" "ki \<in> set (input_images (me_Tx x))" for x ki
    using assms(3) Cons.prems(2) that unfolding indexes_def by fastforce
  have "set (input_images (me_Tx e)) \<inter> set (tx_images (map me_Tx es)) = {}"
  proof (rule ccontr)
    assume "\<not> ?thesis"
    then obtain ki x where x: "ki \<in> set (input_images (me_Tx e))" "x \<in> set es" "ki \<in> set (input_images (me_Tx x))"
      by (auto simp: tx_images_def input_images_def)
    then have "me_TxID e = me_TxID x" using own [of e ki] own [of x ki] by simp
    then show False using Cons.prems(1) x(2) by force
  qed
  moreover have "distinct (input_images (me_Tx e))"
    using fmpredD [OF assms(4)] Cons.prems(2) by (fastforce simp: entry_ok_def)
  ultimately show ?case using Cons by (simp add: input_images_def)
qed (simp add: tx_images_def)

lemma template_entries:
  fixes maxCount :: nat
  assumes ok: "mempool_ok C m" and ord: "range_order ord" and pos: "0 \<le> maxSize"
  defines "es \<equiv> select_entries maxSize maxCount 0 0 (sort_by_rate (listing ord m))"
  shows "distinct (tx_images (map me_Tx es))" "length es \<le> maxCount" "sum_list (map me_Size es) \<le> maxSize"
    "e \<in> set es \<Longrightarrow> fmlookup (pool m) (me_TxID e) = Some (e\<lparr>me_index := 0\<rparr>)"
    "distinct (map me_TxID es)" "sorted_wrt (\<lambda>a b. me_FeeRate b \<le> me_FeeRate a) es"
    "fmlookup (pool m) txID = Some x \<Longrightarrow> txID \<notin> me_TxID ` set es
     \<Longrightarrow> length es = maxCount
       \<or> maxSize < me_Size x + sum_list (map me_Size (filter (\<lambda>y. me_FeeRate x \<le> me_FeeRate y) es))"
proof -
  let ?xs = "sort_by_rate (listing ord m)"
  have set: "set ?xs = set (listing ord m)" using sort_by_rate_ok(1) by (metis mset_eq_setD)
  have "mset (map me_TxID ?xs) = mset (map me_TxID (listing ord m))" using sort_by_rate_ok(1) by simp
  then have "distinct (map me_TxID ?xs)" using listing_ok(1) [OF ok ord] mset_eq_imp_distinct_iff by blast
  then show d: "distinct (map me_TxID es)" unfolding es_def by (rule select_distinct)
  have sub: "set es \<subseteq> set (listing ord m)" unfolding es_def using select_subset set by blast
  then show mem: "e \<in> set es \<Longrightarrow> fmlookup (pool m) (me_TxID e) = Some (e\<lparr>me_index := 0\<rparr>)" for e
    using listing_ok(2) [OF ok ord] by blast
  show "sorted_wrt (\<lambda>a b. me_FeeRate b \<le> me_FeeRate a) es"
    unfolding es_def by (rule select_sorted [OF sort_by_rate_ok(2)])
  show cnt: "length es \<le> maxCount" unfolding es_def using select_count [of 0 maxCount maxSize 0 ?xs] by simp
  show "sum_list (map me_Size es) \<le> maxSize" unfolding es_def using select_total [OF pos, of maxCount 0 ?xs] by simp
  show "distinct (tx_images (map me_Tx es))"
    using images_distinct [OF d] mem mempool_okD(5,6) [OF ok] by blast
  assume x: "fmlookup (pool m) txID = Some x" and out: "txID \<notin> me_TxID ` set es"
  obtain e where e: "e \<in> set (listing ord m)" "me_TxID e = txID" "e\<lparr>me_index := 0\<rparr> = x"
    using listing_ok(3) [OF ok ord x] by blast
  have "\<forall>y \<in> set ?xs. 0 \<le> me_Size y"
  proof
    fix y assume "y \<in> set ?xs"
    then have "fmlookup (pool m) (me_TxID y) = Some (y\<lparr>me_index := 0\<rparr>)" using listing_ok(2) [OF ok ord] set by blast
    then show "0 \<le> me_Size y" using fmpredD [OF mempool_okD(5) [OF ok]] by (fastforce simp: entry_ok_def)
  qed
  moreover have "e \<in> set ?xs" "e \<notin> set (select_entries maxSize maxCount 0 0 ?xs)"
    using e out set unfolding es_def by auto
  ultimately have "maxCount \<le> 0 + length es
    \<or> maxSize < 0 + me_Size e + sum_list (map me_Size (filter (\<lambda>y. me_FeeRate e \<le> me_FeeRate y) es))"
    unfolding es_def by (intro select_greedy sort_by_rate_ok(2))
  moreover have "me_Size x = me_Size e" "me_FeeRate x = me_FeeRate e" using e(3) by auto
  ultimately show "length es = maxCount
    \<or> maxSize < me_Size x + sum_list (map me_Size (filter (\<lambda>y. me_FeeRate x \<le> me_FeeRate y) es))"
    using cnt by auto
qed

section \<open>Runs of the mempool\<close>

inductive pool_run :: "crypto \<Rightarrow> 's RingMemberChecker \<Rightarrow> mempool \<Rightarrow> bool" for C isCanonical where
  new: "pool_run C isCanonical (NewMempool cfg)"
| add: "pool_run C isCanonical m \<Longrightarrow> range_order ord
    \<Longrightarrow> AddTransaction C isSpent isCanonical ord now tx txData m s = Some (r, m', s') \<Longrightarrow> pool_run C isCanonical m'"
| remove: "pool_run C isCanonical m \<Longrightarrow> pool_run C isCanonical (RemoveTransactions txIDs m)"
| image: "pool_run C isCanonical m \<Longrightarrow> pool_run C isCanonical (RemoveByKeyImage ki m)"
| clear: "pool_run C isCanonical m \<Longrightarrow> pool_run C isCanonical (Clear m)"
| expire: "pool_run C isCanonical m \<Longrightarrow> RemoveExpired ord time m = (n, m') \<Longrightarrow> pool_run C isCanonical m'"
| connect: "pool_run C isCanonical m \<Longrightarrow> OnBlockConnected C block m = Some m' \<Longrightarrow> pool_run C isCanonical m'"
| disconnect: "pool_run C isCanonical m \<Longrightarrow> \<forall>tx \<in> set (Transactions block). distinct (input_images tx)
    \<Longrightarrow> OnBlockDisconnected C isSpent clock block txDataMap m = Some m' \<Longrightarrow> pool_run C isCanonical m'"

lemma run_ok: "pool_run C isCanonical m \<Longrightarrow> mempool_ok C m"
proof (induction rule: pool_run.induct)
  case (add m ord isSpent now tx txData s r m' s')
  then show ?case using AddTransaction_step [OF add.IH add.hyps(2), of isSpent isCanonical now tx txData s] by auto
next
  case (remove m txIDs)
  then show ?case using removals_ok(1) by (simp add: RemoveTransactions_def)
next
  case (expire m ord time n m')
  then show ?case using removals_ok(1) by (auto simp: RemoveExpired_def Let_def)
next
  case (connect m block m')
  then show ?case using connect_txs_ok by (auto simp: OnBlockConnected_def)
next
  case (disconnect m block isSpent clock txDataMap m')
  then show ?case using disconnect_txs_ok by (auto simp: OnBlockDisconnected_def)
qed (simp_all add: new_ok clear_ok remove_image_ok)

section \<open>A spending transaction\<close>

text \<open>An order of iteration, and a transaction that spends one key image, for concrete runs.\<close>

definition sorted_order :: map_order where
  "sorted_order m = map (\<lambda>k. (k, the (fmlookup m k))) (sorted_list_of_fset (fmdom m))"

lemma sorted_order_ok: "range_order sorted_order"
proof -
  have "distinct (sorted_order m)" for m
    by (simp add: sorted_order_def distinct_map inj_on_def sorted_list_of_fset.rep_eq)
  moreover have "(k, p) \<in> set (sorted_order m) \<longleftrightarrow> fmlookup m k = Some p" for k p m
    by (auto simp: sorted_order_def image_iff fmlookup_dom_iff)
  ultimately show ?thesis by (simp add: range_order_def)
qed

definition sample_spend :: "byte \<Rightarrow> Transaction" where
  "sample_spend b = \<lparr>TxVersion = 1,
     Inputs = [\<lparr>KeyImage = replicate 32 b, RingMembers = replicate 16 (replicate 32 3), RingCommitments = replicate 16 (replicate 32 4),
       PseudoOutput = replicate 32 2, RingSignature = replicate 1056 0 @ replicate 32 b @ replicate 32 2\<rparr>],
     Outputs = [\<lparr>Commitment = replicate 32 6, PublicKey = replicate 32 7, RangeProof = [1], EncryptedAmount = replicate 8 0,
       EncryptedMemo = replicate MemoSize 1\<rparr>],
     Fee = 1000000, TxPublicKey = replicate 32 b\<rparr>"

lemma sample_spend_wf: "wf_tx (sample_spend b)"
  by (simp add: sample_spend_def wf_tx_def wf_output_def go_output_def wf_input_def go_input_def limit_defs RingSize_def)

lemma sample_spend_data: "DeserializeTx (enc_tx (sample_spend b)) = Inr (sample_spend b)"
  by (rule DeserializeTx_enc_tx [OF sample_spend_wf])

lemma sample_spend_id: "\<exists>txID. TxID C (sample_spend b) = Some txID"
  by (rule decoded_tx(3) [OF sample_spend_data])

lemma sample_spend_size: "length (enc_tx (sample_spend b)) \<le> 881713"
proof -
  have s: "Serialize (sample_spend b) = Some (enc_tx (sample_spend b))" by (rule decoded_tx(1) [OF sample_spend_data])
  have "length (enc_tx (sample_spend b)) = Size (sample_spend b)"
    using length_fill_buf s by (fastforce simp: Serialize_def Size_def)
  then show ?thesis using wf_tx_Size [OF sample_spend_wf, of b] by simp
qed

definition any_ring :: "nat RingMemberChecker" where
  "any_ring s m c = (True, s)"

lemma check_ring_true: "check_ring any_ring i j ms cs s = (Inr (), s)"
proof (induction ms arbitrary: j cs)
  case (Cons m ms)
  then show ?case by (cases cs) (auto simp: any_ring_def)
qed simp

lemma sample_spend_hash: "\<exists>h. SigningHash sample_crypto (sample_spend b) = Some h \<and> h \<noteq> []"
proof -
  have "signing_prefix (sample_spend b) \<noteq> None"
    unfolding signing_prefix_def
    by (subst fill_buf_exact) (simp_all add: sample_spend_def prefix_chunks_def output_chunks_def output_size_def)
  then obtain p where p: "signing_prefix (sample_spend b) = Some p" by blast
  have "sha3_Sum256 sample_crypto p \<noteq> []" using sha3_len [OF sample_crypto_sha3, of p] by auto
  then show ?thesis using p by (simp add: SigningHash_def)
qed

lemma sample_spend_valid:
  "ValidateTransaction sample_crypto (sample_spend b) (\<lambda>_. False) (Some any_ring) s = (Inr (), s)"
proof -
  obtain h where h: "SigningHash sample_crypto (sample_spend b) = Some h" "h \<noteq> []" using sample_spend_hash by blast
  have "check_inputs sample_crypto (sample_spend b) (\<lambda>_. False) any_ring 0 (Inputs (sample_spend b)) s = (Inr (), s)"
    using h by (simp add: sample_spend_def check_input_def check_ring_true check_signature_def RingSize_def
      VerifyRingCT_def ExtractRingCTBinding_def sample_crypto_def Let_def)
  moreover have "check_memos 0 (Outputs (sample_spend b)) = Inr ()"
    by (simp add: sample_spend_def zeroMemo_def MemoSize_def)
  moreover have "check_range_proofs sample_crypto BadRangeProof 0 (Outputs (sample_spend b)) = Inr ()"
    by (simp add: sample_spend_def VerifyRangeProof_def sample_crypto_def)
  moreover have "verifyCommitmentBalance sample_crypto (sample_spend b) = Inr ()"
    by (simp add: sample_spend_def verifyCommitmentBalance_def sample_crypto_def CreateFeeCommitment_def
      CommitmentAdd_def CommitmentSub_def CommitmentIsZero_def)
  moreover have "TxVersion (sample_spend b) = 1" "\<not> IsCoinbase (sample_spend b)" "length (Inputs (sample_spend b)) = 1"
    by (simp_all add: sample_spend_def IsCoinbase_def)
  ultimately show ?thesis by (simp add: ValidateTransaction_def)
qed

definition sample_pool :: "byte \<Rightarrow> mempool" where
  "sample_pool b = (case AddTransaction sample_crypto (\<lambda>_. False) any_ring sorted_order 0 (sample_spend b)
     (enc_tx (sample_spend b)) (NewMempool DefaultMempoolConfig) 0 of Some (_, m, _) \<Rightarrow> m)"

lemma sample_rate: "1 \<le> Fee (sample_spend b) div word_of_nat (length (enc_tx (sample_spend b)))"
proof -
  let ?n = "length (enc_tx (sample_spend b))"
  have n: "?n \<le> 881713" "0 < ?n" using sample_spend_size decoded_tx(2) [OF sample_spend_data] by auto
  have u: "unat (word_of_nat ?n :: u64) = ?n" using n by (simp add: unat_of_nat)
  have f: "unat (Fee (sample_spend b)) = 1000000" by (simp add: sample_spend_def)
  have "1 \<le> 1000000 div ?n" using n by (simp add: Suc_le_eq div_greater_zero_iff)
  then show ?thesis by (simp add: word_le_nat_alt unat_div u f)
qed

lemma sample_added:
  "\<exists>txID s'. TxID sample_crypto (sample_spend b) = Some txID
    \<and> AddTransaction sample_crypto (\<lambda>_. False) any_ring sorted_order 0 (sample_spend b) (enc_tx (sample_spend b))
        (NewMempool DefaultMempoolConfig) 0 = Some (Inr (), sample_pool b, s')
    \<and> pool (sample_pool b) = fmupd txID (new_entry (sample_spend b) txID (enc_tx (sample_spend b))
        (Fee (sample_spend b) div word_of_nat (length (enc_tx (sample_spend b)))) 0) fmempty"
proof -
  let ?m = "NewMempool DefaultMempoolConfig" and ?d = "enc_tx (sample_spend b)"
  let ?r = "Fee (sample_spend b) div word_of_nat (length ?d)"
  obtain txID where id: "TxID sample_crypto (sample_spend b) = Some txID" using sample_spend_id by blast
  have nc: "\<not> IsCoinbase (sample_spend b)" by (simp add: sample_spend_def IsCoinbase_def)
  have adm: "admits sample_crypto (\<lambda>_. False) any_ring (sample_spend b) ?d ?m 0 (sample_spend b) txID"
    using id nc sample_rate [of b] by (simp add: admits_def sample_spend_data sample_spend_valid NewMempool_def DefaultMempoolConfig_def)
  have room: "make_room sorted_order ?r (int (length ?d)) ?m = Some (Inr (), ?m)"
    using sample_spend_size [of b] by (simp add: make_room_def NewMempool_def DefaultMempoolConfig_def fcard_fempty)
  obtain s' where add: "AddTransaction sample_crypto (\<lambda>_. False) any_ring sorted_order 0 (sample_spend b) ?d ?m 0
      = Some (Inr (), insert_entry (sample_spend b) txID ?d ?r 0 ?m, s')"
    using add_admitted [OF adm, of sorted_order 0] unfolding room by (auto simp: NewMempool_def)
  have dist: "distinct (input_images (sample_spend b))" by (simp add: sample_spend_def input_images_def)
  have "pool (insert_entry (sample_spend b) txID ?d ?r 0 ?m) = fmupd txID (new_entry (sample_spend b) txID ?d ?r 0) fmempty"
    using insert_ok(2) [OF new_ok(1) _ id nc decoded_tx(2) [OF sample_spend_data] dist] new_ok(2) by (simp add: NewMempool_def)
  then show ?thesis using id add by (simp add: sample_pool_def)
qed

lemma sample_run: "pool_run sample_crypto any_ring (sample_pool b)"
proof -
  obtain s' where "AddTransaction sample_crypto (\<lambda>_. False) any_ring sorted_order 0 (sample_spend b) (enc_tx (sample_spend b))
      (NewMempool DefaultMempoolConfig) 0 = Some (Inr (), sample_pool b, s')"
    using sample_added [of b] by blast
  then show ?thesis by (rule pool_run.add [OF pool_run.new sorted_order_ok])
qed

section \<open>Properties\<close>

lemma sheds_card: "sheds r M M' \<Longrightarrow> fcard (fmdom M') \<le> fcard (fmdom M)"
proof -
  assume "sheds r M M'"
  then have "fmdom M' |\<subseteq>| fmdom M" using sheds_dom by blast
  then show ?thesis by (rule fcard_mono)
qed

lemma sheds_size:
  assumes s: "sheds r M M'" and e: "fmpred (entry_ok C) M" shows "pool_size M' \<le> pool_size M"
proof -
  have look: "k \<in> fmdom' M' \<Longrightarrow> fmlookup M k = fmlookup M' k" for k
    using sheds_lookup [OF s] by (auto simp: fmlookup_dom'_iff)
  have "fmdom' M' \<subseteq> fmdom' M" using look by (auto simp: fmlookup_dom'_iff)
  moreover have "0 \<le> me_Size (the (fmlookup M k))" if "k \<in> fmdom' M" for k
    using fmpredD [OF e] that by (fastforce simp: fmlookup_dom'_iff entry_ok_def)
  ultimately have "(\<Sum>k \<in> fmdom' M'. me_Size (the (fmlookup M k))) \<le> (\<Sum>k \<in> fmdom' M. me_Size (the (fmlookup M k)))"
    by (intro sum_mono2) auto
  then show ?thesis using look unfolding pool_size_def by (metis (mono_tags, lifting) sum.cong)
qed

text \<open>C21. Whatever sequence of operations a mempool has gone through, its table, key-image index, priority
  queue, entry indices and size counter agree: the queue holds the entries of the table once each in heap order
  with correct back indices, the index maps exactly the key images of the pool to their transaction, every entry
  is stored under the id of its transaction, and the size counter is the sum of the entry sizes.\<close>

theorem mempool_consistent:
  assumes "pool_run C isCanonical m"
  shows "mempool_ok C m"
  by (rule run_ok [OF assms])

theorem mempool_consistent_witness: "mempool_ok sample_crypto (sample_pool 1)"
  by (rule mempool_consistent [OF sample_run])

text \<open>C22. Adding a transaction always returns, and performs one step of the abstract relation: a known
  transaction changes nothing, an inadmissible one is refused and changes nothing, an admissible one is added
  exactly as decoded or refused for lack of room, and only entries of a lower fee rate are evicted for it.\<close>

theorem AddTransaction_refines:
  assumes "pool_run C isCanonical m" "range_order ord"
  shows "\<exists>r m' s'. AddTransaction C isSpent isCanonical ord now tx txData m s = Some (r, m', s')
    \<and> add_step C isSpent isCanonical now tx txData s m r m'"
  using AddTransaction_step [OF run_ok [OF assms(1)] assms(2), of isSpent isCanonical now tx txData s] by blast

theorem AddTransaction_refines_witness:
  "\<exists>r m' s'. AddTransaction sample_crypto (\<lambda>_. False) any_ring sorted_order 0 (sample_spend 2) (enc_tx (sample_spend 2))
     (sample_pool 1) 0 = Some (r, m', s')
   \<and> add_step sample_crypto (\<lambda>_. False) any_ring 0 (sample_spend 2) (enc_tx (sample_spend 2)) 0 (sample_pool 1) r m'"
  by (rule AddTransaction_refines [OF sample_run sorted_order_ok])

text \<open>C25. Adding transactions keeps the configured limits: with the pool within its limits and a transaction
  that could fit at all, the number of transactions and the total size are within the limits after
  \<open>AddTransaction\<close>, whatever its outcome.\<close>

theorem mempool_limits:
  assumes run: "pool_run C isCanonical m" and ord: "range_order ord"
    and add: "AddTransaction C isSpent isCanonical ord now tx txData m s = Some (r, m', s')"
    and lim: "int (mempool_Size m) \<le> MaxSize (config m)" "SizeBytes m \<le> MaxSizeBytes (config m)"
    and fits: "int (length txData) \<le> MaxSizeBytes (config m)"
  shows "config m' = config m \<and> int (mempool_Size m') \<le> MaxSize (config m') \<and> SizeBytes m' \<le> MaxSizeBytes (config m')"
proof -
  note ok = run_ok [OF run]
  have step: "mempool_ok C m'" "config m' = config m" "add_step C isSpent isCanonical now tx txData s m r m'"
    using AddTransaction_step [OF ok ord, of isSpent isCanonical now tx txData s] add by auto
  have sz: "SizeBytes x = pool_size (pool x)" "mempool_Size x = fcard (fmdom (pool x))" if "mempool_ok C x" for x
    using mempool_okD(7) [OF that] by (simp_all add: SizeBytes_def mempool_Size_def)
  from step(3) have "int (fcard (fmdom (pool m'))) \<le> MaxSize (config m) \<and> pool_size (pool m') \<le> MaxSizeBytes (config m)"
  proof cases
    case (no_room parsed txID e)
    then show ?thesis
      using sheds_card [OF no_room(4)] sheds_size [OF no_room(4) mempool_okD(5) [OF ok]] lim sz [OF ok] by simp
  next
    case (added parsed txID M)
    then have none: "fmlookup M txID = None" using sheds_dom [OF added(4)] by (simp add: fmdom_notD)
    have "fcard (fmdom (pool m')) \<le> Suc (fcard (fmdom M))" unfolding added(7) by (simp add: fcard_finsert_if)
    moreover have "pool_size (pool m') = pool_size M + int (length txData)"
      unfolding added(7) pool_size_upd [OF none] by (simp add: new_entry_def)
    ultimately show ?thesis using added(5,6) lim fits sz [OF ok] by auto
  qed (use lim sz [OF ok] in simp_all)
  then show ?thesis using step sz by simp
qed

theorem mempool_limits_witness:
  "config (sample_pool 1) = config (NewMempool DefaultMempoolConfig)
   \<and> int (mempool_Size (sample_pool 1)) \<le> MaxSize (config (sample_pool 1))
   \<and> SizeBytes (sample_pool 1) \<le> MaxSizeBytes (config (sample_pool 1))"
proof -
  obtain s' where "AddTransaction sample_crypto (\<lambda>_. False) any_ring sorted_order 0 (sample_spend 1) (enc_tx (sample_spend 1))
      (NewMempool DefaultMempoolConfig) 0 = Some (Inr (), sample_pool 1, s')"
    using sample_added [of 1] by blast
  from mempool_limits [OF pool_run.new sorted_order_ok this] show ?thesis
    using sample_spend_size [of 1]
    by (auto simp: NewMempool_def DefaultMempoolConfig_def mempool_Size_def SizeBytes_def fcard_fempty)
qed

text \<open>C24. After a block is connected the pool holds exactly those of its entries that are not a transaction
  of the block and share no key image with it.\<close>

theorem connected_block_clears:
  assumes "pool_run C isCanonical m" "OnBlockConnected C block m = Some m'"
  shows "fmlookup (pool m') txID = Some e \<longleftrightarrow>
    fmlookup (pool m) txID = Some e \<and> (\<forall>tx \<in> set (Transactions block). TxID C tx \<noteq> Some txID)
    \<and> set (input_images (me_Tx e)) \<inter> set (tx_images (Transactions block)) = {}"
proof -
  have "pool m' = clear_of {txID. \<exists>tx \<in> set (Transactions block). TxID C tx = Some txID} (set (tx_images (Transactions block))) (pool m)"
    using connect_txs_ok [OF run_ok [OF assms(1)]] assms(2) by (simp add: OnBlockConnected_def)
  then show ?thesis by (auto simp: clear_of_lookup split: option.splits if_splits)
qed

definition sample_spend_block :: Block where
  "sample_spend_block = \<lparr>Header = \<lparr>Version = 1, Height = 1, PrevHash = [], MerkleRoot = [], Timestamp = 0, Difficulty = 1, Nonce = 0\<rparr>,
     Transactions = [sample_spend 1]\<rparr>"

theorem connected_block_clears_witness:
  "\<exists>m'. OnBlockConnected sample_crypto sample_spend_block (sample_pool 1) = Some m' \<and> pool m' = fmempty"
proof -
  obtain i where i: "TxID sample_crypto (sample_spend 1) = Some i" using sample_spend_id by blast
  obtain m' where m': "OnBlockConnected sample_crypto sample_spend_block (sample_pool 1) = Some m'"
    by (simp add: OnBlockConnected_def sample_spend_block_def i Let_def)
  have "fmlookup (pool m') txID \<noteq> Some e" for txID e
    using connected_block_clears [OF sample_run m', of txID e] sample_added [of 1] i by (auto simp: sample_spend_block_def)
  then have "pool m' = fmempty" by (intro fmap_ext) (metis fmempty_lookup option.exhaust)
  then show ?thesis using m' by blast
qed

text \<open>C23. The transactions offered for a block are distinct entries of the pool in descending order of fee
  rate, at most \<open>maxCount\<close> of them and at most \<open>maxSize\<close> bytes together; no key image is spent twice by
  them; and an entry left out either came after \<open>maxCount\<close> others or does not fit beside the chosen entries
  of at least its fee rate.\<close>

theorem template_transactions:
  assumes "pool_run C isCanonical m" "range_order ord" "0 \<le> maxSize"
  shows "\<exists>es. GetTransactionsForBlock ord maxSize maxCount m = map me_Tx es
    \<and> distinct (tx_images (map me_Tx es)) \<and> length es \<le> maxCount \<and> sum_list (map me_Size es) \<le> maxSize
    \<and> distinct (map me_TxID es) \<and> sorted_wrt (\<lambda>a b. me_FeeRate b \<le> me_FeeRate a) es
    \<and> (\<forall>e \<in> set es. fmlookup (pool m) (me_TxID e) = Some (e\<lparr>me_index := 0\<rparr>))
    \<and> (\<forall>txID x. fmlookup (pool m) txID = Some x \<and> txID \<notin> me_TxID ` set es \<longrightarrow> length es = maxCount
         \<or> maxSize < me_Size x + sum_list (map me_Size (filter (\<lambda>y. me_FeeRate x \<le> me_FeeRate y) es)))"
proof -
  note t = template_entries [OF run_ok [OF assms(1)] assms(2,3), where maxCount = maxCount]
  have "GetTransactionsForBlock ord maxSize maxCount m
    = map me_Tx (select_entries maxSize maxCount 0 0 (sort_by_rate (listing ord m)))"
    by (simp add: GetTransactionsForBlock_def listing_def)
  then show ?thesis
    using t by (intro exI [of _ "select_entries maxSize maxCount 0 0 (sort_by_rate (listing ord m))"]) blast
qed

theorem template_transactions_witness:
  "distinct (tx_images (GetTransactionsForBlock sorted_order 1047576 1000 (sample_pool 1)))
   \<and> length (GetTransactionsForBlock sorted_order 1047576 1000 (sample_pool 1)) \<le> 1000"
proof -
  have "(0 :: int) \<le> 1047576" by simp
  from template_transactions [OF sample_run sorted_order_ok this, of 1000 1]
  obtain es :: "MempoolEntry list" where "GetTransactionsForBlock sorted_order 1047576 1000 (sample_pool 1) = map me_Tx es"
    "distinct (tx_images (map me_Tx es))" "length es \<le> 1000" by blast
  then show ?thesis by simp
qed

end
