(* ===== verification/CoinSelect.thy ===== *)
theory CoinSelect
  imports GoSort
begin

text \<open>
  Coin selection of the wallet (\<open>src/wallet/coinselect.go\<close>).

  The source handles outputs by pointer and compares pointers, so an output is an address and
  \<open>mem\<close> the store.  \<open>sort.Slice\<close> promises a permutation in which no element is less than one before it,
  and nothing about equal elements: it is the argument \<open>srt\<close>, with the hypothesis \<open>sort_slice\<close>.
  \<open>rand.Int\<close> returns a number below its bound or fails: it is the argument \<open>rnd\<close> (draw number and bound),
  with the hypothesis \<open>rand_int\<close>.
\<close>

record OwnedOutput =
  oo_TxID :: hash
  oo_OutputIndex :: int
  oo_Amount :: u64
  oo_Blinding :: hash
  oo_OneTimePrivKey :: hash
  oo_OneTimePubKey :: hash
  oo_Commitment :: hash
  oo_BlockHeight :: u64
  oo_IsCoinbase :: bool
  oo_Spent :: bool
  oo_SpentHeight :: u64
  oo_SpentTxID :: hash
  oo_Memo :: bytes

type_synonym store = "nat \<Rightarrow> OwnedOutput"
type_synonym sort_fun = "(nat \<Rightarrow> nat \<Rightarrow> bool) \<Rightarrow> nat list \<Rightarrow> nat list"
type_synonym rand_fun = "nat \<Rightarrow> nat \<Rightarrow> nat option"

definition sort_slice :: "sort_fun \<Rightarrow> bool" where
  "sort_slice srt \<longleftrightarrow> (\<forall>key :: nat \<Rightarrow> int. \<forall>xs. mset (srt (\<lambda>a b. key a < key b) xs) = mset xs
     \<and> sorted (map key (srt (\<lambda>a b. key a < key b) xs)))"

definition rand_int :: "rand_fun \<Rightarrow> bool" where
  "rand_int rnd \<longleftrightarrow> (\<forall>k n j. rnd k n = Some j \<longrightarrow> j < n)"

datatype select_error = ErrInsufficientFunds | ErrNoSpendableOutputs | ErrInputLimitExceeded

definition maxSelectedInputs :: nat where "maxSelectedInputs = 256"

definition sum_amounts :: "store \<Rightarrow> nat list \<Rightarrow> u64" where
  "sum_amounts mem ps = fold (\<lambda>p total. total + oo_Amount (mem p)) ps 0"

section \<open>Randomised order\<close>

fun shuffle_down :: "rand_fun \<Rightarrow> nat \<Rightarrow> nat \<Rightarrow> nat list \<Rightarrow> nat list" where
  "shuffle_down rnd k 0 xs = xs"
| "shuffle_down rnd k (Suc i) xs =
     (case rnd k (Suc (Suc i)) of
        None \<Rightarrow> xs
      | Some j \<Rightarrow> shuffle_down rnd (Suc k) i (swap_at (Suc i) j xs))"

definition RandomShuffle :: "rand_fun \<Rightarrow> nat list \<Rightarrow> nat list" where
  "RandomShuffle rnd outputs = (if length outputs \<le> 1 then outputs else shuffle_down rnd 0 (length outputs - 1) outputs)"

definition randIndex :: "rand_fun \<Rightarrow> nat \<Rightarrow> nat option" where
  "randIndex rnd n = (if n = 0 then None else rnd 0 n)"

text \<open>The random tie-break; without randomness the first candidate.\<close>

definition tie_break :: "rand_fun \<Rightarrow> 'a list \<Rightarrow> 'a" where
  "tie_break rnd xs = (case randIndex rnd (length xs) of Some j \<Rightarrow> xs ! j | None \<Rightarrow> xs ! 0)"

section \<open>Strategies\<close>

fun all_pairs :: "'a list \<Rightarrow> ('a \<times> 'a) list" where
  "all_pairs [] = []"
| "all_pairs (a # xs) = map (\<lambda>b. (a, b)) xs @ all_pairs xs"

definition findExactMatch :: "rand_fun \<Rightarrow> store \<Rightarrow> nat list \<Rightarrow> u64 \<Rightarrow> nat list option" where
  "findExactMatch rnd mem outputs target =
     (let singles = filter (\<lambda>p. oo_Amount (mem p) = target) outputs in
      if singles \<noteq> [] then Some [tie_break rnd singles]
      else let pairs = filter (\<lambda>(a, b). oo_Amount (mem a) + oo_Amount (mem b) = target) (all_pairs outputs) in
           if pairs \<noteq> [] then (case tie_break rnd pairs of (a, b) \<Rightarrow> Some [a, b])
           else None)"

text \<open>The loop of the capped strategies: take outputs in order until the target is reached.\<close>

fun take_until :: "store \<Rightarrow> u64 \<Rightarrow> nat \<Rightarrow> nat \<Rightarrow> u64 \<Rightarrow> nat list \<Rightarrow> nat list option" where
  "take_until mem target maxInputs n acc [] = None"
| "take_until mem target maxInputs n acc (p # ps) =
     (if maxInputs \<le> n then None
      else let acc = acc + oo_Amount (mem p) in
           if target \<le> acc then Some [p]
           else map_option ((#) p) (take_until mem target maxInputs (Suc n) acc ps))"

definition ascending :: "sort_fun \<Rightarrow> store \<Rightarrow> nat list \<Rightarrow> nat list" where
  "ascending srt mem ps = srt (\<lambda>a b. oo_Amount (mem a) < oo_Amount (mem b)) ps"

definition descending :: "sort_fun \<Rightarrow> store \<Rightarrow> nat list \<Rightarrow> nat list" where
  "descending srt mem ps = srt (\<lambda>a b. oo_Amount (mem b) < oo_Amount (mem a)) ps"

definition selectSmallestFirstCapped :: "sort_fun \<Rightarrow> store \<Rightarrow> nat list \<Rightarrow> u64 \<Rightarrow> nat \<Rightarrow> nat list option" where
  "selectSmallestFirstCapped srt mem outputs target maxInputs =
     (if maxInputs = 0 then None else take_until mem target maxInputs 0 0 (ascending srt mem outputs))"

definition selectLargestFirstCapped :: "sort_fun \<Rightarrow> store \<Rightarrow> nat list \<Rightarrow> u64 \<Rightarrow> nat \<Rightarrow> nat list option" where
  "selectLargestFirstCapped srt mem outputs target maxInputs =
     (if maxInputs = 0 then None else take_until mem target maxInputs 0 0 (descending srt mem outputs))"

text \<open>Replace the first selected output that is larger than \<open>small\<close> and that the target can do without.\<close>

fun replace_first :: "store \<Rightarrow> u64 \<Rightarrow> nat \<Rightarrow> u64 \<Rightarrow> nat list \<Rightarrow> nat list \<times> u64" where
  "replace_first mem target small acc [] = ([], acc)"
| "replace_first mem target small acc (large # rest) =
     (if oo_Amount (mem large) \<le> oo_Amount (mem small)
      then apfst ((#) large) (replace_first mem target small acc rest)
      else let newTotal = acc - oo_Amount (mem large) + oo_Amount (mem small) in
           if newTotal < target then apfst ((#) large) (replace_first mem target small acc rest)
           else (small # rest, newTotal))"

fun replace_all :: "store \<Rightarrow> u64 \<Rightarrow> nat list \<Rightarrow> nat list \<Rightarrow> u64 \<Rightarrow> nat list" where
  "replace_all mem target [] selected acc = selected"
| "replace_all mem target (small # candidates) selected acc =
     (case replace_first mem target small acc selected of
        (selected, acc) \<Rightarrow> replace_all mem target candidates selected acc)"

definition selectMixed :: "sort_fun \<Rightarrow> store \<Rightarrow> nat list \<Rightarrow> u64 \<Rightarrow> nat \<Rightarrow> nat list option" where
  "selectMixed srt mem outputs target maxInputs =
     (case selectLargestFirstCapped srt mem outputs target maxInputs of
        None \<Rightarrow> None
      | Some base \<Rightarrow>
          let acc = sum_amounts mem base;
              candidates = ascending srt mem (filter (\<lambda>p. p \<notin> set base) outputs);
              selected = descending srt mem base
          in Some (replace_all mem target candidates selected acc))"

definition SelectInputs :: "rand_fun \<Rightarrow> rand_fun \<Rightarrow> sort_fun \<Rightarrow> store \<Rightarrow> nat list \<Rightarrow> u64 \<Rightarrow> select_error + nat list" where
  "SelectInputs shuf rnd srt mem available targetAmount =
     (if available = [] then Inl ErrNoSpendableOutputs
      else let spendable = filter (\<lambda>p. \<not> oo_Spent (mem p)) available;
               totalAvailable = sum_amounts mem spendable in
      if totalAvailable < targetAmount then Inl ErrInsufficientFunds
      else let spendable = RandomShuffle shuf spendable in
      case findExactMatch rnd mem spendable targetAmount of
        Some exact \<Rightarrow> Inr exact
      | None \<Rightarrow>
     (case selectSmallestFirstCapped srt mem spendable targetAmount maxSelectedInputs of
        Some selected \<Rightarrow> Inr selected
      | None \<Rightarrow>
     (case selectMixed srt mem spendable targetAmount maxSelectedInputs of
        Some selected \<Rightarrow> Inr selected
      | None \<Rightarrow> Inl ErrInputLimitExceeded)))"

definition SelectInputsWithDecoys :: "rand_fun \<Rightarrow> rand_fun \<Rightarrow> sort_fun \<Rightarrow> store \<Rightarrow> nat list \<Rightarrow> u64 \<Rightarrow> (hash \<Rightarrow> nat) \<Rightarrow> nat
    \<Rightarrow> select_error + nat list" where
  "SelectInputsWithDecoys shuf rnd srt mem available targetAmount countDecoys minDecoys =
     (if available = [] then Inl ErrNoSpendableOutputs
      else let spendable = filter (\<lambda>p. \<not> oo_Spent (mem p) \<and> minDecoys \<le> countDecoys (oo_Commitment (mem p))) available in
      if sum_amounts mem spendable < targetAmount then Inl ErrInsufficientFunds
      else SelectInputs shuf rnd srt mem spendable targetAmount)"

section \<open>Amounts as natural numbers\<close>

definition amount_of :: "store \<Rightarrow> nat \<Rightarrow> nat" where
  "amount_of mem p = unat (oo_Amount (mem p))"

definition total_of :: "store \<Rightarrow> nat list \<Rightarrow> nat" where
  "total_of mem ps = sum_list (map (amount_of mem) ps)"

lemma total_of_simps [simp]:
  "total_of mem [] = 0" "total_of mem (p # ps) = amount_of mem p + total_of mem ps"
  "total_of mem (ps @ qs) = total_of mem ps + total_of mem qs"
  by (simp_all add: total_of_def)

lemma total_of_perm: "mset ps = mset qs \<Longrightarrow> total_of mem ps = total_of mem qs"
  unfolding total_of_def by (metis mset_map sum_mset_sum_list)

lemma total_of_set: "distinct ps \<Longrightarrow> total_of mem ps = sum (amount_of mem) (set ps)"
  by (simp add: total_of_def sum_list_distinct_conv_sum_set)

lemma total_of_mono: "distinct ps \<Longrightarrow> set ps \<subseteq> set qs \<Longrightarrow> distinct qs \<Longrightarrow> total_of mem ps \<le> total_of mem qs"
  by (simp add: total_of_set sum_mono2)

lemma unat_amount_less: "oo_Amount (mem p) < oo_Amount (mem q) \<longleftrightarrow> amount_of mem p < amount_of mem q"
  by (simp add: amount_of_def word_less_nat_alt)

lemma fold_amounts: "unat acc + total_of mem ps < 2 ^ 64
    \<Longrightarrow> unat (fold (\<lambda>p total. total + oo_Amount (mem p)) ps acc) = unat acc + total_of mem ps" for acc :: u64
proof (induction ps arbitrary: acc)
  case (Cons p ps)
  have "unat (acc + oo_Amount (mem p)) = unat acc + amount_of mem p"
    using Cons.prems by (simp add: unat_add_no_wrap amount_of_def)
  then show ?case using Cons by simp
qed simp

lemma sum_amounts_nat: "total_of mem ps < 2 ^ 64 \<Longrightarrow> unat (sum_amounts mem ps) = total_of mem ps"
  using fold_amounts [of 0 mem ps] by (simp add: sum_amounts_def)

section \<open>Order\<close>

lemma shuffle_down_perm: "rand_int rnd \<Longrightarrow> i < length xs \<Longrightarrow> mset (shuffle_down rnd k i xs) = mset xs"
proof (induction rnd k i xs rule: shuffle_down.induct)
  case (2 rnd k i xs)
  show ?case
  proof (cases "rnd k (Suc (Suc i))")
    case (Some j)
    then have "j < Suc (Suc i)" using 2(2) by (auto simp: rand_int_def)
    then show ?thesis using 2 Some by simp
  qed simp
qed simp

lemma RandomShuffle_perm: "rand_int rnd \<Longrightarrow> mset (RandomShuffle rnd xs) = mset xs"
  by (auto simp: RandomShuffle_def intro: shuffle_down_perm)

lemma sort_sliceD:
  fixes key :: "nat \<Rightarrow> int"
  assumes "sort_slice srt"
  shows "mset (srt (\<lambda>a b. key a < key b) xs) = mset xs" "sorted (map key (srt (\<lambda>a b. key a < key b) xs))"
  using assms unfolding sort_slice_def by auto

lemma ascending_ok: "sort_slice srt \<Longrightarrow> mset (ascending srt mem ps) = mset ps"
proof -
  assume s: "sort_slice srt"
  have "(\<lambda>a b. oo_Amount (mem a) < oo_Amount (mem b)) = (\<lambda>a b. int (amount_of mem a) < int (amount_of mem b))"
    by (simp add: unat_amount_less fun_eq_iff)
  note lt = this
  show ?thesis unfolding ascending_def lt by (rule sort_sliceD(1) [OF s])
qed

lemma descending_ok:
  assumes "sort_slice srt"
  shows "mset (descending srt mem ps) = mset ps"
    "sorted_wrt (\<lambda>a b. amount_of mem b \<le> amount_of mem a) (descending srt mem ps)"
proof -
  let ?key = "\<lambda>p. - int (amount_of mem p)"
  have lt: "(\<lambda>a b. oo_Amount (mem b) < oo_Amount (mem a)) = (\<lambda>a b. ?key a < ?key b)"
    by (simp add: unat_amount_less fun_eq_iff)
  have "mset (descending srt mem ps) = mset ps \<and> sorted (map ?key (descending srt mem ps))"
    unfolding descending_def lt by (intro conjI sort_sliceD [OF assms])
  then show "mset (descending srt mem ps) = mset ps"
    "sorted_wrt (\<lambda>a b. amount_of mem b \<le> amount_of mem a) (descending srt mem ps)"
    by (auto simp: sorted_map)
qed

section \<open>The strategies\<close>

lemma all_pairs_ok: "(a, b) \<in> set (all_pairs xs) \<Longrightarrow> distinct xs \<Longrightarrow> a \<in> set xs \<and> b \<in> set xs \<and> a \<noteq> b"
  by (induction xs) auto

lemma tie_break_ok: "rand_int rnd \<Longrightarrow> xs \<noteq> [] \<Longrightarrow> tie_break rnd xs \<in> set xs"
  by (auto simp: tie_break_def randIndex_def rand_int_def split: option.split)

lemma findExactMatch_ok:
  assumes rnd: "rand_int rnd" and d: "distinct outputs" and lim: "total_of mem outputs < 2 ^ 64"
    and found: "findExactMatch rnd mem outputs target = Some sel"
  shows "distinct sel \<and> set sel \<subseteq> set outputs \<and> length sel \<le> 2 \<and> sel \<noteq> [] \<and> total_of mem sel = unat target"
proof -
  let ?singles = "filter (\<lambda>p. oo_Amount (mem p) = target) outputs"
  let ?pairs = "filter (\<lambda>(a, b). oo_Amount (mem a) + oo_Amount (mem b) = target) (all_pairs outputs)"
  show ?thesis
  proof (cases "?singles = []")
    case False
    then have "sel = [tie_break rnd ?singles]" using found by (auto simp: findExactMatch_def Let_def)
    then show ?thesis using tie_break_ok [OF rnd False] by (auto simp: amount_of_def)
  next
    case True
    then have ne: "?pairs \<noteq> []" using found by (auto simp: findExactMatch_def Let_def split: if_splits)
    obtain a b where ab: "tie_break rnd ?pairs = (a, b)" by fastforce
    have sel: "sel = [a, b]" using found True ne ab by (simp add: findExactMatch_def Let_def)
    have m: "a \<in> set outputs" "b \<in> set outputs" "a \<noteq> b" "oo_Amount (mem a) + oo_Amount (mem b) = target"
      using tie_break_ok [OF rnd ne] all_pairs_ok [OF _ d] by (auto simp: ab)
    have "total_of mem [a, b] \<le> total_of mem outputs" by (rule total_of_mono) (use m d in auto)
    then have "unat target = amount_of mem a + amount_of mem b"
      using lim m(4) by (auto simp: amount_of_def unat_add_no_wrap)
    then show ?thesis using sel m by simp
  qed
qed

lemma take_until_Some:
  "take_until mem target mx n acc ps = Some sel \<Longrightarrow> unat acc + total_of mem ps < 2 ^ 64
   \<Longrightarrow> \<exists>k. sel = take k ps \<and> 0 < k \<and> k \<le> length ps \<and> n + k \<le> mx \<and> unat target \<le> unat acc + total_of mem sel"
proof (induction mem target mx n acc ps arbitrary: sel rule: take_until.induct)
  case (2 mem target mx n acc p ps)
  let ?acc = "acc + oo_Amount (mem p)"
  have u: "unat ?acc = unat acc + amount_of mem p"
    using 2(3) by (simp add: unat_add_no_wrap amount_of_def)
  have n: "\<not> mx \<le> n" using 2(2) by auto
  show ?case
  proof (cases "target \<le> ?acc")
    case True
    then show ?thesis using 2(2) n u by (intro exI [of _ 1]) (auto simp: word_le_nat_alt)
  next
    case False
    then obtain rest where r: "take_until mem target mx (Suc n) ?acc ps = Some rest" "sel = p # rest"
      using 2(2) n by auto
    have "unat ?acc + total_of mem ps < 2 ^ 64" using 2(3) u by simp
    from 2(1) [OF n refl False r(1) this] obtain k where
      "rest = take k ps" "k \<le> length ps" "Suc n + k \<le> mx" "unat target \<le> unat ?acc + total_of mem rest" by blast
    then show ?thesis using r(2) u by (intro exI [of _ "Suc k"]) auto
  qed
qed simp

lemma take_until_None:
  "take_until mem target mx n acc ps = None \<Longrightarrow> unat acc + total_of mem ps < 2 ^ 64
   \<Longrightarrow> take (mx - n) ps = [] \<or> unat acc + total_of mem (take (mx - n) ps) < unat target"
proof (induction mem target mx n acc ps rule: take_until.induct)
  case (2 mem target mx n acc p ps)
  let ?acc = "acc + oo_Amount (mem p)"
  have u: "unat ?acc = unat acc + amount_of mem p"
    using 2(3) by (simp add: unat_add_no_wrap amount_of_def)
  show ?case
  proof (cases "mx \<le> n")
    case n: False
    then have less: "\<not> target \<le> ?acc" and none: "take_until mem target mx (Suc n) ?acc ps = None"
      using 2(2) by (auto simp: Let_def split: if_splits)
    have "unat ?acc + total_of mem ps < 2 ^ 64" using 2(3) u by simp
    from 2(1) [OF n refl less none this] less u
    have "unat acc + (amount_of mem p + total_of mem (take (mx - Suc n) ps)) < unat target"
      by (auto simp: word_le_nat_alt)
    moreover have "take (mx - n) (p # ps) = p # take (mx - Suc n) ps" using n by (simp add: take_Cons')
    ultimately show ?thesis by simp
  qed simp
qed simp

lemma replace_first_ok:
  assumes "replace_first mem target small acc sel = (sel', acc')"
    and "unat acc = t + total_of mem sel" "unat acc + amount_of mem small < 2 ^ 64" "target \<le> acc"
    and "distinct sel" "small \<notin> set sel"
  shows "length sel' = length sel \<and> distinct sel' \<and> set sel' \<subseteq> insert small (set sel)
    \<and> unat acc' = t + total_of mem sel' \<and> target \<le> acc' \<and> total_of mem sel' \<le> total_of mem sel"
  using assms
proof (induction sel arbitrary: sel' acc' t)
  case (Cons large rest)
  let ?new = "acc - oo_Amount (mem large) + oo_Amount (mem small)"
  show ?case
  proof (cases "oo_Amount (mem large) \<le> oo_Amount (mem small) \<or> ?new < target")
    case True
    obtain rest' where r: "replace_first mem target small acc rest = (rest', acc')" and sel': "sel' = large # rest'"
      using True Cons.prems(1) by (auto simp: Let_def apfst_def map_prod_def split: if_splits prod.splits)
    have "length rest' = length rest \<and> distinct rest' \<and> set rest' \<subseteq> insert small (set rest)
      \<and> unat acc' = (t + amount_of mem large) + total_of mem rest' \<and> target \<le> acc'
      \<and> total_of mem rest' \<le> total_of mem rest"
      by (rule Cons.IH [OF r]) (use Cons.prems in auto)
    then show ?thesis using sel' Cons.prems by auto
  next
    case False
    then have res: "sel' = small # rest" "acc' = ?new" using Cons.prems(1) by (auto simp: Let_def)
    have "oo_Amount (mem large) \<le> acc" using Cons.prems(2) by (simp add: word_le_nat_alt amount_of_def)
    then have d: "unat (acc - oo_Amount (mem large)) = unat acc - amount_of mem large"
      by (simp add: unat_sub amount_of_def)
    have "unat ?new = unat acc - amount_of mem large + amount_of mem small"
      using Cons.prems(3) d by (subst unat_add_no_wrap) (auto simp: amount_of_def)
    moreover have "amount_of mem small < amount_of mem large"
      using False by (simp add: amount_of_def word_le_nat_alt)
    ultimately show ?thesis using res False Cons.prems by auto
  qed
qed simp

lemma replace_all_ok:
  "\<lbrakk>unat acc = total_of mem sel; total_of mem cands + total_of mem sel < 2 ^ 64; target \<le> acc;
    distinct sel; distinct cands; set cands \<inter> set sel = {}\<rbrakk>
   \<Longrightarrow> length (replace_all mem target cands sel acc) = length sel \<and> distinct (replace_all mem target cands sel acc)
     \<and> set (replace_all mem target cands sel acc) \<subseteq> set cands \<union> set sel
     \<and> unat target \<le> total_of mem (replace_all mem target cands sel acc)"
proof (induction cands arbitrary: sel acc)
  case Nil
  then show ?case by (simp add: word_le_nat_alt)
next
  case (Cons small cands)
  obtain sel' acc' where r: "replace_first mem target small acc sel = (sel', acc')" by fastforce
  have s: "length sel' = length sel \<and> distinct sel' \<and> set sel' \<subseteq> insert small (set sel)
    \<and> unat acc' = 0 + total_of mem sel' \<and> target \<le> acc' \<and> total_of mem sel' \<le> total_of mem sel"
    by (rule replace_first_ok [OF r]) (use Cons.prems in auto)
  have "length (replace_all mem target cands sel' acc') = length sel' \<and> distinct (replace_all mem target cands sel' acc')
     \<and> set (replace_all mem target cands sel' acc') \<subseteq> set cands \<union> set sel'
     \<and> unat target \<le> total_of mem (replace_all mem target cands sel' acc')"
    by (rule Cons.IH) (use s Cons.prems in auto)
  then show ?case using s r by auto
qed

lemma largest_are_best:
  "\<lbrakk>sorted_wrt (\<lambda>a b. amount_of mem b \<le> amount_of mem a) xs; S \<subseteq> set xs; card S \<le> k\<rbrakk>
   \<Longrightarrow> sum (amount_of mem) S \<le> total_of mem (take k xs)"
proof (induction xs arbitrary: S k)
  case (Cons x xs)
  have fin: "finite S" using Cons.prems(2) finite_subset by blast
  show ?case
  proof (cases "S = {}")
    case False
    then obtain k' where k: "k = Suc k'" using Cons.prems(3) fin by (cases k) auto
    obtain s where s: "s \<in> S" "x \<in> S \<Longrightarrow> s = x" using False by blast
    have "sum (amount_of mem) (S - {s}) \<le> total_of mem (take k' xs)"
      by (rule Cons.IH) (use Cons.prems s fin k in auto)
    moreover have "amount_of mem s \<le> amount_of mem x" using Cons.prems s by auto
    ultimately show ?thesis using k s fin by (simp add: sum.remove [of S s])
  qed simp
qed simp

section \<open>Selections reach the target\<close>

definition selection_ok :: "store \<Rightarrow> nat list \<Rightarrow> u64 \<Rightarrow> nat list \<Rightarrow> bool" where
  "selection_ok mem unspent target sel \<longleftrightarrow> sel \<noteq> [] \<and> distinct sel \<and> set sel \<subseteq> set unspent
     \<and> length sel \<le> maxSelectedInputs \<and> unat target \<le> total_of mem sel"

lemma selection_ok_perm: "mset xs = mset ys \<Longrightarrow> selection_ok mem xs target sel = selection_ok mem ys target sel"
  using mset_eq_setD [of xs ys] by (simp add: selection_ok_def)

lemma take_until_selection:
  assumes "take_until mem target maxSelectedInputs 0 0 ps = Some sel" "distinct ps" "total_of mem ps < 2 ^ 64"
  shows "selection_ok mem ps target sel"
proof -
  obtain k where "sel = take k ps" "0 < k" "k \<le> length ps" "k \<le> maxSelectedInputs" "unat target \<le> total_of mem sel"
    using take_until_Some [OF assms(1)] assms(3) by auto
  then show ?thesis using assms(2) set_take_subset [of k ps] by (auto simp: selection_ok_def)
qed

lemma smallest_ok:
  assumes "sort_slice srt" "distinct xs" "total_of mem xs < 2 ^ 64"
    and "selectSmallestFirstCapped srt mem xs target maxSelectedInputs = Some sel"
  shows "selection_ok mem xs target sel"
proof -
  note p = ascending_ok [OF assms(1), of mem xs]
  have "take_until mem target maxSelectedInputs 0 0 (ascending srt mem xs) = Some sel"
    using assms(4) by (simp add: selectSmallestFirstCapped_def split: if_splits)
  then show ?thesis
    using take_until_selection [of mem target "ascending srt mem xs" sel] assms(2,3) total_of_perm [OF p, of mem]
      mset_eq_imp_distinct_iff [OF p] selection_ok_perm [OF p] by simp
qed

lemma largest_ok:
  assumes "sort_slice srt" "distinct xs" "total_of mem xs < 2 ^ 64"
    and "selectLargestFirstCapped srt mem xs target maxSelectedInputs = Some sel"
  shows "selection_ok mem xs target sel"
proof -
  note p = descending_ok(1) [OF assms(1), of mem xs]
  have "take_until mem target maxSelectedInputs 0 0 (descending srt mem xs) = Some sel"
    using assms(4) by (simp add: selectLargestFirstCapped_def split: if_splits)
  then show ?thesis
    using take_until_selection [of mem target "descending srt mem xs" sel] assms(2,3) total_of_perm [OF p, of mem]
      mset_eq_imp_distinct_iff [OF p] selection_ok_perm [OF p] by simp
qed

lemma mixed_ok:
  assumes srt: "sort_slice srt" and d: "distinct xs" and lim: "total_of mem xs < 2 ^ 64"
    and sel: "selectMixed srt mem xs target maxSelectedInputs = Some sel"
  shows "selection_ok mem xs target sel"
proof -
  obtain base where b: "selectLargestFirstCapped srt mem xs target maxSelectedInputs = Some base"
    using sel by (auto simp: selectMixed_def split: option.splits)
  note ok = largest_ok [OF srt d lim b]
  let ?rest = "filter (\<lambda>p. p \<notin> set base) xs"
  let ?cands = "ascending srt mem ?rest" and ?sel = "descending srt mem base"
  note pc = ascending_ok [OF srt, of mem ?rest] and ps = descending_ok(1) [OF srt, of mem base]
  note sets = mset_eq_setD [OF pc] mset_eq_setD [OF ps] and dist = mset_eq_imp_distinct_iff [OF pc] mset_eq_imp_distinct_iff [OF ps]
  have whole: "total_of mem (?rest @ base) \<le> total_of mem xs"
    by (rule total_of_mono) (use d ok in \<open>auto simp: selection_ok_def\<close>)
  then have sb: "unat (sum_amounts mem base) = total_of mem base" using lim by (intro sum_amounts_nat) simp
  have "length (replace_all mem target ?cands ?sel (sum_amounts mem base)) = length ?sel
      \<and> distinct (replace_all mem target ?cands ?sel (sum_amounts mem base))
      \<and> set (replace_all mem target ?cands ?sel (sum_amounts mem base)) \<subseteq> set ?cands \<union> set ?sel
      \<and> unat target \<le> total_of mem (replace_all mem target ?cands ?sel (sum_amounts mem base))"
    by (rule replace_all_ok)
      (use sb ok whole lim d sets dist total_of_perm [OF pc, of mem] total_of_perm [OF ps, of mem]
       in \<open>auto simp: selection_ok_def word_le_nat_alt\<close>)
  moreover have "sel = replace_all mem target ?cands ?sel (sum_amounts mem base)"
    using sel b by (simp add: selectMixed_def Let_def)
  moreover have "length ?sel = length base" using mset_eq_length [OF ps] .
  ultimately show ?thesis using ok sets by (auto simp: selection_ok_def)
qed

lemma mixed_None:
  assumes srt: "sort_slice srt" and lim: "total_of mem xs < 2 ^ 64"
    and none: "selectMixed srt mem xs target maxSelectedInputs = None"
    and S: "S \<subseteq> set xs" "S \<noteq> {}" "card S \<le> maxSelectedInputs"
  shows "sum (amount_of mem) S < unat target"
proof -
  note p = descending_ok [OF srt, of mem xs]
  let ?ys = "descending srt mem xs"
  have "take_until mem target maxSelectedInputs 0 0 ?ys = None"
    using none by (auto simp: selectMixed_def selectLargestFirstCapped_def maxSelectedInputs_def Let_def split: option.splits)
  from take_until_None [OF this] have "take maxSelectedInputs ?ys = [] \<or> total_of mem (take maxSelectedInputs ?ys) < unat target"
    using lim total_of_perm [OF p(1), of mem] by simp
  moreover have "sum (amount_of mem) S \<le> total_of mem (take maxSelectedInputs ?ys)"
    by (rule largest_are_best) (use p(2) mset_eq_setD [OF p(1)] S in auto)
  moreover have "?ys \<noteq> []" using mset_eq_setD [OF p(1)] S by auto
  ultimately show ?thesis by (auto simp: maxSelectedInputs_def)
qed

lemma SelectInputs_cases:
  fixes mem :: store
  assumes srt: "sort_slice srt" and shuf: "rand_int shuf" and rnd: "rand_int rnd" and d: "distinct available"
  defines "unspent \<equiv> filter (\<lambda>p. \<not> oo_Spent (mem p)) available"
  assumes lim: "total_of mem unspent < 2 ^ 64"
  shows "SelectInputs shuf rnd srt mem available target = Inr sel \<Longrightarrow> selection_ok mem unspent target sel"
    and "SelectInputs shuf rnd srt mem available target = Inl ErrInsufficientFunds \<Longrightarrow> total_of mem unspent < unat target"
    and "SelectInputs shuf rnd srt mem available target = Inl ErrInputLimitExceeded \<Longrightarrow> S \<subseteq> set unspent
      \<Longrightarrow> S \<noteq> {} \<Longrightarrow> card S \<le> maxSelectedInputs \<Longrightarrow> sum (amount_of mem) S < unat target"
    and "SelectInputs shuf rnd srt mem available target = Inl ErrNoSpendableOutputs \<Longrightarrow> available = []"
proof -
  note p = RandomShuffle_perm [OF shuf, of unspent]
  let ?xs = "RandomShuffle shuf unspent"
  have du: "distinct ?xs" using d mset_eq_imp_distinct_iff [OF p] by (simp add: unspent_def)
  have lu: "total_of mem ?xs < 2 ^ 64" using lim total_of_perm [OF p] by simp
  have low: "target > sum_amounts mem unspent \<longleftrightarrow> total_of mem unspent < unat target"
    using sum_amounts_nat [OF lim] by (simp add: word_less_nat_alt)
  have exact: "selection_ok mem unspent target e" if "findExactMatch rnd mem ?xs target = Some e" for e
    using findExactMatch_ok [OF rnd du lu that] mset_eq_setD [OF p] by (auto simp: selection_ok_def maxSelectedInputs_def)
  note found = exact smallest_ok [OF srt du lu, unfolded selection_ok_perm [OF p]] mixed_ok [OF srt du lu, unfolded selection_ok_perm [OF p]]
  note unfold = SelectInputs_def Let_def unspent_def [symmetric]
  show "SelectInputs shuf rnd srt mem available target = Inr sel \<Longrightarrow> selection_ok mem unspent target sel"
    using found by (auto simp: unfold split: if_splits option.splits)
  show "SelectInputs shuf rnd srt mem available target = Inl ErrInsufficientFunds \<Longrightarrow> total_of mem unspent < unat target"
    using low by (auto simp: unfold split: if_splits option.splits)
  show "SelectInputs shuf rnd srt mem available target = Inl ErrNoSpendableOutputs \<Longrightarrow> available = []"
    by (auto simp: unfold split: if_splits option.splits)
  show "SelectInputs shuf rnd srt mem available target = Inl ErrInputLimitExceeded \<Longrightarrow> S \<subseteq> set unspent
      \<Longrightarrow> S \<noteq> {} \<Longrightarrow> card S \<le> maxSelectedInputs \<Longrightarrow> sum (amount_of mem) S < unat target"
    using mixed_None [OF srt lu] mset_eq_setD [OF p] by (auto simp: unfold split: if_splits option.splits)
qed

section \<open>Selections never repeat an output\<close>

text \<open>Whatever the amounts, and even if their sum wraps, a selection has no output twice.\<close>

definition sublist_of :: "'a list \<Rightarrow> 'a list \<Rightarrow> bool" where
  "sublist_of sel xs \<longleftrightarrow> distinct sel \<and> set sel \<subseteq> set xs"

lemma sublist_of_perm: "mset xs = mset ys \<Longrightarrow> sublist_of sel xs = sublist_of sel ys"
  using mset_eq_setD [of xs ys] by (simp add: sublist_of_def)

lemma findExactMatch_sublist:
  assumes rnd: "rand_int rnd" and d: "distinct outputs" and found: "findExactMatch rnd mem outputs target = Some sel"
  shows "sublist_of sel outputs"
proof -
  let ?singles = "filter (\<lambda>p. oo_Amount (mem p) = target) outputs"
  let ?pairs = "filter (\<lambda>(a, b). oo_Amount (mem a) + oo_Amount (mem b) = target) (all_pairs outputs)"
  show ?thesis
  proof (cases "?singles = []")
    case False
    then show ?thesis using found tie_break_ok [OF rnd False] by (auto simp: sublist_of_def findExactMatch_def Let_def)
  next
    case True
    then have ne: "?pairs \<noteq> []" using found by (auto simp: findExactMatch_def Let_def split: if_splits)
    obtain a b where ab: "tie_break rnd ?pairs = (a, b)" by fastforce
    have "sel = [a, b]" using found True ne ab by (simp add: findExactMatch_def Let_def)
    then show ?thesis using tie_break_ok [OF rnd ne] all_pairs_ok [OF _ d] by (auto simp: ab sublist_of_def)
  qed
qed

lemma take_until_prefix: "take_until mem target mx n acc ps = Some sel \<Longrightarrow> \<exists>k. sel = take k ps"
proof (induction mem target mx n acc ps arbitrary: sel rule: take_until.induct)
  case (2 mem target mx n acc p ps)
  show ?case
  proof (cases "target \<le> acc + oo_Amount (mem p)")
    case True
    then show ?thesis using 2(2) by (auto simp: Let_def split: if_splits intro: exI [of _ 1])
  next
    case False
    then obtain rest where "take_until mem target mx (Suc n) (acc + oo_Amount (mem p)) ps = Some rest" "sel = p # rest" "\<not> mx \<le> n"
      using 2(2) by (auto simp: Let_def split: if_splits)
    with 2(1) False obtain k where "rest = take k ps" by blast
    then show ?thesis using \<open>sel = p # rest\<close> by (auto intro: exI [of _ "Suc k"])
  qed
qed simp

lemma take_until_sublist: "take_until mem target mx n acc ps = Some sel \<Longrightarrow> distinct ps \<Longrightarrow> sublist_of sel ps"
  using take_until_prefix [of mem target mx n acc ps sel] by (auto simp: sublist_of_def dest: in_set_takeD)

lemma replace_first_sublist:
  "replace_first mem target small acc sel = (sel', acc') \<Longrightarrow> sublist_of sel xs \<Longrightarrow> small \<notin> set sel
   \<Longrightarrow> sublist_of sel' (small # xs) \<and> set sel' \<subseteq> insert small (set sel)"
proof (induction sel arbitrary: sel' acc')
  case (Cons large rest)
  obtain rest' acc'' where r: "replace_first mem target small acc rest = (rest', acc'')" by fastforce
  have "sublist_of rest' (small # xs) \<and> set rest' \<subseteq> insert small (set rest)"
    by (rule Cons.IH [OF r]) (use Cons.prems in \<open>auto simp: sublist_of_def\<close>)
  then show ?case using Cons.prems r by (auto simp: sublist_of_def Let_def split: if_splits)
qed (simp add: sublist_of_def)

lemma replace_all_sublist:
  "\<lbrakk>sublist_of sel xs; distinct cands; set cands \<inter> set sel = {}; set cands \<subseteq> set xs\<rbrakk>
   \<Longrightarrow> sublist_of (replace_all mem target cands sel acc) xs"
proof (induction cands arbitrary: sel acc)
  case (Cons small cands)
  obtain sel' acc' where r: "replace_first mem target small acc sel = (sel', acc')" by fastforce
  have s: "sublist_of sel' (small # xs)" "set sel' \<subseteq> insert small (set sel)"
    using replace_first_sublist [OF r Cons.prems(1)] Cons.prems(3) by auto
  have "sublist_of (replace_all mem target cands sel' acc') xs"
    by (rule Cons.IH) (use s Cons.prems in \<open>auto simp: sublist_of_def\<close>)
  then show ?case by (simp add: r)
qed simp

lemma mixed_sublist:
  assumes srt: "sort_slice srt" and d: "distinct xs" and sel: "selectMixed srt mem xs target mx = Some sel"
  shows "sublist_of sel xs"
proof -
  obtain base where b: "selectLargestFirstCapped srt mem xs target mx = Some base"
    using sel by (auto simp: selectMixed_def split: option.splits)
  let ?rest = "filter (\<lambda>p. p \<notin> set base) xs"
  note px = descending_ok(1) [OF srt, of mem xs] and pc = ascending_ok [OF srt, of mem ?rest]
    and ps = descending_ok(1) [OF srt, of mem base]
  have base: "sublist_of base xs"
    using b take_until_sublist [of mem target mx 0 0 "descending srt mem xs" base] d
      mset_eq_imp_distinct_iff [OF px] sublist_of_perm [OF px]
    by (auto simp: selectLargestFirstCapped_def split: if_splits)
  have "sublist_of (replace_all mem target (ascending srt mem ?rest) (descending srt mem base) (sum_amounts mem base)) xs"
    by (rule replace_all_sublist)
      (use base d mset_eq_setD [OF pc] mset_eq_setD [OF ps] mset_eq_imp_distinct_iff [OF pc] mset_eq_imp_distinct_iff [OF ps]
       in \<open>auto simp: sublist_of_def\<close>)
  then show ?thesis using sel b by (simp add: selectMixed_def Let_def)
qed

lemma SelectInputs_sublist:
  assumes srt: "sort_slice srt" and shuf: "rand_int shuf" and rnd: "rand_int rnd" and d: "distinct available"
    and sel: "SelectInputs shuf rnd srt mem available target = Inr sel"
  shows "sublist_of sel (filter (\<lambda>p. \<not> oo_Spent (mem p)) available)"
proof -
  let ?u = "filter (\<lambda>p. \<not> oo_Spent (mem p)) available"
  let ?xs = "RandomShuffle shuf ?u"
  note p = RandomShuffle_perm [OF shuf, of ?u]
  note pa = ascending_ok [OF srt, of mem ?xs]
  have d': "distinct ?xs" using d mset_eq_imp_distinct_iff [OF p] by simp
  have "sublist_of s ?xs" if "selectSmallestFirstCapped srt mem ?xs target maxSelectedInputs = Some s" for s
    using that take_until_sublist [of mem target maxSelectedInputs 0 0 "ascending srt mem ?xs" s] d'
      mset_eq_imp_distinct_iff [OF pa] sublist_of_perm [OF pa]
    by (auto simp: selectSmallestFirstCapped_def split: if_splits)
  then have "sublist_of sel ?xs"
    using sel findExactMatch_sublist [OF rnd d'] mixed_sublist [OF srt d']
    by (auto simp: SelectInputs_def Let_def split: if_splits option.splits)
  then show ?thesis by (simp only: sublist_of_perm [OF p])
qed

lemma take_until_length: "take_until mem target mx n acc ps = Some sel \<Longrightarrow> sel \<noteq> [] \<and> n + length sel \<le> mx"
proof (induction mem target mx n acc ps arbitrary: sel rule: take_until.induct)
  case (2 mem target mx n acc p ps)
  show ?case
  proof (cases "target \<le> acc + oo_Amount (mem p)")
    case False
    then obtain rest where r: "take_until mem target mx (Suc n) (acc + oo_Amount (mem p)) ps = Some rest" "sel = p # rest" "\<not> mx \<le> n"
      using 2(2) by (auto simp: Let_def split: if_splits)
    from 2(1) [OF r(3) refl False r(1)] show ?thesis using r(2) by simp
  qed (use 2(2) in \<open>auto simp: Let_def split: if_splits\<close>)
qed simp

lemma replace_first_length: "length (fst (replace_first mem target small acc sel)) = length sel"
  by (induction sel) (auto simp: Let_def)

lemma replace_all_length: "length (replace_all mem target cands sel acc) = length sel"
  using replace_first_length by (induction cands arbitrary: sel acc) (auto simp: split_def)

lemma SelectInputs_length:
  assumes srt: "sort_slice srt" and sel: "SelectInputs shuf rnd srt mem available target = Inr sel"
  shows "sel \<noteq> [] \<and> length sel \<le> maxSelectedInputs"
proof -
  have exact: "e \<noteq> [] \<and> length e \<le> maxSelectedInputs" if "findExactMatch rnd mem xs target = Some e" for xs e
    using that by (auto simp: findExactMatch_def Let_def maxSelectedInputs_def split: if_splits prod.splits)
  have small: "e \<noteq> [] \<and> length e \<le> maxSelectedInputs" if "selectSmallestFirstCapped srt mem xs target maxSelectedInputs = Some e" for xs e
    using that take_until_length by (fastforce simp: selectSmallestFirstCapped_def split: if_splits)
  have mixed: "e \<noteq> [] \<and> length e \<le> maxSelectedInputs" if m: "selectMixed srt mem xs target maxSelectedInputs = Some e" for xs e
  proof -
    obtain base where b: "take_until mem target maxSelectedInputs 0 0 (descending srt mem xs) = Some base"
      using m by (auto simp: selectMixed_def selectLargestFirstCapped_def split: option.splits if_splits)
    then have "length e = length base"
      using m mset_eq_length [OF descending_ok(1) [OF srt, of mem base]]
      by (auto simp: selectMixed_def selectLargestFirstCapped_def Let_def replace_all_length maxSelectedInputs_def)
    then show ?thesis using take_until_length [OF b] by auto
  qed
  show ?thesis
    using sel by (auto simp: SelectInputs_def Let_def split: if_splits option.splits dest: exact small mixed)
qed

section \<open>Selection is correct\<close>

text \<open>C26. Coin selection is correct and complete.  A selection holds at least one and at most 256 different unspent
  outputs of the wallet, and their amounts reach the target.  The wallet reports insufficient funds only when all unspent
  outputs together are below the target, and reports the input limit only when no set of at most 256 unspent outputs
  reaches the target: whenever some spend within the limit exists, one is found.  The sum of the unspent amounts is taken
  to be below \<open>2\<^sup>64\<close>.\<close>

theorem SelectInputs_correct:
  assumes "sort_slice srt" "rand_int shuf" "rand_int rnd" "distinct available"
    and "total_of mem (filter (\<lambda>p. \<not> oo_Spent (mem p)) available) < 2 ^ 64"
  shows "case SelectInputs shuf rnd srt mem available target of
      Inr sel \<Rightarrow> sel \<noteq> [] \<and> distinct sel \<and> set sel \<subseteq> {p \<in> set available. \<not> oo_Spent (mem p)} \<and> length sel \<le> 256
        \<and> unat target \<le> total_of mem sel
    | Inl ErrNoSpendableOutputs \<Rightarrow> available = []
    | Inl ErrInsufficientFunds \<Rightarrow> total_of mem (filter (\<lambda>p. \<not> oo_Spent (mem p)) available) < unat target
    | Inl ErrInputLimitExceeded \<Rightarrow> (\<nexists>S. S \<noteq> {} \<and> S \<subseteq> {p \<in> set available. \<not> oo_Spent (mem p)} \<and> card S \<le> 256
        \<and> unat target \<le> sum (amount_of mem) S)"
proof -
  note c = SelectInputs_cases [OF assms, of target, unfolded selection_ok_def maxSelectedInputs_def]
  show ?thesis
  proof (cases "SelectInputs shuf rnd srt mem available target")
    case (Inl e)
    then show ?thesis using c(2,4) c(3) by (cases e) (auto simp: not_le [symmetric])
  next
    case (Inr sel)
    then show ?thesis using c(1) [OF Inr] by auto
  qed
qed

definition sample_coins :: store where
  "sample_coins p = \<lparr>oo_TxID = [], oo_OutputIndex = 0, oo_Amount = (if p < 4 then [5, 7, 9, 3] ! p else 0), oo_Blinding = [],
     oo_OneTimePrivKey = [], oo_OneTimePubKey = [], oo_Commitment = [], oo_BlockHeight = 0, oo_IsCoinbase = False,
     oo_Spent = (p = 3), oo_SpentHeight = 0, oo_SpentTxID = [], oo_Memo = []\<rparr>"

lemma exchange_sort_slice: "sort_slice exchange_sort"
  unfolding sort_slice_def by (intro allI conjI; rule exchange_sort_ok) simp_all

theorem SelectInputs_correct_witness:
  "SelectInputs (\<lambda>_ _. None) (\<lambda>_ _. None) exchange_sort sample_coins [0, 1, 2, 3] 18 = Inr [0, 1, 2]
   \<and> distinct [0, 1, 2 :: nat] \<and> unat (18 :: u64) \<le> total_of sample_coins [0, 1, 2]"
proof -
  have "SelectInputs (\<lambda>_ _. None) (\<lambda>_ _. None) exchange_sort sample_coins [0, 1, 2, 3] 18 = Inr [0, 1, 2]"
    by code_simp
  then show ?thesis
    using SelectInputs_correct [OF exchange_sort_slice, of "\<lambda>_ _. None" "\<lambda>_ _. None" "[0, 1, 2, 3]" sample_coins 18]
    by (simp add: rand_int_def sample_coins_def total_of_def amount_of_def)
qed

end
