(* ===== verification/Wallet.thy ===== *)
theory Wallet
  imports CoinSelect Memo
begin

text \<open>
  The wallet state and its operations (\<open>src/wallet/wallet.go\<close>).

  The outputs are the list behind \<open>w.data.Outputs\<close>; an output's address is its position, so a
  selection of outputs is a list of positions and the copies handed to a caller are values.  The list holds no nil:
  nil outputs, pending credits and send records come only from a \<open>null\<close> in the wallet file, which \<open>Save\<close> never writes.
  Reservations are a map from outpoints.  \<open>time.Now()\<close> is the argument \<open>now\<close> in nanoseconds.
\<close>

section \<open>State\<close>

definition zero_hash :: hash where "zero_hash = replicate 32 0"

record StealthKeys =
  sk_SpendPrivKey :: hash
  sk_SpendPubKey :: hash
  sk_ViewPrivKey :: hash
  sk_ViewPubKey :: hash

record SendRecipient =
  sr_Address :: bytes
  sr_Amount :: u64
  sr_Memo :: bytes

record SendRecord =
  snd_TxID :: hash
  snd_Timestamp :: int
  snd_Fee :: u64
  snd_BlockHeight :: u64
  snd_Recipients :: "SendRecipient list"
  snd_Recipient :: bytes
  snd_Amount :: u64
  snd_Memo :: bytes

record PendingCredit =
  pc_TxID :: hash
  pc_Amount :: u64
  pc_AddedAt :: int

record WalletData =
  wd_Version :: u32
  wd_ViewOnly :: bool
  wd_Mnemonic :: bytes
  wd_Keys :: StealthKeys
  wd_Outputs :: "OwnedOutput list"
  wd_SendHistory :: "SendRecord list"
  wd_PendingCredits :: "PendingCredit list"
  wd_SyncedHeight :: u64
  wd_CreatedAt :: int

type_synonym reservedOutpoint = "hash \<times> int"

record inputReservation =
  ir_lease :: u64
  ir_expiresAt :: int

record Wallet =
  w_data :: WalletData
  w_password :: bytes
  w_inputReservations :: "reservedOutpoint \<rightharpoonup> inputReservation"
  w_nextLease :: u64
  w_inputFilter :: "(OwnedOutput \<Rightarrow> bool) option"
  w_memoDecryptFailures :: u64
  w_memoDecryptLastHeight :: u64

datatype wallet_error = SelectError select_error | SelectedAlreadyReserved | NoSpendableOutputs | NoInputsSpecified
  | DuplicateInput nat nat | OutputNotFound nat | OutputAlreadySpent nat | OutputImmature nat u64 u64
  | OutputReserved nat | KeyImageInMempool nat

definition outpoint :: "OwnedOutput \<Rightarrow> reservedOutpoint" where
  "outpoint out = (oo_TxID out, oo_OutputIndex out)"

abbreviation outputs :: "Wallet \<Rightarrow> OwnedOutput list" where
  "outputs w \<equiv> wd_Outputs (w_data w)"

definition set_outputs :: "OwnedOutput list \<Rightarrow> Wallet \<Rightarrow> Wallet" where
  "set_outputs outs w = w\<lparr>w_data := (w_data w)\<lparr>wd_Outputs := outs\<rparr>\<rparr>"

definition set_credits :: "PendingCredit list \<Rightarrow> Wallet \<Rightarrow> Wallet" where
  "set_credits pcs w = w\<lparr>w_data := (w_data w)\<lparr>wd_PendingCredits := pcs\<rparr>\<rparr>"

definition init_wallet :: "WalletData \<Rightarrow> bytes \<Rightarrow> Wallet" where
  "init_wallet d password = \<lparr>w_data = d, w_password = password, w_inputReservations = Map.empty, w_nextLease = 0,
     w_inputFilter = None, w_memoDecryptFailures = 0, w_memoDecryptLastHeight = 0\<rparr>"

section \<open>Send records\<close>

definition GetRecipients :: "SendRecord \<Rightarrow> SendRecipient list" where
  "GetRecipients r = (if snd_Recipients r \<noteq> [] then snd_Recipients r
     else if snd_Recipient r \<noteq> [] \<or> snd_Amount r > 0
     then [\<lparr>sr_Address = snd_Recipient r, sr_Amount = snd_Amount r, sr_Memo = snd_Memo r\<rparr>]
     else [])"

definition TotalAmount :: "SendRecord \<Rightarrow> u64" where
  "TotalAmount r = (if snd_Recipients r \<noteq> [] then fold (\<lambda>rr t. t + sr_Amount rr) (snd_Recipients r) 0 else snd_Amount r)"

definition RecordSend :: "SendRecord \<Rightarrow> Wallet \<Rightarrow> Wallet" where
  "RecordSend r w = w\<lparr>w_data := (w_data w)\<lparr>wd_SendHistory := wd_SendHistory (w_data w) @ [r]\<rparr>\<rparr>"

definition GetSendRecord :: "hash \<Rightarrow> Wallet \<Rightarrow> SendRecord option" where
  "GetSendRecord txID w = find (\<lambda>r. snd_TxID r = txID) (wd_SendHistory (w_data w))"

section \<open>Maturity and balances\<close>

definition w_CoinbaseMaturity :: u64 where "w_CoinbaseMaturity = 60"
definition w_SafeConfirmations :: u64 where "w_SafeConfirmations = 10"

definition confirmations :: "OwnedOutput \<Rightarrow> u64 \<Rightarrow> u64" where
  "confirmations out currentHeight = (if oo_BlockHeight out \<le> currentHeight then currentHeight - oo_BlockHeight out else 0)"

definition IsOutputMature :: "OwnedOutput \<Rightarrow> u64 \<Rightarrow> bool" where
  "IsOutputMature out currentHeight =
     (if oo_Spent out then False
      else if oo_IsCoinbase out then w_CoinbaseMaturity \<le> confirmations out currentHeight
      else w_SafeConfirmations \<le> confirmations out currentHeight)"

definition sum_where :: "(OwnedOutput \<Rightarrow> bool) \<Rightarrow> OwnedOutput list \<Rightarrow> u64" where
  "sum_where P outs = fold (\<lambda>out total. if P out then total + oo_Amount out else total) outs 0"

definition Balance :: "Wallet \<Rightarrow> u64" where
  "Balance w = sum_where (\<lambda>out. \<not> oo_Spent out) (outputs w)"

definition SpendableBalance :: "u64 \<Rightarrow> Wallet \<Rightarrow> u64" where
  "SpendableBalance currentHeight w = sum_where (\<lambda>out. IsOutputMature out currentHeight) (outputs w)"

definition PendingBalance :: "u64 \<Rightarrow> Wallet \<Rightarrow> u64" where
  "PendingBalance currentHeight w = sum_where (\<lambda>out. \<not> oo_Spent out \<and> \<not> IsOutputMature out currentHeight) (outputs w)"

definition PendingUnconfirmedBalance :: "Wallet \<Rightarrow> u64" where
  "PendingUnconfirmedBalance w = fold (\<lambda>pc total. total + pc_Amount pc) (wd_PendingCredits (w_data w)) 0"

definition AllOutputs :: "Wallet \<Rightarrow> OwnedOutput list" where
  "AllOutputs w = outputs w"

definition outputsForKeyImageScan :: "Wallet \<Rightarrow> OwnedOutput list" where
  "outputsForKeyImageScan w = filter (\<lambda>out. \<not> (oo_Spent out \<and> oo_SpentTxID out = zero_hash)) (outputs w)"

definition SpendableOutputs :: "Wallet \<Rightarrow> OwnedOutput list" where
  "SpendableOutputs w = filter (\<lambda>out. \<not> oo_Spent out) (outputs w)"

definition MatureOutputs :: "u64 \<Rightarrow> Wallet \<Rightarrow> OwnedOutput list" where
  "MatureOutputs currentHeight w = filter (\<lambda>out. IsOutputMature out currentHeight) (outputs w)"

definition OutputCount :: "Wallet \<Rightarrow> nat \<times> nat" where
  "OutputCount w = (length (outputs w), length (filter (\<lambda>out. \<not> oo_Spent out) (outputs w)))"

section \<open>Receiving and spending\<close>

definition AddOutput :: "OwnedOutput \<Rightarrow> Wallet \<Rightarrow> Wallet" where
  "AddOutput out w =
     (if \<exists>existing \<in> set (outputs w). oo_TxID existing = oo_TxID out \<and> oo_OutputIndex existing = oo_OutputIndex out then w
      else set_credits (filter (\<lambda>pc. pc_TxID pc \<noteq> oo_TxID out) (wd_PendingCredits (w_data w)))
             (set_outputs (outputs w @ [out]) w))"

fun replace_credit :: "hash \<Rightarrow> u64 \<Rightarrow> int \<Rightarrow> PendingCredit list \<Rightarrow> PendingCredit list" where
  "replace_credit txID amount now [] = [\<lparr>pc_TxID = txID, pc_Amount = amount, pc_AddedAt = now\<rparr>]"
| "replace_credit txID amount now (pc # pcs) =
     (if pc_TxID pc = txID then pc\<lparr>pc_Amount := amount, pc_AddedAt := now\<rparr> # pcs
      else pc # replace_credit txID amount now pcs)"

definition AddPendingCredit :: "int \<Rightarrow> hash \<Rightarrow> u64 \<Rightarrow> Wallet \<Rightarrow> Wallet" where
  "AddPendingCredit unix txID amount w =
     (if amount = 0 then w else set_credits (replace_credit txID amount unix (wd_PendingCredits (w_data w))) w)"

definition unreserve :: "reservedOutpoint \<Rightarrow> Wallet \<Rightarrow> Wallet" where
  "unreserve op w = w\<lparr>w_inputReservations := (w_inputReservations w)(op := None)\<rparr>"

text \<open>The search loops of \<open>MarkSpent\<close> and \<open>MarkSpentByTx\<close>: \<open>None\<close> when they return false, otherwise the outputs and
  the outpoint whose reservation is dropped.\<close>

fun mark_spent :: "hash \<Rightarrow> u64 \<Rightarrow> OwnedOutput list \<Rightarrow> (OwnedOutput list \<times> reservedOutpoint option) option" where
  "mark_spent key height [] = None"
| "mark_spent key height (out # outs) =
     (if oo_OneTimePubKey out \<noteq> key then map_option (apfst ((#) out)) (mark_spent key height outs)
      else if oo_Spent out \<and> oo_SpentTxID out \<noteq> zero_hash
      then Some (out\<lparr>oo_SpentHeight := height, oo_SpentTxID := zero_hash\<rparr> # outs, None)
      else if \<not> oo_Spent out
      then Some (out\<lparr>oo_Spent := True, oo_SpentHeight := height\<rparr> # outs, Some (outpoint out))
      else None)"

fun mark_spent_by :: "hash \<Rightarrow> hash \<Rightarrow> OwnedOutput list \<Rightarrow> (OwnedOutput list \<times> reservedOutpoint option) option" where
  "mark_spent_by key txID [] = None"
| "mark_spent_by key txID (out # outs) =
     (if oo_OneTimePubKey out = key \<and> \<not> oo_Spent out
      then Some (out\<lparr>oo_Spent := True, oo_SpentHeight := 0, oo_SpentTxID := txID\<rparr> # outs, Some (outpoint out))
      else map_option (apfst ((#) out)) (mark_spent_by key txID outs))"

definition apply_mark :: "(OwnedOutput list \<times> reservedOutpoint option) option \<Rightarrow> Wallet \<Rightarrow> Wallet \<times> bool" where
  "apply_mark r w = (case r of None \<Rightarrow> (w, False)
     | Some (outs, None) \<Rightarrow> (set_outputs outs w, True)
     | Some (outs, Some op) \<Rightarrow> (unreserve op (set_outputs outs w), True))"

definition MarkSpent :: "hash \<Rightarrow> u64 \<Rightarrow> Wallet \<Rightarrow> Wallet \<times> bool" where
  "MarkSpent key height w = apply_mark (mark_spent key height (outputs w)) w"

definition MarkSpentByTx :: "hash \<Rightarrow> hash \<Rightarrow> Wallet \<Rightarrow> Wallet \<times> bool" where
  "MarkSpentByTx key txID w = apply_mark (mark_spent_by key txID (outputs w)) w"

definition dead_spend :: "(hash \<Rightarrow> bool) \<Rightarrow> OwnedOutput \<Rightarrow> bool" where
  "dead_spend alive out \<longleftrightarrow> oo_Spent out \<and> oo_SpentTxID out \<noteq> zero_hash \<and> \<not> alive (oo_SpentTxID out)"

definition restore_output :: "OwnedOutput \<Rightarrow> OwnedOutput" where
  "restore_output out = out\<lparr>oo_Spent := False, oo_SpentHeight := 0, oo_SpentTxID := zero_hash\<rparr>"

definition ReconcileUnconfirmedSpends :: "(hash \<Rightarrow> bool) \<Rightarrow> Wallet \<Rightarrow> Wallet \<times> nat" where
  "ReconcileUnconfirmedSpends alive w =
     (let dead = filter (dead_spend alive) (outputs w);
          w1 = set_outputs (map (\<lambda>out. if dead_spend alive out then restore_output out else out) (outputs w)) w in
      (if dead \<noteq> [] then set_credits (filter (\<lambda>pc. pc_TxID pc \<notin> oo_SpentTxID ` set dead) (wd_PendingCredits (w_data w1))) w1
       else w1, length dead))"

definition rewind_output :: "u64 \<Rightarrow> OwnedOutput \<Rightarrow> OwnedOutput" where
  "rewind_output height out = (if oo_Spent out \<and> height < oo_SpentHeight out
     then out\<lparr>oo_Spent := False, oo_SpentHeight := 0\<rparr> else out)"

definition RewindToHeight :: "u64 \<Rightarrow> Wallet \<Rightarrow> Wallet \<times> nat" where
  "RewindToHeight height w =
     (let kept = map (rewind_output height) (filter (\<lambda>out. oo_BlockHeight out \<le> height) (outputs w));
          w1 = set_outputs kept w in
      (if height < wd_SyncedHeight (w_data w) then w1\<lparr>w_data := (w_data w1)\<lparr>wd_SyncedHeight := height\<rparr>\<rparr> else w1,
       length (filter (\<lambda>out. \<not> oo_BlockHeight out \<le> height) (outputs w))))"

definition SetSyncedHeight :: "u64 \<Rightarrow> Wallet \<Rightarrow> Wallet" where
  "SetSyncedHeight height w = w\<lparr>w_data := (w_data w)\<lparr>wd_SyncedHeight := height\<rparr>\<rparr>"

definition SetInputFilter :: "(OwnedOutput \<Rightarrow> bool) option \<Rightarrow> Wallet \<Rightarrow> Wallet" where
  "SetInputFilter fn w = w\<lparr>w_inputFilter := fn\<rparr>"

definition recordMemoDecryptFailure :: "u64 \<Rightarrow> Wallet \<Rightarrow> Wallet" where
  "recordMemoDecryptFailure height w =
     w\<lparr>w_memoDecryptFailures := w_memoDecryptFailures w + 1, w_memoDecryptLastHeight := height\<rparr>"

section \<open>Input reservations\<close>

definition lease_ttl :: "int \<Rightarrow> int" where
  "lease_ttl ttl = (if ttl \<le> 0 then 2 * 60 * 1000000000 else ttl)"

definition drop_expired :: "int \<Rightarrow> Wallet \<Rightarrow> Wallet" where
  "drop_expired now w = w\<lparr>w_inputReservations := (\<lambda>op. case w_inputReservations w op of
     Some r \<Rightarrow> if ir_expiresAt r < now then None else Some r | None \<Rightarrow> None)\<rparr>"

definition drop_lease :: "u64 \<Rightarrow> (reservedOutpoint \<rightharpoonup> inputReservation) \<Rightarrow> (reservedOutpoint \<rightharpoonup> inputReservation)" where
  "drop_lease lease m = (\<lambda>op. case m op of Some r \<Rightarrow> if ir_lease r = lease then None else Some r | None \<Rightarrow> None)"

definition filtered :: "Wallet \<Rightarrow> OwnedOutput \<Rightarrow> bool" where
  "filtered w out = (case w_inputFilter w of Some fn \<Rightarrow> fn out | None \<Rightarrow> False)"

definition is_candidate :: "u64 \<Rightarrow> Wallet \<Rightarrow> OwnedOutput \<Rightarrow> bool" where
  "is_candidate currentHeight w out \<longleftrightarrow> \<not> oo_Spent out \<and> IsOutputMature out currentHeight
     \<and> w_inputReservations w (outpoint out) = None \<and> \<not> filtered w out"

definition candidates :: "u64 \<Rightarrow> Wallet \<Rightarrow> nat list" where
  "candidates currentHeight w = filter (\<lambda>i. is_candidate currentHeight w (outputs w ! i)) [0..<length (outputs w)]"

definition reserve_outputs :: "u64 \<Rightarrow> int \<Rightarrow> OwnedOutput list \<Rightarrow> (reservedOutpoint \<rightharpoonup> inputReservation)
    \<Rightarrow> (reservedOutpoint \<rightharpoonup> inputReservation)" where
  "reserve_outputs lease expires outs m =
     fold (\<lambda>out m. m(outpoint out \<mapsto> \<lparr>ir_lease = lease, ir_expiresAt = expires\<rparr>)) outs m"

text \<open>The loop of \<open>ReserveMatureInputs\<close>, which rolls back when an outpoint is already reserved.\<close>

fun reserve_checked :: "int \<Rightarrow> u64 \<Rightarrow> int \<Rightarrow> OwnedOutput list \<Rightarrow> (reservedOutpoint \<rightharpoonup> inputReservation)
    \<Rightarrow> (reservedOutpoint \<rightharpoonup> inputReservation) \<times> bool" where
  "reserve_checked now lease expires [] m = (m, True)"
| "reserve_checked now lease expires (out # outs) m =
     (if (case m (outpoint out) of Some existing \<Rightarrow> now < ir_expiresAt existing | None \<Rightarrow> False)
      then (drop_lease lease m, False)
      else reserve_checked now lease expires outs (m(outpoint out \<mapsto> \<lparr>ir_lease = lease, ir_expiresAt = expires\<rparr>)))"

type_synonym lease_result = "wallet_error + (u64 \<times> OwnedOutput list)"

definition ReserveMatureInputs :: "rand_fun \<Rightarrow> rand_fun \<Rightarrow> sort_fun \<Rightarrow> int \<Rightarrow> u64 \<Rightarrow> u64 \<Rightarrow> int \<Rightarrow> Wallet
    \<Rightarrow> Wallet \<times> lease_result" where
  "ReserveMatureInputs shuf rnd srt now currentHeight targetAmount ttl w =
     (let w = drop_expired now w in
      case SelectInputs shuf rnd srt ((!) (outputs w)) (candidates currentHeight w) targetAmount of
        Inl e \<Rightarrow> (w, Inl (SelectError e))
      | Inr selected \<Rightarrow>
          let lease = w_nextLease w + 1;
              inputs = map ((!) (outputs w)) selected in
          case reserve_checked now lease (now + lease_ttl ttl) inputs (w_inputReservations w) of
            (m, ok) \<Rightarrow> (w\<lparr>w_nextLease := lease, w_inputReservations := m\<rparr>,
               if ok then Inr (lease, inputs) else Inl SelectedAlreadyReserved))"

definition grant_lease :: "int \<Rightarrow> int \<Rightarrow> OwnedOutput list \<Rightarrow> Wallet \<Rightarrow> Wallet \<times> lease_result" where
  "grant_lease now ttl selected w =
     (let lease = w_nextLease w + 1 in
      (w\<lparr>w_nextLease := lease,
         w_inputReservations := reserve_outputs lease (now + lease_ttl ttl) selected (w_inputReservations w)\<rparr>,
       Inr (lease, selected)))"

definition ReserveAllMatureInputs :: "int \<Rightarrow> u64 \<Rightarrow> int \<Rightarrow> Wallet \<Rightarrow> Wallet \<times> lease_result" where
  "ReserveAllMatureInputs now currentHeight ttl w =
     (let w = drop_expired now w;
          cands = map ((!) (outputs w)) (candidates currentHeight w) in
      if cands = [] then (w, Inl NoSpendableOutputs) else grant_lease now ttl cands w)"

fun find_duplicate :: "nat \<Rightarrow> reservedOutpoint list \<Rightarrow> reservedOutpoint list \<Rightarrow> (nat \<times> nat) option" where
  "find_duplicate i seen [] = None"
| "find_duplicate i seen (ref # refs) =
     (if ref \<in> set seen then Some (i, length (takeWhile (\<lambda>r. r \<noteq> ref) seen))
      else find_duplicate (Suc i) (seen @ [ref]) refs)"

definition check_ref :: "u64 \<Rightarrow> Wallet \<Rightarrow> nat \<Rightarrow> reservedOutpoint \<Rightarrow> wallet_error + OwnedOutput" where
  "check_ref currentHeight w i ref =
     (case find (\<lambda>out. outpoint out = ref) (rev (outputs w)) of
        None \<Rightarrow> Inl (OutputNotFound i)
      | Some out \<Rightarrow>
          if oo_Spent out then Inl (OutputAlreadySpent i)
          else if \<not> IsOutputMature out currentHeight
          then Inl (OutputImmature i (confirmations out currentHeight)
                 (if oo_IsCoinbase out then w_CoinbaseMaturity else w_SafeConfirmations))
          else if w_inputReservations w (outpoint out) \<noteq> None then Inl (OutputReserved i)
          else if filtered w out then Inl (KeyImageInMempool i)
          else Inr out)"

fun check_refs :: "u64 \<Rightarrow> Wallet \<Rightarrow> nat \<Rightarrow> reservedOutpoint list \<Rightarrow> wallet_error + OwnedOutput list" where
  "check_refs currentHeight w i [] = Inr []"
| "check_refs currentHeight w i (ref # refs) =
     (case check_ref currentHeight w i ref of
        Inl e \<Rightarrow> Inl e
      | Inr out \<Rightarrow> map_sum id ((#) out) (check_refs currentHeight w (Suc i) refs))"

definition ReserveSpecificInputs :: "int \<Rightarrow> reservedOutpoint list \<Rightarrow> u64 \<Rightarrow> int \<Rightarrow> Wallet \<Rightarrow> Wallet \<times> lease_result" where
  "ReserveSpecificInputs now refs currentHeight ttl w =
     (if refs = [] then (w, Inl NoInputsSpecified)
      else let w = drop_expired now w in
      case find_duplicate 0 [] refs of
        Some (i, prev) \<Rightarrow> (w, Inl (DuplicateInput i prev))
      | None \<Rightarrow>
     (case check_refs currentHeight w 0 refs of
        Inl e \<Rightarrow> (w, Inl e)
      | Inr selected \<Rightarrow> grant_lease now ttl selected w))"

definition ReleaseInputLease :: "u64 \<Rightarrow> Wallet \<Rightarrow> Wallet" where
  "ReleaseInputLease lease w =
     (if lease = 0 then w else w\<lparr>w_inputReservations := drop_lease lease (w_inputReservations w)\<rparr>)"

section \<open>Balances\<close>

lemma sum_where_acc: "fold (\<lambda>out total. if P out then total + oo_Amount out else total) outs a = a + sum_where P outs" for a :: u64
proof -
  have "fold (\<lambda>out total. if P out then total + oo_Amount out else total) outs (a + b)
      = a + fold (\<lambda>out total. if P out then total + oo_Amount out else total) outs b" for b :: u64
    by (induction outs arbitrary: b) (auto simp: add.assoc)
  from this [of 0] show ?thesis by (simp add: sum_where_def)
qed

lemma sum_where_simps [simp]: "sum_where P [] = 0"
  "sum_where P (out # outs) = (if P out then oo_Amount out else 0) + sum_where P outs"
  using sum_where_acc [of P outs "oo_Amount out"] by (auto simp: sum_where_def)

lemma sum_where_split: "sum_where P outs = sum_where Q outs + sum_where (\<lambda>out. P out \<and> \<not> Q out) outs"
  if "\<And>out. Q out \<Longrightarrow> P out" using that by (induction outs) auto

lemma mature_unspent: "IsOutputMature out h \<Longrightarrow> \<not> oo_Spent out"
  by (simp add: IsOutputMature_def split: if_splits)

end
