(* ===== verification/Scanner.thy ===== *)
theory Scanner
  imports Wallet TxValidation
begin

text \<open>
  Scanning blocks for the wallet's outputs and spends (\<open>src/wallet/scanner.go\<close>), and the conversion of a block into
  scan data (\<open>blockToScanData\<close> of \<open>src/cli.go\<close>).

  The cryptographic callbacks are the fields of \<open>ScannerConfig\<close>, which also carries the four derivations the wallet
  holds; a callback that may be nil is an option, and a returned error is \<open>None\<close>.
\<close>

record OutputData =
  od_Index :: int
  od_PubKey :: hash
  od_Commitment :: hash
  od_EncryptedAmount :: bytes
  od_EncryptedMemo :: bytes

record TxData =
  td_TxID :: hash
  td_TxPubKey :: hash
  td_IsCoinbase :: bool
  td_Outputs :: "OutputData list"
  td_KeyImages :: "hash list"

record BlockData =
  bd_Height :: u64
  bd_Transactions :: "TxData list"

record ScannerConfig =
  sc_checkStealthOutput :: "hash \<Rightarrow> hash \<Rightarrow> hash \<Rightarrow> hash \<Rightarrow> bool"
  sc_deriveSpendKey :: "hash \<Rightarrow> hash \<Rightarrow> hash \<Rightarrow> hash option"
  sc_deriveOutputSecret :: "hash \<Rightarrow> hash \<Rightarrow> hash option"
  sc_deriveOutputSecretIndexed :: "(hash \<Rightarrow> hash \<Rightarrow> u32 \<Rightarrow> hash option) option"
  sc_GenerateKeyImage :: "hash \<Rightarrow> hash option"
  sc_CreateCommitment :: "(u64 \<Rightarrow> hash \<Rightarrow> hash option) option"
  sc_ScalarToPoint :: "(hash \<Rightarrow> hash option) option"
  sc_PointAdd :: "(hash \<Rightarrow> hash \<Rightarrow> hash option) option"
  sc_BlindingAdd :: "(hash \<Rightarrow> hash \<Rightarrow> hash option) option"

section \<open>Amounts and blindings\<close>

definition amountMask :: "crypto \<Rightarrow> hash \<Rightarrow> u32 \<Rightarrow> hash" where
  "amountMask C blinding outputIndex = sha3_Sum256 C (go_string ''blocknet_amount'' @ blinding @ PutUint32 outputIndex)"

definition encryptAmount :: "crypto \<Rightarrow> u64 \<Rightarrow> hash \<Rightarrow> u32 \<Rightarrow> bytes" where
  "encryptAmount C amount blinding outputIndex = xor_bytes (PutUint64 amount) (take 8 (amountMask C blinding outputIndex))"

definition DecryptAmount :: "crypto \<Rightarrow> bytes \<Rightarrow> hash \<Rightarrow> u32 \<Rightarrow> u64" where
  "DecryptAmount C encrypted blinding outputIndex = Uint64 (xor_bytes encrypted (take 8 (amountMask C blinding outputIndex)))"

definition DeriveBlinding :: "crypto \<Rightarrow> hash \<Rightarrow> u32 \<Rightarrow> hash" where
  "DeriveBlinding C sharedSecret outputIndex =
     sha3_Sum256 C (go_string ''blocknet_blinding'' @ sharedSecret @ PutUint32 outputIndex)"

definition DeriveCoinbaseConsensusBlinding :: "crypto \<Rightarrow> hash \<Rightarrow> u64 \<Rightarrow> u32 \<Rightarrow> hash" where
  "DeriveCoinbaseConsensusBlinding C txPubKey blockHeight outputIndex =
     sha3_Sum256 C (go_string ''blocknet_coinbase_consensus_blinding'' @ txPubKey @ PutUint64 blockHeight @ PutUint32 outputIndex)"

section \<open>Recognising an output\<close>

text \<open>The output secret under which the output belongs to the wallet.\<close>

definition secret_matches :: "(hash \<Rightarrow> hash option) \<Rightarrow> (hash \<Rightarrow> hash \<Rightarrow> hash option) \<Rightarrow> hash \<Rightarrow> hash \<Rightarrow> hash option \<Rightarrow> hash option" where
  "secret_matches toPoint add spendPub pubKey secret =
     (case secret of None \<Rightarrow> None
      | Some s \<Rightarrow>
     (case toPoint s of None \<Rightarrow> None
      | Some point \<Rightarrow> if add point spendPub = Some pubKey then Some s else None))"

definition match_output :: "ScannerConfig \<Rightarrow> StealthKeys \<Rightarrow> TxData \<Rightarrow> OutputData \<Rightarrow> (hash \<times> hash) option" where
  "match_output cfg keys tx out =
     (case (sc_ScalarToPoint cfg, sc_PointAdd cfg, sc_BlindingAdd cfg) of
        (Some toPoint, Some add, Some addScalar) \<Rightarrow>
          let indexed = (case sc_deriveOutputSecretIndexed cfg of None \<Rightarrow> None
                | Some derive \<Rightarrow> derive (td_TxPubKey tx) (sk_ViewPrivKey keys) (word_of_int (od_Index out)));
              secret = (case secret_matches toPoint add (sk_SpendPubKey keys) (od_PubKey out) indexed of
                  Some s \<Rightarrow> Some s
                | None \<Rightarrow> secret_matches toPoint add (sk_SpendPubKey keys) (od_PubKey out)
                    (sc_deriveOutputSecret cfg (td_TxPubKey tx) (sk_ViewPrivKey keys)))
          in (case secret of None \<Rightarrow> None
              | Some s \<Rightarrow> map_option (Pair s) (addScalar s (sk_SpendPrivKey keys)))
      | _ \<Rightarrow>
          if sc_checkStealthOutput cfg (td_TxPubKey tx) (od_PubKey out) (sk_ViewPrivKey keys) (sk_SpendPubKey keys)
          then (case sc_deriveOutputSecret cfg (td_TxPubKey tx) (sk_ViewPrivKey keys) of None \<Rightarrow> None
              | Some s \<Rightarrow> map_option (Pair s) (sc_deriveSpendKey cfg (td_TxPubKey tx) (sk_ViewPrivKey keys) (sk_SpendPrivKey keys)))
          else None)"

text \<open>The output the wallet records, if it is the wallet's and its commitment opens to the decrypted amount; the flag
  tells that the memo of a non-coinbase output could not be decrypted.\<close>

definition own_output :: "crypto \<Rightarrow> bool \<Rightarrow> ScannerConfig \<Rightarrow> StealthKeys \<Rightarrow> u64 \<Rightarrow> TxData \<Rightarrow> OutputData \<Rightarrow> (OwnedOutput \<times> bool) option" where
  "own_output C testnet cfg keys height tx out =
     (case match_output cfg keys tx out of None \<Rightarrow> None
      | Some (secret, oneTimePriv) \<Rightarrow>
          let index = word_of_int (od_Index out);
              blinding = (if td_IsCoinbase tx then DeriveCoinbaseConsensusBlinding C (td_TxPubKey tx) height index
                          else DeriveBlinding C secret index);
              amount = DecryptAmount C (od_EncryptedAmount out) blinding index in
          if (case sc_CreateCommitment cfg of None \<Rightarrow> True
              | Some create \<Rightarrow> create amount blinding = Some (od_Commitment out))
          then let memo = (if td_IsCoinbase tx then Some [] else DecryptMemo C testnet (od_EncryptedMemo out) secret index) in
               Some (\<lparr>oo_TxID = td_TxID tx, oo_OutputIndex = od_Index out, oo_Amount = amount, oo_Blinding = blinding,
                  oo_OneTimePrivKey = oneTimePriv, oo_OneTimePubKey = od_PubKey out, oo_Commitment = od_Commitment out,
                  oo_BlockHeight = height, oo_IsCoinbase = td_IsCoinbase tx, oo_Spent = False, oo_SpentHeight = 0,
                  oo_SpentTxID = zero_hash, oo_Memo = (case memo of Some m \<Rightarrow> m | None \<Rightarrow> [])\<rparr>, memo = None)
          else None)"

section \<open>Scanning\<close>

type_synonym image_index = "hash \<Rightarrow> hash list"

record scan_state =
  ss_wallet :: Wallet
  ss_index :: image_index
  ss_found :: nat
  ss_spent :: nat

definition index_output :: "ScannerConfig \<Rightarrow> OwnedOutput \<Rightarrow> image_index \<Rightarrow> image_index" where
  "index_output cfg out m = (case sc_GenerateKeyImage cfg (oo_OneTimePrivKey out) of None \<Rightarrow> m
     | Some ki \<Rightarrow> m(ki := m ki @ [oo_OneTimePubKey out]))"

definition buildSpendableKeyImageIndex :: "ScannerConfig \<Rightarrow> Wallet \<Rightarrow> image_index" where
  "buildSpendableKeyImageIndex cfg w = fold (index_output cfg) (outputsForKeyImageScan w) (\<lambda>_. [])"

definition scan_output :: "crypto \<Rightarrow> bool \<Rightarrow> ScannerConfig \<Rightarrow> StealthKeys \<Rightarrow> u64 \<Rightarrow> TxData \<Rightarrow> OutputData \<Rightarrow> scan_state \<Rightarrow> scan_state" where
  "scan_output C testnet cfg keys height tx out s =
     (case own_output C testnet cfg keys height tx out of None \<Rightarrow> s
      | Some (owned, memoFailed) \<Rightarrow>
          let w = (if memoFailed then recordMemoDecryptFailure height (ss_wallet s) else ss_wallet s) in
          s\<lparr>ss_wallet := AddOutput owned w, ss_index := index_output cfg owned (ss_index s), ss_found := ss_found s + 1\<rparr>)"

definition mark_key :: "u64 \<Rightarrow> hash \<Rightarrow> scan_state \<Rightarrow> scan_state" where
  "mark_key height pubKey s = (case MarkSpent pubKey height (ss_wallet s) of (w, ok) \<Rightarrow>
     s\<lparr>ss_wallet := w, ss_spent := (if ok then ss_spent s + 1 else ss_spent s)\<rparr>)"

definition scan_image :: "u64 \<Rightarrow> hash \<Rightarrow> scan_state \<Rightarrow> scan_state" where
  "scan_image height ki s =
     (let s' = fold (mark_key height) (ss_index s ki) s in s'\<lparr>ss_index := (ss_index s')(ki := [])\<rparr>)"

definition scan_tx :: "crypto \<Rightarrow> bool \<Rightarrow> ScannerConfig \<Rightarrow> StealthKeys \<Rightarrow> u64 \<Rightarrow> TxData \<Rightarrow> scan_state \<Rightarrow> scan_state" where
  "scan_tx C testnet cfg keys height tx s =
     fold (scan_image height) (td_KeyImages tx) (fold (scan_output C testnet cfg keys height tx) (td_Outputs tx) s)"

definition ScanBlock :: "crypto \<Rightarrow> bool \<Rightarrow> ScannerConfig \<Rightarrow> BlockData \<Rightarrow> Wallet \<Rightarrow> Wallet \<times> nat \<times> nat" where
  "ScanBlock C testnet cfg block w =
     (let s = fold (scan_tx C testnet cfg (wd_Keys (w_data w)) (bd_Height block)) (bd_Transactions block)
                \<lparr>ss_wallet = w, ss_index = buildSpendableKeyImageIndex cfg w, ss_found = 0, ss_spent = 0\<rparr>
      in (ss_wallet s, ss_found s, ss_spent s))"

fun ScanBlocks :: "crypto \<Rightarrow> bool \<Rightarrow> ScannerConfig \<Rightarrow> BlockData list \<Rightarrow> Wallet \<Rightarrow> Wallet \<times> nat \<times> nat" where
  "ScanBlocks C testnet cfg [] w = (w, 0, 0)"
| "ScanBlocks C testnet cfg (block # blocks) w =
     (case ScanBlock C testnet cfg block w of (w1, found, spent) \<Rightarrow>
      case ScanBlocks C testnet cfg blocks (SetSyncedHeight (bd_Height block) w1) of (w2, totalFound, totalSpent) \<Rightarrow>
        (w2, found + totalFound, spent + totalSpent))"

text \<open>\<open>blockToScanData\<close>: the scan data of a block's height and transactions; \<open>None\<close> is the panic of \<open>Serialize\<close>.\<close>

definition output_scan_data :: "nat \<times> TxOutput \<Rightarrow> OutputData" where
  "output_scan_data = (\<lambda>(j, out). \<lparr>od_Index = int j, od_PubKey = PublicKey out, od_Commitment = Commitment out,
     od_EncryptedAmount = EncryptedAmount out, od_EncryptedMemo = EncryptedMemo out\<rparr>)"

definition tx_scan_data :: "crypto \<Rightarrow> Transaction \<Rightarrow> TxData option" where
  "tx_scan_data C tx = map_option (\<lambda>txID. \<lparr>td_TxID = txID, td_TxPubKey = TxPublicKey tx,
     td_IsCoinbase = IsCoinbase tx, td_Outputs = map output_scan_data (enumerate 0 (Outputs tx)),
     td_KeyImages = map KeyImage (Inputs tx)\<rparr>) (TxID C tx)"

definition blockToScanData :: "crypto \<Rightarrow> u64 \<Rightarrow> Transaction list \<Rightarrow> BlockData option" where
  "blockToScanData C height txs =
     map_option (\<lambda>tds. \<lparr>bd_Height = height, bd_Transactions = tds\<rparr>) (those (map (tx_scan_data C) txs))"

section \<open>What scanning does to the outputs\<close>

lemma wallet_outputs_simps [simp]:
  "wd_Outputs (w_data (set_outputs outs w)) = outs" "wd_Outputs (w_data (set_credits pcs w)) = outputs w"
  "wd_Outputs (w_data (unreserve p w)) = outputs w" "outputs (SetSyncedHeight h w) = outputs w"
  "outputs (recordMemoDecryptFailure h w) = outputs w"
  "wd_Keys (w_data (set_outputs outs w)) = wd_Keys (w_data w)" "wd_Keys (w_data (set_credits pcs w)) = wd_Keys (w_data w)"
  "wd_Keys (w_data (unreserve p w)) = wd_Keys (w_data w)" "wd_Keys (w_data (SetSyncedHeight h w)) = wd_Keys (w_data w)"
  "wd_Keys (w_data (recordMemoDecryptFailure h w)) = wd_Keys (w_data w)"
  by (simp_all add: set_outputs_def set_credits_def unreserve_def SetSyncedHeight_def recordMemoDecryptFailure_def)

definition add_owned :: "OwnedOutput \<Rightarrow> OwnedOutput list \<Rightarrow> OwnedOutput list" where
  "add_owned out outs = (if outpoint out \<in> outpoint ` set outs then outs else outs @ [out])"

definition mark_owned :: "hash \<Rightarrow> u64 \<Rightarrow> OwnedOutput list \<Rightarrow> OwnedOutput list" where
  "mark_owned key height outs = (case mark_spent key height outs of None \<Rightarrow> outs | Some (outs', _) \<Rightarrow> outs')"

lemma AddOutput_outputs [simp]: "outputs (AddOutput out w) = add_owned out (outputs w)"
  by (auto simp: AddOutput_def add_owned_def outpoint_def image_iff eq_commute [of _ "oo_TxID out"] eq_commute [of _ "oo_OutputIndex out"])

lemma AddOutput_keys [simp]: "wd_Keys (w_data (AddOutput out w)) = wd_Keys (w_data w)"
  by (simp add: AddOutput_def)

lemma MarkSpent_wallet [simp]:
  "outputs (fst (MarkSpent key h w)) = mark_owned key h (outputs w)"
  "wd_Keys (w_data (fst (MarkSpent key h w))) = wd_Keys (w_data w)"
  "snd (MarkSpent key h w) = (mark_spent key h (outputs w) \<noteq> None)"
  by (auto simp: MarkSpent_def apply_mark_def mark_owned_def split: option.split)

text \<open>A property of the outputs that recording and marking keep is kept by scanning a block.\<close>

definition outs :: "scan_state \<Rightarrow> OwnedOutput list" where
  "outs s = outputs (ss_wallet s)"

lemma outs_scan_output:
  "outs (scan_output C t cfg keys h tx out s)
     = (case own_output C t cfg keys h tx out of None \<Rightarrow> outs s | Some (o1, _) \<Rightarrow> add_owned o1 (outs s))"
  by (auto simp: outs_def scan_output_def Let_def split: option.split)

lemma outs_mark_key: "outs (mark_key h k s) = mark_owned k h (outs s)"
  by (simp add: outs_def mark_key_def split_def)

lemma own_output_height: "own_output C t cfg keys h tx out = Some (o1, b) \<Longrightarrow> oo_BlockHeight o1 = h \<and> \<not> oo_Spent o1
    \<and> oo_SpentHeight o1 = 0 \<and> oo_SpentTxID o1 = zero_hash"
  by (auto simp: own_output_def Let_def split: option.splits if_splits prod.splits)

lemma fold_outs:
  assumes "\<And>x s. x \<in> set xs \<Longrightarrow> P (outs s) \<Longrightarrow> P (outs (f x s))"
  shows "P (outs s) \<Longrightarrow> P (outs (fold f xs s))"
  using assms by (induction xs arbitrary: s) auto

lemma outs_index [simp]: "outs (s\<lparr>ss_index := m\<rparr>) = outs s"
  by (simp add: outs_def)

lemma scan_tx_outs:
  assumes add: "\<And>o1 os. oo_BlockHeight o1 = h \<Longrightarrow> \<not> oo_Spent o1 \<Longrightarrow> oo_SpentHeight o1 = 0 \<Longrightarrow> oo_SpentTxID o1 = zero_hash
      \<Longrightarrow> P os \<Longrightarrow> P (add_owned o1 os)"
    and mark: "\<And>k os. P os \<Longrightarrow> P (mark_owned k h os)"
  shows "P (outs s) \<Longrightarrow> P (outs (scan_tx C t cfg keys h tx s))"
proof -
  have out: "P (outs (scan_output C t cfg keys h tx out s))" if "P (outs s)" for out s
    using that add own_output_height by (fastforce simp: outs_scan_output split: option.split)
  have img: "P (outs (scan_image h ki s))" if "P (outs s)" for ki s
  proof -
    have "P (outs (fold (mark_key h) (ss_index s ki) s))"
      by (rule fold_outs [where P = P]) (simp_all add: outs_mark_key mark that)
    then show ?thesis by (simp add: scan_image_def Let_def)
  qed
  assume "P (outs s)"
  then show ?thesis unfolding scan_tx_def by (intro fold_outs [where P = P]) (auto intro: out img)
qed

lemma ScanBlock_outs:
  assumes "\<And>o1 os. oo_BlockHeight o1 = bd_Height b \<Longrightarrow> \<not> oo_Spent o1 \<Longrightarrow> oo_SpentHeight o1 = 0 \<Longrightarrow> oo_SpentTxID o1 = zero_hash
      \<Longrightarrow> P os \<Longrightarrow> P (add_owned o1 os)"
    and "\<And>k os. P os \<Longrightarrow> P (mark_owned k (bd_Height b) os)" and "P (outputs w)"
  shows "P (outputs (fst (ScanBlock C t cfg b w)))"
proof -
  let ?s = "\<lparr>ss_wallet = w, ss_index = buildSpendableKeyImageIndex cfg w, ss_found = 0, ss_spent = 0\<rparr>"
  have "P (outs (fold (scan_tx C t cfg (wd_Keys (w_data w)) (bd_Height b)) (bd_Transactions b) ?s))"
    by (rule fold_outs [where P = P], rule scan_tx_outs [where P = P]) (use assms in \<open>auto simp: outs_def\<close>)
  then show ?thesis by (simp add: ScanBlock_def Let_def outs_def)
qed

lemma ScanBlocks_outs:
  assumes "\<And>b o1 os. b \<in> set bs \<Longrightarrow> oo_BlockHeight o1 = bd_Height b \<Longrightarrow> \<not> oo_Spent o1 \<Longrightarrow> oo_SpentHeight o1 = 0
      \<Longrightarrow> oo_SpentTxID o1 = zero_hash \<Longrightarrow> P os \<Longrightarrow> P (add_owned o1 os)"
    and "\<And>b k os. b \<in> set bs \<Longrightarrow> P os \<Longrightarrow> P (mark_owned k (bd_Height b) os)"
  shows "P (outputs w) \<Longrightarrow> P (outputs (fst (ScanBlocks C t cfg bs w)))"
  using assms
proof (induction bs arbitrary: w)
  case (Cons b bs)
  have "P (outputs (fst (ScanBlock C t cfg b w)))" by (rule ScanBlock_outs) (use Cons.prems in auto)
  then have "P (outputs (fst (ScanBlocks C t cfg bs (SetSyncedHeight (bd_Height b) (fst (ScanBlock C t cfg b w))))))"
    by (intro Cons.IH) (use Cons.prems in auto)
  then show ?case by (simp add: split_def)
qed simp

section \<open>A rewind undoes a scan\<close>

text \<open>The outputs of a wallet with no unconfirmed spend, scanned up to height \<open>h\<close>.\<close>

definition settled_output :: "u64 \<Rightarrow> OwnedOutput \<Rightarrow> bool" where
  "settled_output h out \<longleftrightarrow> oo_BlockHeight out \<le> h \<and> oo_SpentTxID out = zero_hash
     \<and> (if oo_Spent out then oo_SpentHeight out \<le> h else oo_SpentHeight out = 0)"

definition spent_above :: "u64 \<Rightarrow> OwnedOutput \<Rightarrow> OwnedOutput \<Rightarrow> bool" where
  "spent_above h out out' \<longleftrightarrow> out' = out
     \<or> \<not> oo_Spent out \<and> (\<exists>ht > h. out' = out\<lparr>oo_Spent := True, oo_SpentHeight := ht\<rparr>)"

definition scanned_above :: "u64 \<Rightarrow> OwnedOutput list \<Rightarrow> OwnedOutput list \<Rightarrow> bool" where
  "scanned_above h os os' \<longleftrightarrow> (\<exists>old new. os' = old @ new \<and> list_all2 (spent_above h) os old \<and> (\<forall>out \<in> set new. h < oo_BlockHeight out))"

lemma mark_spent_settled: "mark_spent k ht os = Some (os', p) \<Longrightarrow> list_all (settled_output h) os \<Longrightarrow> ht \<le> h
    \<Longrightarrow> list_all (settled_output h) os'"
  by (induction os arbitrary: os' p) (fastforce simp: settled_output_def split: if_splits)+

lemma mark_owned_settled: "list_all (settled_output h) os \<Longrightarrow> ht \<le> h \<Longrightarrow> list_all (settled_output h) (mark_owned k ht os)"
  by (auto simp: mark_owned_def split: option.split dest: mark_spent_settled)

lemma scan_settled:
  assumes "list_all (settled_output h) (outputs w)" "\<And>b. b \<in> set bs \<Longrightarrow> bd_Height b \<le> h"
  shows "list_all (settled_output h) (outputs (fst (ScanBlocks C t cfg bs w)))"
  by (rule ScanBlocks_outs [where P = "list_all (settled_output h)"])
    (use assms in \<open>auto simp: add_owned_def settled_output_def intro: mark_owned_settled\<close>)

lemma mark_spent_split:
  "mark_spent k ht (xs @ ys) = (case mark_spent k ht xs of
      Some (xs', p) \<Rightarrow> Some (xs' @ ys, p)
    | None \<Rightarrow> if k \<in> oo_OneTimePubKey ` set xs then None else map_option (apfst ((@) xs)) (mark_spent k ht ys))"
  by (induction xs; cases "mark_spent k ht ys") (auto simp: apfst_def split: option.split)

lemma mark_spent_heights: "mark_spent k ht os = Some (os', p) \<Longrightarrow> map oo_BlockHeight os' = map oo_BlockHeight os"
  by (induction os arbitrary: os' p) (auto split: if_splits)

lemma mark_spent_above:
  "mark_spent k ht old = Some (old', p) \<Longrightarrow> list_all2 (spent_above h) os old \<Longrightarrow> list_all (settled_output h) os \<Longrightarrow> h < ht
   \<Longrightarrow> list_all2 (spent_above h) os old'"
proof (induction old arbitrary: os old' p)
  case (Cons x xs)
  then obtain y ys where os: "os = y # ys" by (cases os) auto
  have y: "spent_above h y x" "settled_output h y" using Cons.prems os by auto
  show ?case
  proof (cases "oo_OneTimePubKey x = k")
    case True
    have "\<not> oo_Spent x \<and> y = x" using Cons.prems(1) True y by (auto simp: spent_above_def settled_output_def split: if_splits)
    then show ?thesis using Cons.prems True os by (auto simp: spent_above_def)
  next
    case False
    then obtain xs' where "mark_spent k ht xs = Some (xs', p)" "old' = x # xs'" using Cons.prems(1) by auto
    then show ?thesis using Cons.IH [of xs' p ys] Cons.prems os by auto
  qed
qed simp

lemma set_heights: "map oo_BlockHeight os' = map oo_BlockHeight os \<Longrightarrow> (\<forall>out \<in> set os. h < oo_BlockHeight out)
    \<Longrightarrow> (\<forall>out \<in> set os'. h < oo_BlockHeight out)"
  by (metis (mono_tags, lifting) image_iff list.set_map)

lemma scanned_aboveI: "list_all2 (spent_above h) os old \<Longrightarrow> \<forall>out \<in> set new. h < oo_BlockHeight out \<Longrightarrow> scanned_above h os (old @ new)"
  by (auto simp: scanned_above_def)

lemma mark_owned_above:
  assumes "scanned_above h os os'" "list_all (settled_output h) os" "h < ht"
  shows "scanned_above h os (mark_owned k ht os')"
proof -
  obtain old new where o: "os' = old @ new" "list_all2 (spent_above h) os old" "\<forall>out \<in> set new. h < oo_BlockHeight out"
    using assms(1) by (auto simp: scanned_above_def)
  show ?thesis
  proof (cases "mark_spent k ht old")
    case (Some r)
    obtain old' p where m: "mark_spent k ht old = Some (old', p)" using Some by (cases r) auto
    show ?thesis using scanned_aboveI [OF mark_spent_above [OF m o(2) assms(2,3)] o(3)] m o(1) by (simp add: mark_owned_def mark_spent_split)
  next
    case None
    show ?thesis
    proof (cases "mark_spent k ht new")
      case (Some r)
      obtain new' p where n: "mark_spent k ht new = Some (new', p)" using Some by (cases r) auto
      have "\<forall>out \<in> set new'. h < oo_BlockHeight out" using set_heights [OF mark_spent_heights [OF n] o(3)] .
      from scanned_aboveI [OF o(2) this] show ?thesis
        using None n o(1) assms(1) by (simp add: mark_owned_def mark_spent_split)
    qed (use None o(1) assms(1) in \<open>simp add: mark_owned_def mark_spent_split\<close>)
  qed
qed

lemma add_owned_above: "scanned_above h os os' \<Longrightarrow> h < oo_BlockHeight out \<Longrightarrow> scanned_above h os (add_owned out os')"
  by (fastforce simp: scanned_above_def add_owned_def)

lemma scanned_above_refl: "scanned_above h os os"
  using scanned_aboveI [of h os os "[]"] by (simp add: list_all2_refl spent_above_def)

lemma scan_above:
  assumes "list_all (settled_output h) (outputs w)" "\<And>b. b \<in> set bs \<Longrightarrow> h < bd_Height b"
  shows "scanned_above h (outputs w) (outputs (fst (ScanBlocks C t cfg bs w)))"
  by (rule ScanBlocks_outs [where P = "scanned_above h (outputs w)"])
    (use assms in \<open>auto intro: mark_owned_above add_owned_above scanned_above_refl\<close>)

lemma rewind_spent_above: "spent_above h out out' \<Longrightarrow> settled_output h out
    \<Longrightarrow> oo_BlockHeight out' \<le> h \<and> rewind_output h out' = out"
  by (auto simp: spent_above_def settled_output_def rewind_output_def split: if_splits)

lemma rewind_above:
  assumes "list_all2 (spent_above h) os old" "list_all (settled_output h) os"
  shows "map (rewind_output h) (filter (\<lambda>out. oo_BlockHeight out \<le> h) old) = os"
  using assms by (induction rule: list_all2_induct) (auto dest: rewind_spent_above)

lemma rewind_scanned:
  "scanned_above h os os' \<Longrightarrow> list_all (settled_output h) os
   \<Longrightarrow> map (rewind_output h) (filter (\<lambda>out. oo_BlockHeight out \<le> h) os') = os"
  by (auto simp: scanned_above_def rewind_above filter_empty_conv not_le)

section \<open>Scanning depends on the outputs and the keys only\<close>

definition same_funds :: "Wallet \<Rightarrow> Wallet \<Rightarrow> bool" where
  "same_funds w w' \<longleftrightarrow> outputs w = outputs w' \<and> wd_Keys (w_data w) = wd_Keys (w_data w')"

definition same_scan :: "scan_state \<Rightarrow> scan_state \<Rightarrow> bool" where
  "same_scan s s' \<longleftrightarrow> same_funds (ss_wallet s) (ss_wallet s') \<and> ss_index s = ss_index s'"

lemma fold_same: "(\<And>x s s'. same_scan s s' \<Longrightarrow> same_scan (f x s) (f x s')) \<Longrightarrow> same_scan s s' \<Longrightarrow> same_scan (fold f xs s) (fold f xs s')"
  by (induction xs arbitrary: s s') auto

lemma scan_output_same: "same_scan s s' \<Longrightarrow> same_scan (scan_output C t cfg keys h tx out s) (scan_output C t cfg keys h tx out s')"
  by (auto simp: same_scan_def same_funds_def scan_output_def Let_def split: option.split)

lemma mark_key_same: "same_scan s s' \<Longrightarrow> same_scan (mark_key h k s) (mark_key h k s')"
  by (auto simp: same_scan_def same_funds_def mark_key_def split_def)

lemma scan_image_same: "same_scan s s' \<Longrightarrow> same_scan (scan_image h ki s) (scan_image h ki s')"
  using fold_same [of "mark_key h" s s' "ss_index s ki"] mark_key_same
  by (auto simp: scan_image_def Let_def same_scan_def)

lemma scan_tx_same: "same_scan s s' \<Longrightarrow> same_scan (scan_tx C t cfg keys h tx s) (scan_tx C t cfg keys h tx s')"
  unfolding scan_tx_def by (intro fold_same scan_image_same scan_output_same)

lemma ScanBlock_same: "same_funds w w' \<Longrightarrow> same_funds (fst (ScanBlock C t cfg b w)) (fst (ScanBlock C t cfg b w'))"
proof -
  assume w: "same_funds w w'"
  let ?s = "\<lambda>w. \<lparr>ss_wallet = w, ss_index = buildSpendableKeyImageIndex cfg w, ss_found = 0, ss_spent = 0\<rparr>"
  let ?f = "fold (scan_tx C t cfg (wd_Keys (w_data w)) (bd_Height b)) (bd_Transactions b)"
  have "same_scan (?s w) (?s w')"
    using w by (simp add: same_scan_def same_funds_def buildSpendableKeyImageIndex_def outputsForKeyImageScan_def)
  then have "same_scan (?f (?s w)) (?f (?s w'))" by (intro fold_same scan_tx_same)
  then show ?thesis using w by (simp add: ScanBlock_def Let_def same_scan_def same_funds_def)
qed

lemma ScanBlocks_same: "same_funds w w' \<Longrightarrow> same_funds (fst (ScanBlocks C t cfg bs w)) (fst (ScanBlocks C t cfg bs w'))"
proof (induction bs arbitrary: w w')
  case (Cons b bs)
  have "same_funds (SetSyncedHeight (bd_Height b) (fst (ScanBlock C t cfg b w))) (SetSyncedHeight (bd_Height b) (fst (ScanBlock C t cfg b w')))"
    using ScanBlock_same [OF Cons.prems] by (simp add: same_funds_def)
  from Cons.IH [OF this] show ?case by (simp add: split_def)
qed simp

lemma ScanBlocks_append: "fst (ScanBlocks C t cfg (bs @ bs') w) = fst (ScanBlocks C t cfg bs' (fst (ScanBlocks C t cfg bs w)))"
  by (induction bs arbitrary: w) (simp_all add: split_def)

lemma fold_keys:
  assumes "\<And>x s. wd_Keys (w_data (ss_wallet (f x s))) = wd_Keys (w_data (ss_wallet s))"
  shows "wd_Keys (w_data (ss_wallet (fold f xs s))) = wd_Keys (w_data (ss_wallet s))"
  by (induction xs arbitrary: s) (simp_all add: assms)

lemma scan_tx_keys: "wd_Keys (w_data (ss_wallet (scan_tx C t cfg keys h tx s))) = wd_Keys (w_data (ss_wallet s))"
proof -
  have out: "wd_Keys (w_data (ss_wallet (scan_output C t cfg keys h tx out s))) = wd_Keys (w_data (ss_wallet s))" for out s
    by (auto simp: scan_output_def Let_def split: option.split)
  have img: "wd_Keys (w_data (ss_wallet (scan_image h ki s))) = wd_Keys (w_data (ss_wallet s))" for ki s
    using fold_keys [of "mark_key h" "ss_index s ki" s] by (simp add: scan_image_def Let_def mark_key_def split_def)
  show ?thesis unfolding scan_tx_def by (simp add: fold_keys img out)
qed

lemma ScanBlocks_keys: "wd_Keys (w_data (fst (ScanBlocks C t cfg bs w))) = wd_Keys (w_data w)"
  by (induction bs arbitrary: w) (simp_all add: split_def ScanBlock_def Let_def fold_keys scan_tx_keys)

lemma rewind_funds: "outputs (fst (RewindToHeight h w)) = map (rewind_output h) (filter (\<lambda>out. oo_BlockHeight out \<le> h) (outputs w))"
  "wd_Keys (w_data (fst (RewindToHeight h w))) = wd_Keys (w_data w)"
  by (simp_all add: RewindToHeight_def Let_def set_outputs_def)

text \<open>C28. A wallet follows a reorganisation.  A wallet without unconfirmed spends that has scanned the common blocks up to
  height \<open>h\<close> and then the blocks of a branch, that is rewound to \<open>h\<close> and scans the blocks of another branch, has
  the outputs, with their amounts, keys and spent marks, of a wallet that scanned the common blocks and the other branch only.\<close>

theorem rewind_follows_reorg:
  assumes "list_all (settled_output h) (outputs w)"
    and "\<forall>b \<in> set common. bd_Height b \<le> h" "\<forall>b \<in> set branch. h < bd_Height b"
  shows "outputs (fst (ScanBlocks C t cfg branch'
      (fst (RewindToHeight h (fst (ScanBlocks C t cfg (common @ branch) w))))))
    = outputs (fst (ScanBlocks C t cfg (common @ branch') w))"
proof -
  let ?w = "fst (ScanBlocks C t cfg common w)"
  have s: "list_all (settled_output h) (outputs ?w)" using scan_settled assms by blast
  have "same_funds (fst (RewindToHeight h (fst (ScanBlocks C t cfg branch ?w)))) ?w"
    using rewind_scanned [OF scan_above [OF s] s] assms(3) by (simp add: same_funds_def rewind_funds ScanBlocks_keys)
  from ScanBlocks_same [OF this, of C t cfg branch'] show ?thesis by (simp add: ScanBlocks_append same_funds_def)
qed

definition sample_scanner :: ScannerConfig where
  "sample_scanner = \<lparr>sc_checkStealthOutput = (\<lambda>_ _ _ _. False), sc_deriveSpendKey = (\<lambda>_ _ _. None),
     sc_deriveOutputSecret = (\<lambda>txPub _. Some txPub), sc_deriveOutputSecretIndexed = None, sc_GenerateKeyImage = Some,
     sc_CreateCommitment = None, sc_ScalarToPoint = Some Some, sc_PointAdd = Some (\<lambda>p _. Some p),
     sc_BlindingAdd = Some (\<lambda>a _. Some a)\<rparr>"

definition sample_block :: "u64 \<Rightarrow> hash list \<Rightarrow> hash list \<Rightarrow> BlockData" where
  "sample_block h pays spends = \<lparr>bd_Height = h, bd_Transactions = map (\<lambda>k. \<lparr>td_TxID = k, td_TxPubKey = k, td_IsCoinbase = True,
     td_Outputs = [\<lparr>od_Index = 0, od_PubKey = k, od_Commitment = [], od_EncryptedAmount = replicate 8 0, od_EncryptedMemo = []\<rparr>],
     td_KeyImages = spends\<rparr>) pays\<rparr>"

definition empty_wallet :: Wallet where
  "empty_wallet = init_wallet \<lparr>wd_Version = 1, wd_ViewOnly = False, wd_Mnemonic = [],
     wd_Keys = \<lparr>sk_SpendPrivKey = zero_hash, sk_SpendPubKey = zero_hash, sk_ViewPrivKey = zero_hash, sk_ViewPubKey = zero_hash\<rparr>,
     wd_Outputs = [], wd_SendHistory = [], wd_PendingCredits = [], wd_SyncedHeight = 0, wd_CreatedAt = 0\<rparr> []"

lemmas scan_eval = ScanBlock_def scan_tx_def scan_output_def own_output_def match_output_def secret_matches_def sample_scanner_def
  sample_block_def empty_wallet_def init_wallet_def Let_def buildSpendableKeyImageIndex_def outputsForKeyImageScan_def
  index_output_def scan_image_def mark_key_def mark_owned_def add_owned_def outpoint_def split_def

text \<open>The branch spends the output of the common block and pays another one; the other branch does neither.\<close>

theorem rewind_follows_reorg_witness:
  "map (\<lambda>out. (oo_OneTimePubKey out, oo_Spent out)) (outputs (fst (ScanBlocks sample_crypto False sample_scanner
       [sample_block 1 [[1]] [], sample_block 2 [[2]] [[1]]] empty_wallet))) = [([1], True), ([2], False)]
   \<and> map (\<lambda>out. (oo_OneTimePubKey out, oo_Spent out)) (outputs (fst (ScanBlocks sample_crypto False sample_scanner [sample_block 2 [[3]] []]
       (fst (RewindToHeight 1 (fst (ScanBlocks sample_crypto False sample_scanner
          ([sample_block 1 [[1]] []] @ [sample_block 2 [[2]] [[1]]]) empty_wallet))))))) = [([1], False), ([3], False)]"
proof -
  have 1: "map (\<lambda>out. (oo_OneTimePubKey out, oo_Spent out)) (outputs (fst (ScanBlocks sample_crypto False sample_scanner
       [sample_block 1 [[1]] [], sample_block 2 [[2]] [[1]]] empty_wallet))) = [([1], True), ([2], False)]" 
    by (simp add: scan_eval)
  have 2: "map (\<lambda>out. (oo_OneTimePubKey out, oo_Spent out)) (outputs (fst (ScanBlocks sample_crypto False sample_scanner
       ([sample_block 1 [[1]] []] @ [sample_block 2 [[3]] []]) empty_wallet))) = [([1], False), ([3], False)]" 
    by (simp add: scan_eval)
  have "outputs (fst (ScanBlocks sample_crypto False sample_scanner [sample_block 2 [[3]] []]
       (fst (RewindToHeight 1 (fst (ScanBlocks sample_crypto False sample_scanner
          ([sample_block 1 [[1]] []] @ [sample_block 2 [[2]] [[1]]]) empty_wallet))))))
    = outputs (fst (ScanBlocks sample_crypto False sample_scanner ([sample_block 1 [[1]] []] @ [sample_block 2 [[3]] []]) empty_wallet))"
    by (rule rewind_follows_reorg) (simp_all add: sample_block_def empty_wallet_def init_wallet_def)
  with 1 2 show ?thesis by (simp only: simp_thms)
qed

end
