(* ===== verification/Builder.thy ===== *)
theory Builder
  imports Scanner
begin

text \<open>
  The transaction builder of the wallet (\<open>src/wallet/builder.go\<close>).

  The callbacks of \<open>TransferConfig\<close> are arguments: a callback that may be nil is an option and an error is \<open>None\<close>.
  Callbacks that use randomness (ring selection, range proofs, signatures, blindings, memo padding) also take the
  number of the input or output they are called for.  A panic, as of a nil callback that the code calls without a check, is
  the error \<open>Panicked\<close>.
\<close>

record Recipient =
  rc_SpendPubKey :: hash
  rc_ViewPubKey :: hash
  rc_Amount :: u64
  rc_Memo :: bytes

record TransferConfig =
  tc_SelectRingMembers :: "nat \<Rightarrow> hash \<Rightarrow> hash \<Rightarrow> (hash list \<times> hash list \<times> nat) option"
  tc_CreateCommitment :: "u64 \<Rightarrow> hash \<Rightarrow> hash"
  tc_CreateRangeProof :: "nat \<Rightarrow> u64 \<Rightarrow> hash \<Rightarrow> bytes option"
  tc_SignRingCT :: "nat \<Rightarrow> hash list \<Rightarrow> hash list \<Rightarrow> nat \<Rightarrow> hash \<Rightarrow> hash \<Rightarrow> hash \<Rightarrow> hash \<Rightarrow> bytes \<Rightarrow> (bytes \<times> hash) option"
  tc_GenerateBlinding :: "nat \<Rightarrow> hash"
  tc_ComputeTxID :: "bytes \<Rightarrow> hash option"
  tc_BlindingAdd :: "hash \<Rightarrow> hash \<Rightarrow> hash option"
  tc_BlindingSub :: "hash \<Rightarrow> hash \<Rightarrow> hash option"
  tc_DeriveStealthAddress :: "hash \<Rightarrow> hash \<Rightarrow> (hash \<times> hash \<times> hash) option"
  tc_DeriveDeterministicTxKey :: "(hash \<Rightarrow> hash list \<Rightarrow> hash option) option"
  tc_GenerateKeyImage :: "(hash \<Rightarrow> hash option) option"
  tc_DeriveSharedSecret :: "hash \<Rightarrow> hash \<Rightarrow> hash option"
  tc_DeriveSharedSecretIndexed :: "(hash \<Rightarrow> hash \<Rightarrow> u32 \<Rightarrow> hash option) option"
  tc_ScalarToPoint :: "(hash \<Rightarrow> hash option) option"
  tc_PointAdd :: "hash \<Rightarrow> hash \<Rightarrow> hash option"
  tc_RingSize :: nat
  tc_MinFee :: u64

record TransferResult =
  tr_TxData :: bytes
  tr_TxID :: hash
  tr_TxPrivKey :: hash
  tr_SpentOutputs :: "OwnedOutput list"
  tr_InputLease :: u64
  tr_Fee :: u64
  tr_Change :: u64

datatype build_error = NoRecipients | NoInputs | SendOverflow | FeeOverflow | InputOverflow
  | ShortAfterSelection u64 u64 | ShortAfterFee u64 u64 | ReserveFailed wallet_error | TooManyToSweep nat | BalanceTooSmall u64 u64
  | TxKeyFailed | SecretFailed nat | PointFailed nat | OneTimeKeyFailed nat | RangeProofFailed nat | MemoFailed nat memo_error
  | BlindingSumFailed nat | BlindingDistFailed | RingFailed nat | SignFailed nat | TxIDFailed | Panicked

text \<open>An output under construction also carries its blinding and amount; an input under construction has the fields of
  \<open>TxInput\<close>.\<close>

record outputData = TxOutput +
  bo_blinding :: hash
  bo_amount :: u64

section \<open>Sizes and sums\<close>

definition AddU64 :: "u64 \<Rightarrow> u64 \<Rightarrow> u64 \<times> bool" where
  "AddU64 a b = (a + b, unat a + unat b < 2 ^ 64)"

fun sum_checked :: "u64 \<Rightarrow> u64 list \<Rightarrow> u64 option" where
  "sum_checked acc [] = Some acc"
| "sum_checked acc (x # xs) = (case AddU64 acc x of (s, ok) \<Rightarrow> if ok then sum_checked s xs else None)"

definition estimateTxSizeBytes :: "nat \<Rightarrow> nat \<Rightarrow> nat \<Rightarrow> nat" where
  "estimateTxSizeBytes inputCount outputCount ringSize =
     (let base = 1 + 32 + 4 + 4 + 8;
          withOutputs = base + outputCount * (32 + 32 + 8 + MemoSize + 4 + 1024);
          ringSigBytes = 96 + 64 * ringSize
      in withOutputs + inputCount * (32 + 32 + 4 + ringSize * 32 + ringSize * 32 + 4 + ringSigBytes))"

definition required_fee :: "TransferConfig \<Rightarrow> u64 \<Rightarrow> nat \<Rightarrow> u64" where
  "required_fee cfg feeRate estimated = max (tc_MinFee cfg) (word_of_nat estimated * feeRate)"

fun sum_blindings_from :: "TransferConfig \<Rightarrow> nat \<Rightarrow> hash \<Rightarrow> hash list \<Rightarrow> build_error + hash" where
  "sum_blindings_from cfg i acc [] = Inr acc"
| "sum_blindings_from cfg i acc (b # bs) =
     (case tc_BlindingAdd cfg acc b of None \<Rightarrow> Inl (BlindingSumFailed i) | Some s \<Rightarrow> sum_blindings_from cfg (Suc i) s bs)"

definition sumBlindings :: "TransferConfig \<Rightarrow> hash list \<Rightarrow> build_error + hash" where
  "sumBlindings cfg bs = (case bs of [] \<Rightarrow> Inr zero_hash | b # bs \<Rightarrow> sum_blindings_from cfg 1 b bs)"

fun random_blindings :: "TransferConfig \<Rightarrow> nat \<Rightarrow> hash \<Rightarrow> nat \<Rightarrow> (hash list \<times> hash) option" where
  "random_blindings cfg i acc 0 = Some ([], acc)"
| "random_blindings cfg i acc (Suc n) =
     (let r = tc_GenerateBlinding cfg i in
      case tc_BlindingAdd cfg acc r of None \<Rightarrow> None
      | Some s \<Rightarrow> map_option (apfst ((#) r)) (random_blindings cfg (Suc i) s n))"

definition distributeBlindings :: "TransferConfig \<Rightarrow> hash \<Rightarrow> nat \<Rightarrow> build_error + hash list" where
  "distributeBlindings cfg target n =
     (if n = 0 then Inr []
      else if n = 1 then Inr [target]
      else case random_blindings cfg 0 zero_hash (n - 1) of None \<Rightarrow> Inl BlindingDistFailed
      | Some (rs, s) \<Rightarrow>
     (case tc_BlindingSub cfg target s of None \<Rightarrow> Inl BlindingDistFailed | Some l \<Rightarrow> Inr (rs @ [l])))"

section \<open>Serialisation\<close>

definition serializeTxPrefix :: "hash \<Rightarrow> nat \<Rightarrow> TxOutput list \<Rightarrow> u64 \<Rightarrow> bytes option" where
  "serializeTxPrefix txPubKey inputCount os fee =
     fill_buf (1 + 32 + 4 + 4 + 8 + sum_list (map output_size os))
       ([PutChunk [1], CopyChunk txPubKey, PutChunk (PutUint32 (word_of_nat inputCount)),
         PutChunk (PutUint32 (word_of_nat (length os))), PutChunk (PutUint64 fee)]
        @ concat (map output_chunks os))"

definition built_input_size :: "TxInput \<Rightarrow> nat" where
  "built_input_size inp = 32 + 32 + 4 + length (RingMembers inp) * 32 + length (RingCommitments inp) * 32 + 4
     + length (RingSignature inp)"

definition serializeTx :: "hash \<Rightarrow> TxInput list \<Rightarrow> TxOutput list \<Rightarrow> u64 \<Rightarrow> bytes option" where
  "serializeTx txPubKey inputs os fee =
     (case serializeTxPrefix txPubKey (length inputs) os fee of None \<Rightarrow> None
      | Some prefix \<Rightarrow> fill_buf (length prefix + sum_list (map built_input_size inputs))
          (CopyChunk prefix # concat (map input_chunks inputs)))"

section \<open>Building\<close>

fun key_images :: "(hash \<Rightarrow> hash option) \<Rightarrow> OwnedOutput list \<Rightarrow> hash list option" where
  "key_images gen [] = Some []"
| "key_images gen (inp # inps) =
     (case gen (oo_OneTimePrivKey inp) of None \<Rightarrow> None | Some ki \<Rightarrow> map_option ((#) ki) (key_images gen inps))"

definition deriveDeterministicR :: "TransferConfig \<Rightarrow> StealthKeys \<Rightarrow> OwnedOutput list \<Rightarrow> (hash \<times> hash) option" where
  "deriveDeterministicR cfg keys inputs =
     (case (tc_DeriveDeterministicTxKey cfg, tc_GenerateKeyImage cfg, tc_ScalarToPoint cfg) of
        (Some deriveKey, Some gen, Some toPoint) \<Rightarrow>
          (case key_images gen inputs of None \<Rightarrow> None
           | Some kis \<Rightarrow>
          (case deriveKey (sk_ViewPrivKey keys) kis of None \<Rightarrow> None
           | Some txPriv \<Rightarrow> map_option (Pair txPriv) (toPoint txPriv)))
      | _ \<Rightarrow> map_option (\<lambda>(rPriv, rPub, _). (rPriv, rPub)) (tc_DeriveStealthAddress cfg (sk_SpendPubKey keys) (sk_ViewPubKey keys)))"

definition derive_secret :: "TransferConfig \<Rightarrow> bool \<Rightarrow> hash \<Rightarrow> hash \<Rightarrow> nat \<Rightarrow> hash option" where
  "derive_secret cfg useIndexed txPriv viewPub outputIndex =
     (case tc_DeriveSharedSecretIndexed cfg of
        Some derive \<Rightarrow> if useIndexed then derive txPriv viewPub (word_of_nat outputIndex) else tc_DeriveSharedSecret cfg txPriv viewPub
      | None \<Rightarrow> tc_DeriveSharedSecret cfg txPriv viewPub)"

type_synonym memo_rand = "nat \<Rightarrow> nat \<Rightarrow> bytes option"

definition make_output :: "crypto \<Rightarrow> bool \<Rightarrow> TransferConfig \<Rightarrow> memo_rand \<Rightarrow> bool \<Rightarrow> hash \<Rightarrow> nat \<Rightarrow> Recipient \<Rightarrow> build_error + outputData" where
  "make_output C testnet cfg pad useIndexed txPriv i r =
     (case derive_secret cfg useIndexed txPriv (rc_ViewPubKey r) i of None \<Rightarrow> Inl (SecretFailed i)
      | Some secret \<Rightarrow>
     (case tc_ScalarToPoint cfg of None \<Rightarrow> Inl Panicked
      | Some toPoint \<Rightarrow>
     (case toPoint secret of None \<Rightarrow> Inl (PointFailed i)
      | Some point \<Rightarrow>
     (case tc_PointAdd cfg point (rc_SpendPubKey r) of None \<Rightarrow> Inl (OneTimeKeyFailed i)
      | Some oneTimePub \<Rightarrow>
          let blinding = DeriveBlinding C secret (word_of_nat i) in
     (case tc_CreateRangeProof cfg i (rc_Amount r) blinding of None \<Rightarrow> Inl (RangeProofFailed i)
      | Some rangeProof \<Rightarrow>
     (case EncryptMemo C testnet (pad i) (rc_Memo r) secret (word_of_nat i) of Inl e \<Rightarrow> Inl (MemoFailed i e)
      | Inr encryptedMemo \<Rightarrow>
          Inr \<lparr>Commitment = tc_CreateCommitment cfg (rc_Amount r) blinding, PublicKey = oneTimePub, RangeProof = rangeProof,
             EncryptedAmount = encryptAmount C (rc_Amount r) blinding (word_of_nat i), EncryptedMemo = encryptedMemo,
             bo_blinding = blinding, bo_amount = rc_Amount r\<rparr>))))))"

fun make_outputs :: "crypto \<Rightarrow> bool \<Rightarrow> TransferConfig \<Rightarrow> memo_rand \<Rightarrow> bool \<Rightarrow> hash \<Rightarrow> nat \<Rightarrow> Recipient list \<Rightarrow> build_error + outputData list" where
  "make_outputs C testnet cfg pad useIndexed txPriv i [] = Inr []"
| "make_outputs C testnet cfg pad useIndexed txPriv i (r # rs) =
     (case make_output C testnet cfg pad useIndexed txPriv i r of Inl e \<Rightarrow> Inl e
      | Inr out \<Rightarrow> map_sum id ((#) out) (make_outputs C testnet cfg pad useIndexed txPriv (Suc i) rs))"

text \<open>The change, split over \<open>n\<close> outputs to the wallet itself; the first takes the remainder.\<close>

definition change_recipients :: "StealthKeys \<Rightarrow> nat \<Rightarrow> u64 \<Rightarrow> Recipient list" where
  "change_recipients keys changeSplit change =
     (if change = 0 then []
      else let n = (if change < word_of_nat changeSplit then unat change else changeSplit);
               perOutput = change div word_of_nat n;
               remainder = change mod word_of_nat n in
      map (\<lambda>c. \<lparr>rc_SpendPubKey = sk_SpendPubKey keys, rc_ViewPubKey = sk_ViewPubKey keys,
              rc_Amount = (if c = 0 then perOutput + remainder else perOutput), rc_Memo = []\<rparr>) [0..<n])"

fun sign_inputs :: "TransferConfig \<Rightarrow> hash \<Rightarrow> nat \<Rightarrow> (OwnedOutput \<times> hash) list \<Rightarrow> build_error + TxInput list" where
  "sign_inputs cfg prefixHash i [] = Inr []"
| "sign_inputs cfg prefixHash i ((inp, pseudoBlinding) # rest) =
     (case tc_SelectRingMembers cfg i (oo_OneTimePubKey inp) (oo_Commitment inp) of None \<Rightarrow> Inl (RingFailed i)
      | Some (ringKeys, ringCommitments, secretIndex) \<Rightarrow>
          let pseudo = tc_CreateCommitment cfg (oo_Amount inp) pseudoBlinding in
     (case tc_SignRingCT cfg i ringKeys ringCommitments secretIndex (oo_OneTimePrivKey inp) (oo_Blinding inp) pseudo pseudoBlinding prefixHash
        of None \<Rightarrow> Inl (SignFailed i)
      | Some (sig, keyImage) \<Rightarrow>
          map_sum id ((#) \<lparr>KeyImage = keyImage, RingMembers = ringKeys, RingCommitments = ringCommitments,
             PseudoOutput = pseudo, RingSignature = sig\<rparr>) (sign_inputs cfg prefixHash (Suc i) rest)))"

definition IndexedDerivationHeight :: "bool \<Rightarrow> u64" where
  "IndexedDerivationHeight testnet = (if testnet then 375 else 6500)"

text \<open>From the outputs on: blindings, prefix, signatures, serialisation and the transaction id.\<close>

definition finish_tx :: "crypto \<Rightarrow> TransferConfig \<Rightarrow> OwnedOutput list \<Rightarrow> outputData list \<Rightarrow> hash \<Rightarrow> u64 \<Rightarrow> build_error + (bytes \<times> hash)" where
  "finish_tx C cfg inputs os txPub fee =
     (case sumBlindings cfg (map bo_blinding os) of Inl e \<Rightarrow> Inl e
      | Inr totalOutputBlinding \<Rightarrow>
     (case distributeBlindings cfg totalOutputBlinding (length inputs) of Inl e \<Rightarrow> Inl e
      | Inr pseudoBlindings \<Rightarrow>
     (case serializeTxPrefix txPub (length inputs) (map TxOutput.truncate os) fee of None \<Rightarrow> Inl Panicked
      | Some prefix \<Rightarrow>
     (case sign_inputs cfg (sha3_Sum256 C prefix) 0 (zip inputs pseudoBlindings) of Inl e \<Rightarrow> Inl e
      | Inr inputsData \<Rightarrow>
     (case serializeTx txPub inputsData (map TxOutput.truncate os) fee of None \<Rightarrow> Inl Panicked
      | Some txData \<Rightarrow>
     (case tc_ComputeTxID cfg txData of None \<Rightarrow> Inl TxIDFailed | Some txID \<Rightarrow> Inr (txData, txID)))))))"

definition buildTransaction :: "crypto \<Rightarrow> bool \<Rightarrow> TransferConfig \<Rightarrow> memo_rand \<Rightarrow> StealthKeys \<Rightarrow> OwnedOutput list \<Rightarrow> Recipient list
    \<Rightarrow> u64 \<Rightarrow> u64 \<Rightarrow> u64 \<Rightarrow> int \<Rightarrow> u64 \<Rightarrow> build_error + TransferResult" where
  "buildTransaction C testnet cfg pad keys inputs recipients totalSend fee lease changeSplit currentHeight =
     (case sum_checked 0 (map oo_Amount inputs) of None \<Rightarrow> Inl InputOverflow
      | Some totalInput \<Rightarrow>
     (case AddU64 totalSend fee of (need, ok) \<Rightarrow>
      if \<not> ok then Inl FeeOverflow
      else if totalInput < need then Inl (ShortAfterFee totalInput need)
      else let change = totalInput - totalSend - fee;
               changeSplit = (if changeSplit < 1 then 1 else changeSplit);
               useIndexed = (IndexedDerivationHeight testnet \<le> currentHeight \<and> tc_DeriveSharedSecretIndexed cfg \<noteq> None) in
     (case deriveDeterministicR cfg keys inputs of None \<Rightarrow> Inl TxKeyFailed
      | Some (txPriv, txPub) \<Rightarrow>
     (case make_outputs C testnet cfg pad useIndexed txPriv 0 recipients of Inl e \<Rightarrow> Inl e
      | Inr paid \<Rightarrow>
     (case make_outputs C testnet cfg pad useIndexed txPriv (length paid) (change_recipients keys (nat changeSplit) change)
        of Inl e \<Rightarrow> Inl e
      | Inr changed \<Rightarrow>
     (case finish_tx C cfg inputs (paid @ changed) txPub fee of Inl e \<Rightarrow> Inl e
      | Inr (txData, txID) \<Rightarrow>
          Inr \<lparr>tr_TxData = txData, tr_TxID = txID, tr_TxPrivKey = txPriv, tr_SpentOutputs = inputs, tr_InputLease = lease,
             tr_Fee = fee, tr_Change = change\<rparr>))))))"

section \<open>Transfers\<close>

text \<open>What a call reads besides the wallet: the clock and the randomness of each reservation, and the sort.\<close>

record transfer_env =
  te_shuf :: "nat \<Rightarrow> rand_fun"
  te_rnd :: "nat \<Rightarrow> rand_fun"
  te_srt :: sort_fun
  te_now :: "nat \<Rightarrow> int"
  te_pad :: memo_rand

definition two_minutes :: int where "two_minutes = 2 * 60 * 1000000000"

definition release_on_error :: "u64 \<Rightarrow> Wallet \<Rightarrow> build_error + 'a \<Rightarrow> Wallet \<times> (build_error + 'a)" where
  "release_on_error lease w r = (case r of Inl e \<Rightarrow> (if lease \<noteq> 0 then ReleaseInputLease lease w else w, Inl e) | Inr x \<Rightarrow> (w, Inr x))"

text \<open>The selection loop runs at most four times; \<open>n\<close> counts the rounds left and \<open>k\<close> the rounds done.\<close>

fun transfer_loop :: "TransferConfig \<Rightarrow> transfer_env \<Rightarrow> nat \<Rightarrow> nat \<Rightarrow> nat \<Rightarrow> u64 \<Rightarrow> u64 \<Rightarrow> u64 \<Rightarrow> u64 \<Rightarrow> u64 \<Rightarrow> OwnedOutput list \<Rightarrow> Wallet
    \<Rightarrow> Wallet \<times> (build_error + (OwnedOutput list \<times> u64 \<times> u64))" where
  "transfer_loop cfg env k 0 nrec totalSend feeRate h fee lease inputs w = (w, Inr (inputs, fee, lease))"
| "transfer_loop cfg env k (Suc n) nrec totalSend feeRate h fee lease inputs w =
     (case AddU64 totalSend fee of (need, ok) \<Rightarrow>
      if \<not> ok then release_on_error lease w (Inl FeeOverflow)
      else let w = (if lease \<noteq> 0 then ReleaseInputLease lease w else w) in
     (case ReserveMatureInputs (te_shuf env k) (te_rnd env k) (te_srt env) (te_now env k) h need two_minutes w of
        (w, Inl e) \<Rightarrow> (w, Inl (ReserveFailed e))
      | (w, Inr (lease, inputs)) \<Rightarrow>
     (case sum_checked 0 (map oo_Amount inputs) of None \<Rightarrow> release_on_error lease w (Inl InputOverflow)
      | Some totalInput \<Rightarrow>
          if totalInput < need then release_on_error lease w (Inl (ShortAfterSelection totalInput need))
          else let change = totalInput - totalSend - fee;
                   outputCount = (if change > 0 then nrec + 1 else nrec);
                   requiredFee = required_fee cfg feeRate (estimateTxSizeBytes (length inputs) outputCount (tc_RingSize cfg)) in
               if requiredFee \<le> fee then (w, Inr (inputs, fee, lease))
               else transfer_loop cfg env (Suc k) n nrec totalSend feeRate h requiredFee lease inputs w)))"

definition Transfer :: "crypto \<Rightarrow> bool \<Rightarrow> TransferConfig \<Rightarrow> transfer_env \<Rightarrow> Recipient list \<Rightarrow> u64 \<Rightarrow> u64 \<Rightarrow> Wallet
    \<Rightarrow> Wallet \<times> (build_error + TransferResult)" where
  "Transfer C testnet cfg env recipients feeRate currentHeight w =
     (if recipients = [] then (w, Inl NoRecipients)
      else case sum_checked 0 (map rc_Amount recipients) of None \<Rightarrow> (w, Inl SendOverflow)
      | Some totalSend \<Rightarrow>
     (case transfer_loop cfg env 0 4 (length recipients) totalSend feeRate currentHeight (tc_MinFee cfg) 0 [] w of
        (w, Inl e) \<Rightarrow> (w, Inl e)
      | (w, Inr (inputs, fee, lease)) \<Rightarrow>
          release_on_error lease w
            (buildTransaction C testnet cfg (te_pad env) (wd_Keys (w_data w)) inputs recipients totalSend fee lease 1 currentHeight)))"

definition TransferWithInputs :: "crypto \<Rightarrow> bool \<Rightarrow> TransferConfig \<Rightarrow> transfer_env \<Rightarrow> OwnedOutput list \<Rightarrow> u64 \<Rightarrow> Recipient list \<Rightarrow> u64
    \<Rightarrow> int \<Rightarrow> u64 \<Rightarrow> Wallet \<Rightarrow> Wallet \<times> (build_error + TransferResult)" where
  "TransferWithInputs C testnet cfg env inputs lease recipients feeRate changeSplit currentHeight w =
     release_on_error lease w
       (if recipients = [] then Inl NoRecipients
        else if inputs = [] then Inl NoInputs
        else case sum_checked 0 (map rc_Amount recipients) of None \<Rightarrow> Inl SendOverflow
        | Some totalSend \<Rightarrow>
            let changeSplit = (if changeSplit < 1 then 1 else changeSplit);
                fee = required_fee cfg feeRate
                  (estimateTxSizeBytes (length inputs) (length recipients + nat changeSplit) (tc_RingSize cfg)) in
            buildTransaction C testnet cfg (te_pad env) (wd_Keys (w_data w)) inputs recipients totalSend fee lease changeSplit currentHeight)"

definition sweep_tx :: "crypto \<Rightarrow> bool \<Rightarrow> TransferConfig \<Rightarrow> memo_rand \<Rightarrow> StealthKeys \<Rightarrow> OwnedOutput list \<Rightarrow> Recipient \<Rightarrow> u64 \<Rightarrow> u64 \<Rightarrow> u64
    \<Rightarrow> build_error + TransferResult" where
  "sweep_tx C testnet cfg pad keys inputs recipient feeRate lease currentHeight =
     (if 256 < length inputs then Inl (TooManyToSweep (length inputs))
      else case sum_checked 0 (map oo_Amount inputs) of None \<Rightarrow> Inl InputOverflow
      | Some totalInput \<Rightarrow>
          let fee = required_fee cfg feeRate (estimateTxSizeBytes (length inputs) 1 (tc_RingSize cfg)) in
          if totalInput \<le> fee then Inl (BalanceTooSmall totalInput fee)
          else
     (case deriveDeterministicR cfg keys inputs of None \<Rightarrow> Inl TxKeyFailed
      | Some (txPriv, txPub) \<Rightarrow>
          let useIndexed = (IndexedDerivationHeight testnet \<le> currentHeight \<and> tc_DeriveSharedSecretIndexed cfg \<noteq> None) in
     (case make_outputs C testnet cfg pad useIndexed txPriv 0 [recipient\<lparr>rc_Amount := totalInput - fee\<rparr>] of Inl e \<Rightarrow> Inl e
      | Inr os \<Rightarrow>
     (case finish_tx C cfg inputs os txPub fee of Inl e \<Rightarrow> Inl e
      | Inr (txData, txID) \<Rightarrow>
          Inr \<lparr>tr_TxData = txData, tr_TxID = txID, tr_TxPrivKey = txPriv, tr_SpentOutputs = inputs, tr_InputLease = lease,
             tr_Fee = fee, tr_Change = 0\<rparr>))))"

definition TransferAll :: "crypto \<Rightarrow> bool \<Rightarrow> TransferConfig \<Rightarrow> transfer_env \<Rightarrow> Recipient \<Rightarrow> u64 \<Rightarrow> u64 \<Rightarrow> Wallet
    \<Rightarrow> Wallet \<times> (build_error + TransferResult)" where
  "TransferAll C testnet cfg env recipient feeRate currentHeight w =
     (case ReserveAllMatureInputs (te_now env 0) currentHeight two_minutes w of
        (w, Inl e) \<Rightarrow> (w, Inl (ReserveFailed e))
      | (w, Inr (lease, inputs)) \<Rightarrow>
          release_on_error lease w (sweep_tx C testnet cfg (te_pad env) (wd_Keys (w_data w)) inputs recipient feeRate lease currentHeight))"

end
