(* ===== verification/WalletLeases.thy ===== *)
theory WalletLeases
  imports Wallet
begin

text \<open>
  The wallet as a transition system: every operation that changes the wallet is a step, and a step may grant a lease on
  inputs.  The theory shows that a lease is exclusive until it is released, expires, or its input is marked spent, that
  the wallet never lists an outpoint twice, and how the balances add up.
\<close>

section \<open>Steps\<close>

datatype wallet_op =
    OpReserve rand_fun rand_fun sort_fun u64 u64 int
  | OpReserveAll u64 int
  | OpReserveSpecific "reservedOutpoint list" u64 int
  | OpRelease u64
  | OpAddOutput OwnedOutput
  | OpAddPendingCredit int hash u64
  | OpMarkSpent hash u64
  | OpMarkSpentByTx hash hash
  | OpReconcile "hash \<Rightarrow> bool"
  | OpRewind u64
  | OpSetSyncedHeight u64
  | OpSetInputFilter "(OwnedOutput \<Rightarrow> bool) option"
  | OpRecordSend SendRecord
  | OpMemoFailure u64

fun step :: "int \<Rightarrow> wallet_op \<Rightarrow> Wallet \<Rightarrow> Wallet \<times> lease_result option" where
  "step now (OpReserve shuf rnd srt h target ttl) w = apsnd Some (ReserveMatureInputs shuf rnd srt now h target ttl w)"
| "step now (OpReserveAll h ttl) w = apsnd Some (ReserveAllMatureInputs now h ttl w)"
| "step now (OpReserveSpecific refs h ttl) w = apsnd Some (ReserveSpecificInputs now refs h ttl w)"
| "step now (OpRelease lease) w = (ReleaseInputLease lease w, None)"
| "step now (OpAddOutput out) w = (AddOutput out w, None)"
| "step now (OpAddPendingCredit unix txID amount) w = (AddPendingCredit unix txID amount w, None)"
| "step now (OpMarkSpent key h) w = (fst (MarkSpent key h w), None)"
| "step now (OpMarkSpentByTx key txID) w = (fst (MarkSpentByTx key txID w), None)"
| "step now (OpReconcile alive) w = (fst (ReconcileUnconfirmedSpends alive w), None)"
| "step now (OpRewind h) w = (fst (RewindToHeight h w), None)"
| "step now (OpSetSyncedHeight h) w = (SetSyncedHeight h w, None)"
| "step now (OpSetInputFilter fn) w = (SetInputFilter fn w, None)"
| "step now (OpRecordSend r) w = (RecordSend r w, None)"
| "step now (OpMemoFailure h) w = (recordMemoDecryptFailure h w, None)"

fun steps :: "(int \<times> wallet_op) list \<Rightarrow> Wallet \<Rightarrow> Wallet" where
  "steps [] w = w"
| "steps ((now, oper) # tr) w = steps tr (fst (step now oper w))"

text \<open>The randomness and the sort given to a step behave as documented.\<close>

fun op_ok :: "wallet_op \<Rightarrow> bool" where
  "op_ok (OpReserve shuf rnd srt h target ttl) \<longleftrightarrow> rand_int shuf \<and> rand_int rnd \<and> sort_slice srt"
| "op_ok _ \<longleftrightarrow> True"

fun op_ttl :: "wallet_op \<Rightarrow> int" where
  "op_ttl (OpReserve shuf rnd srt h target ttl) = lease_ttl ttl"
| "op_ttl (OpReserveAll h ttl) = lease_ttl ttl"
| "op_ttl (OpReserveSpecific refs h ttl) = lease_ttl ttl"
| "op_ttl _ = 0"

fun op_height :: "wallet_op \<Rightarrow> u64" where
  "op_height (OpReserve shuf rnd srt h target ttl) = h"
| "op_height (OpReserveAll h ttl) = h"
| "op_height (OpReserveSpecific refs h ttl) = h"
| "op_height _ = 0"

text \<open>The steps that end a lease on an outpoint: its release, and marking an output with that outpoint spent.\<close>

fun ends_lease :: "u64 \<Rightarrow> reservedOutpoint \<Rightarrow> wallet_op \<Rightarrow> Wallet \<Rightarrow> bool" where
  "ends_lease lease p (OpRelease l) w \<longleftrightarrow> l = lease"
| "ends_lease lease p (OpMarkSpent key h) w \<longleftrightarrow> (\<exists>out \<in> set (outputs w). outpoint out = p \<and> oo_OneTimePubKey out = key)"
| "ends_lease lease p (OpMarkSpentByTx key txID) w \<longleftrightarrow> (\<exists>out \<in> set (outputs w). outpoint out = p \<and> oo_OneTimePubKey out = key)"
| "ends_lease lease p _ w \<longleftrightarrow> False"

fun keeps_lease :: "u64 \<Rightarrow> reservedOutpoint \<Rightarrow> int \<Rightarrow> (int \<times> wallet_op) list \<Rightarrow> Wallet \<Rightarrow> bool" where
  "keeps_lease lease p expires [] w \<longleftrightarrow> True"
| "keeps_lease lease p expires ((now, oper) # tr) w \<longleftrightarrow> now \<le> expires \<and> op_ok oper \<and> \<not> ends_lease lease p oper w
     \<and> keeps_lease lease p expires tr (fst (step now oper w))"

section \<open>The invariant\<close>

definition wallet_ok :: "Wallet \<Rightarrow> bool" where
  "wallet_ok w \<longleftrightarrow> distinct (map outpoint (outputs w))"

lemma outputs_simps [simp]:
  "outputs (set_outputs outs w) = outs" "outputs (set_credits pcs w) = outputs w" "outputs (unreserve p w) = outputs w"
  "outputs (drop_expired now w) = outputs w"
  "w_inputReservations (set_outputs outs w) = w_inputReservations w"
  "w_inputReservations (set_credits pcs w) = w_inputReservations w"
  "w_inputReservations (unreserve p w) = (w_inputReservations w)(p := None)"
  by (simp_all add: set_outputs_def set_credits_def unreserve_def drop_expired_def)

lemma mark_spent_outpoints:
  "mark_spent key h outs = Some (outs', p) \<Longrightarrow> map outpoint outs' = map outpoint outs
     \<and> (\<forall>q. p = Some q \<longrightarrow> (\<exists>out \<in> set outs. outpoint out = q \<and> oo_OneTimePubKey out = key))"
  by (induction outs arbitrary: outs' p) (force simp: outpoint_def split: if_splits)+

lemma mark_spent_by_outpoints:
  "mark_spent_by key txID outs = Some (outs', p) \<Longrightarrow> map outpoint outs' = map outpoint outs
     \<and> (\<forall>q. p = Some q \<longrightarrow> (\<exists>out \<in> set outs. outpoint out = q \<and> oo_OneTimePubKey out = key))"
  by (induction outs arbitrary: outs' p) (force simp: outpoint_def split: if_splits)+

lemma restore_outpoint [simp]: "outpoint (restore_output out) = outpoint out" "outpoint (rewind_output h out) = outpoint out"
  by (simp_all add: outpoint_def restore_output_def rewind_output_def)

lemma reserve_outputs_same:
  "outputs (fst (ReserveMatureInputs shuf rnd srt now h target ttl w)) = outputs w"
  "outputs (fst (ReserveAllMatureInputs now h ttl w)) = outputs w"
  "outputs (fst (ReserveSpecificInputs now refs h ttl w)) = outputs w"
  by (auto simp: ReserveMatureInputs_def ReserveAllMatureInputs_def ReserveSpecificInputs_def grant_lease_def Let_def
      split: sum.split prod.split option.split)

lemma MarkSpent_outputs: "map outpoint (outputs (fst (MarkSpent key h w))) = map outpoint (outputs w)"
  "map outpoint (outputs (fst (MarkSpentByTx key txID w))) = map outpoint (outputs w)"
  using mark_spent_outpoints [of key h "outputs w"] mark_spent_by_outpoints [of key txID "outputs w"]
  by (auto simp: MarkSpent_def MarkSpentByTx_def apply_mark_def split: option.split)

lemma Reconcile_outputs: "map outpoint (outputs (fst (ReconcileUnconfirmedSpends alive w))) = map outpoint (outputs w)"
  by (auto simp: ReconcileUnconfirmedSpends_def Let_def)

lemma Rewind_outputs: "outputs (fst (RewindToHeight h w)) = map (rewind_output h) (filter (\<lambda>out. oo_BlockHeight out \<le> h) (outputs w))"
  by (auto simp: RewindToHeight_def Let_def set_outputs_def)

lemma wallet_ok_step: "wallet_ok w \<Longrightarrow> wallet_ok (fst (step now oper w))"
proof (cases oper)
  case (OpAddOutput out)
  assume "wallet_ok w"
  then show ?thesis using OpAddOutput by (force simp: wallet_ok_def AddOutput_def outpoint_def)
next
  case (OpRewind h)
  assume "wallet_ok w"
  then show ?thesis using OpRewind by (simp add: wallet_ok_def Rewind_outputs distinct_map_filter o_def)
qed (simp_all add: wallet_ok_def reserve_outputs_same MarkSpent_outputs Reconcile_outputs ReleaseInputLease_def
    AddPendingCredit_def SetSyncedHeight_def SetInputFilter_def RecordSend_def recordMemoDecryptFailure_def)

section \<open>Granting a lease\<close>

lemma reserve_outputs_apply:
  "reserve_outputs lease e outs m p = (if p \<in> outpoint ` set outs then Some \<lparr>ir_lease = lease, ir_expiresAt = e\<rparr> else m p)"
  by (induction outs arbitrary: m) (auto simp: reserve_outputs_def)

lemma reserve_checked_ok:
  "distinct (map outpoint outs) \<Longrightarrow> \<forall>out \<in> set outs. m (outpoint out) = None
   \<Longrightarrow> reserve_checked now lease e outs m = (reserve_outputs lease e outs m, True)"
proof (induction outs arbitrary: m)
  case (Cons out outs)
  let ?m = "m(outpoint out \<mapsto> \<lparr>ir_lease = lease, ir_expiresAt = e\<rparr>)"
  have "reserve_checked now lease e outs ?m = (reserve_outputs lease e outs ?m, True)"
    by (rule Cons.IH) (use Cons.prems in \<open>auto dest: image_eqI [of _ outpoint, OF sym]\<close>)
  then show ?case using Cons.prems by (simp add: reserve_outputs_def)
qed (simp add: reserve_outputs_def)

lemma distinct_nths:
  assumes "distinct (map f xs)" "distinct is" "set is \<subseteq> {..<length xs}"
  shows "distinct (map f (map ((!) xs) is))"
proof -
  have "inj_on (\<lambda>i. f (xs ! i)) (set is)"
    using assms nth_eq_iff_index_eq [OF assms(1)] by (intro inj_onI) (auto simp: subset_iff)
  then show ?thesis using assms(2) by (simp add: distinct_map comp_def)
qed

lemma candidates_set: "set (candidates h w) = {i. i < length (outputs w) \<and> is_candidate h w (outputs w ! i)}"
  "distinct (candidates h w)"
  by (auto simp: candidates_def)

definition candidate_inputs :: "u64 \<Rightarrow> Wallet \<Rightarrow> OwnedOutput list \<Rightarrow> bool" where
  "candidate_inputs h w ins \<longleftrightarrow> distinct (map outpoint ins) \<and> (\<forall>out \<in> set ins. out \<in> set (outputs w) \<and> is_candidate h w out)"

lemma candidate_inputs_nths:
  assumes "wallet_ok w" "distinct is" "set is \<subseteq> set (candidates h w)"
  shows "candidate_inputs h w (map ((!) (outputs w)) is)"
  using distinct_nths [OF assms(1) [unfolded wallet_ok_def] assms(2)] assms(3)
  by (auto simp: candidate_inputs_def candidates_set subset_iff)

lemma wallet_ok_drop [simp]: "wallet_ok (drop_expired now w) = wallet_ok w"
  by (simp add: wallet_ok_def)

text \<open>In a wallet that lists no outpoint twice the roll-back of \<open>ReserveMatureInputs\<close> never happens.\<close>

lemma ReserveMatureInputs_grants:
  fixes now :: int
  assumes w: "wallet_ok w" and ok: "rand_int shuf" "rand_int rnd" "sort_slice srt"
  defines "v \<equiv> drop_expired now w"
  shows "ReserveMatureInputs shuf rnd srt now h target ttl w =
    (case SelectInputs shuf rnd srt ((!) (outputs v)) (candidates h v) target of
       Inl e \<Rightarrow> (v, Inl (SelectError e)) | Inr sel \<Rightarrow> grant_lease now ttl (map ((!) (outputs v)) sel) v)"
    and "SelectInputs shuf rnd srt ((!) (outputs v)) (candidates h v) target = Inr sel
      \<Longrightarrow> candidate_inputs h v (map ((!) (outputs v)) sel)"
proof -
  have c: "candidate_inputs h v (map ((!) (outputs v)) sel)"
    if "SelectInputs shuf rnd srt ((!) (outputs v)) (candidates h v) target = Inr sel" for sel
    using SelectInputs_sublist [OF ok(3,1,2) candidates_set(2) that] w
    by (intro candidate_inputs_nths) (auto simp: sublist_of_def v_def)
  then show "SelectInputs shuf rnd srt ((!) (outputs v)) (candidates h v) target = Inr sel
      \<Longrightarrow> candidate_inputs h v (map ((!) (outputs v)) sel)" .
  have "reserve_checked now l e (map ((!) (outputs v)) sel) (w_inputReservations v)
      = (reserve_outputs l e (map ((!) (outputs v)) sel) (w_inputReservations v), True)"
    if "SelectInputs shuf rnd srt ((!) (outputs v)) (candidates h v) target = Inr sel" for sel l e
    using c [OF that] by (intro reserve_checked_ok) (auto simp: candidate_inputs_def is_candidate_def)
  then show "ReserveMatureInputs shuf rnd srt now h target ttl w =
    (case SelectInputs shuf rnd srt ((!) (outputs v)) (candidates h v) target of
       Inl e \<Rightarrow> (v, Inl (SelectError e)) | Inr sel \<Rightarrow> grant_lease now ttl (map ((!) (outputs v)) sel) v)"
    by (simp add: ReserveMatureInputs_def v_def [symmetric] grant_lease_def Let_def split: sum.split)
qed

lemma check_ref_ok: "check_ref h w i ref = Inr out \<Longrightarrow> out \<in> set (outputs w) \<and> is_candidate h w out \<and> outpoint out = ref"
  by (auto simp: check_ref_def is_candidate_def find_Some_iff split: option.splits if_splits)
    (metis in_set_conv_nth length_rev nth_mem set_rev)+

lemma check_refs_ok:
  "check_refs h w i refs = Inr outs \<Longrightarrow> map outpoint outs = refs \<and> (\<forall>out \<in> set outs. out \<in> set (outputs w) \<and> is_candidate h w out)"
proof (induction refs arbitrary: i outs)
  case (Cons ref refs)
  then obtain out rest where "check_ref h w i ref = Inr out" "check_refs h w (Suc i) refs = Inr rest" "outs = out # rest"
    by (cases "check_refs h w (Suc i) refs") (auto split: sum.splits)
  then show ?case using Cons.IH check_ref_ok by fastforce
qed simp

lemma find_duplicate_None: "find_duplicate i seen refs = None \<Longrightarrow> distinct seen \<Longrightarrow> distinct (seen @ refs)"
  by (induction i seen refs rule: find_duplicate.induct) (auto split: if_splits)

text \<open>Every lease: the inputs are candidates, and the new reservations are added to the unexpired ones.\<close>

lemma step_grants:
  assumes w: "wallet_ok w" and ok: "op_ok oper" and st: "step now oper w = (w', Some (Inr (lease, ins)))"
  shows "candidate_inputs (op_height oper) (drop_expired now w) ins
    \<and> w_inputReservations w' = reserve_outputs lease (now + op_ttl oper) ins (w_inputReservations (drop_expired now w))"
proof (cases oper)
  case (OpReserve shuf rnd srt h target ttl)
  then have r: "rand_int shuf" "rand_int rnd" "sort_slice srt" using ok by auto
  show ?thesis
    using st ReserveMatureInputs_grants(1) [OF w r, of now h target ttl]
      ReserveMatureInputs_grants(2) [OF w r, where now = now and h = h and target = target]
    by (auto simp: OpReserve apsnd_def map_prod_def grant_lease_def Let_def split: prod.splits sum.splits)
next
  case (OpReserveAll h ttl)
  have "candidate_inputs h (drop_expired now w) (map ((!) (outputs (drop_expired now w))) (candidates h (drop_expired now w)))"
    using w by (intro candidate_inputs_nths) (auto simp: candidates_set(2))
  then show ?thesis
    using st by (auto simp: OpReserveAll ReserveAllMatureInputs_def grant_lease_def Let_def split: if_splits)
next
  case (OpReserveSpecific refs h ttl)
  let ?v = "drop_expired now w"
  have "check_refs h ?v 0 refs = Inr ins" "find_duplicate 0 [] refs = None"
    "w_inputReservations w' = reserve_outputs lease (now + lease_ttl ttl) ins (w_inputReservations ?v)"
    using st by (auto simp: OpReserveSpecific ReserveSpecificInputs_def grant_lease_def Let_def split: if_splits option.splits sum.splits)
  then show ?thesis
    using check_refs_ok [of h ?v 0 refs ins] find_duplicate_None [of 0 "[]" refs]
    by (simp add: candidate_inputs_def OpReserveSpecific)
qed (use st in simp_all)

section \<open>A lease is exclusive\<close>

abbreviation holds :: "Wallet \<Rightarrow> reservedOutpoint \<Rightarrow> u64 \<Rightarrow> int \<Rightarrow> bool" where
  "holds w p lease e \<equiv> w_inputReservations w p = Some \<lparr>ir_lease = lease, ir_expiresAt = e\<rparr>"

lemma holds_drop: "holds w p lease e \<Longrightarrow> now \<le> e \<Longrightarrow> holds (drop_expired now w) p lease e"
  by (simp add: drop_expired_def)

lemma step_reservations_failed:
  assumes "wallet_ok w" "op_ok oper" "step now oper w = (w', Some (Inl err))"
  shows "w_inputReservations w' = w_inputReservations (drop_expired now w) \<or> w' = w"
proof (cases oper)
  case (OpReserve shuf rnd srt h target ttl)
  then have r: "rand_int shuf" "rand_int rnd" "sort_slice srt" using assms(2) by auto
  show ?thesis
    using assms(3) ReserveMatureInputs_grants(1) [OF assms(1) r, of now h target ttl]
    by (auto simp: OpReserve grant_lease_def Let_def split: sum.splits)
qed (use assms(3) in \<open>auto simp: ReserveAllMatureInputs_def ReserveSpecificInputs_def grant_lease_def Let_def
    split: if_splits option.splits sum.splits\<close>)

lemma apsnd_Some_None [simp]: "apsnd Some x \<noteq> (a, None)"
  by (cases x) simp

lemma step_keeps_lease:
  assumes w: "wallet_ok w" and ok: "op_ok oper" and h: "holds w p lease e" and t: "now \<le> e" and k: "\<not> ends_lease lease p oper w"
  shows "holds (fst (step now oper w)) p lease e"
proof -
  obtain w' r where st: "step now oper w = (w', r)" by fastforce
  show ?thesis
  proof (cases r)
    case (Some res)
    show ?thesis
    proof (cases res)
      case (Inl err)
      then show ?thesis using step_reservations_failed [OF w ok] st Some h holds_drop [OF h t] by fastforce
    next
      case (Inr g)
      obtain l ins where g: "g = (l, ins)" by fastforce
      note gr = step_grants [OF w ok, of now w' l ins]
      have "p \<notin> outpoint ` set ins"
        using gr holds_drop [OF h t] st Some Inr g by (auto simp: candidate_inputs_def is_candidate_def)
      then show ?thesis using gr holds_drop [OF h t] st Some Inr g by (simp add: reserve_outputs_apply)
    qed
  next
    case None
    then show ?thesis
    proof (cases oper)
      case (OpMarkSpent key ht)
      then show ?thesis using h k mark_spent_outpoints [of key ht "outputs w"]
        by (auto simp: MarkSpent_def apply_mark_def split: option.split)
    next
      case (OpMarkSpentByTx key txID)
      then show ?thesis using h k mark_spent_by_outpoints [of key txID "outputs w"]
        by (auto simp: MarkSpentByTx_def apply_mark_def split: option.split)
    qed (use st None h k in \<open>auto simp: ReleaseInputLease_def drop_lease_def AddOutput_def AddPendingCredit_def
        ReconcileUnconfirmedSpends_def RewindToHeight_def SetSyncedHeight_def SetInputFilter_def RecordSend_def
        recordMemoDecryptFailure_def Let_def\<close>)
  qed
qed

lemma steps_keep_lease:
  "wallet_ok w \<Longrightarrow> holds w p lease e \<Longrightarrow> keeps_lease lease p e tr w \<Longrightarrow> wallet_ok (steps tr w) \<and> holds (steps tr w) p lease e"
  by (induction tr w rule: steps.induct) (auto intro: wallet_ok_step step_keeps_lease)

text \<open>C27. Leases are exclusive.  Once a reservation grants an output to a lease, no later reservation grants an output with
  the same outpoint to another caller, whatever operations run in between, until the lease expires, is released, or the
  output is marked spent.  Every granted input is an output of the wallet that is unspent, mature, not
  rejected by the input filter, and listed once.\<close>

theorem leases_exclusive:
  assumes "wallet_ok w" "op_ok oper" "step now oper w = (w1, Some (Inr (lease, ins)))"
    and "out \<in> set ins" "keeps_lease lease (outpoint out) (now + op_ttl oper) tr w1"
    and "op_ok oper'" "now' \<le> now + op_ttl oper" "step now' oper' (steps tr w1) = (w2, Some (Inr (lease', ins')))"
  shows "outpoint out \<notin> outpoint ` set ins' \<and> distinct (map outpoint ins')
    \<and> (\<forall>i \<in> set ins'. i \<in> set (outputs (steps tr w1)) \<and> \<not> oo_Spent i \<and> IsOutputMature i (op_height oper')
       \<and> \<not> filtered (steps tr w1) i)"
proof -
  have "wallet_ok w1" using wallet_ok_step [OF assms(1), of now oper] assms(3) by simp
  moreover have "holds w1 (outpoint out) lease (now + op_ttl oper)"
    using step_grants [OF assms(1-3)] assms(4) by (auto simp: reserve_outputs_apply)
  ultimately have w: "wallet_ok (steps tr w1)" and h: "holds (steps tr w1) (outpoint out) lease (now + op_ttl oper)"
    using steps_keep_lease assms(5) by blast+
  note g = step_grants [OF w assms(6,8)] and h' = holds_drop [OF h assms(7)]
  have "outpoint out \<notin> outpoint ` set ins'" using g h' by (auto simp: candidate_inputs_def is_candidate_def)
  then show ?thesis
    using g by (auto simp: candidate_inputs_def is_candidate_def filtered_def drop_expired_def)
qed

definition sample_coin :: "nat \<Rightarrow> OwnedOutput" where
  "sample_coin i = \<lparr>oo_TxID = replicate 32 1, oo_OutputIndex = int i, oo_Amount = 7, oo_Blinding = [],
     oo_OneTimePrivKey = [], oo_OneTimePubKey = replicate 32 (of_nat i), oo_Commitment = [], oo_BlockHeight = 5, oo_IsCoinbase = False,
     oo_Spent = False, oo_SpentHeight = 0, oo_SpentTxID = zero_hash, oo_Memo = []\<rparr>"

definition sample_keys :: StealthKeys where
  "sample_keys = \<lparr>sk_SpendPrivKey = zero_hash, sk_SpendPubKey = zero_hash, sk_ViewPrivKey = zero_hash, sk_ViewPubKey = zero_hash\<rparr>"

definition sample_wallet :: "OwnedOutput list \<Rightarrow> Wallet" where
  "sample_wallet outs = init_wallet \<lparr>wd_Version = 1, wd_ViewOnly = False, wd_Mnemonic = [], wd_Keys = sample_keys, wd_Outputs = outs,
     wd_SendHistory = [], wd_PendingCredits = [], wd_SyncedHeight = 5, wd_CreatedAt = 0\<rparr> []"

theorem leases_exclusive_witness:
  "\<exists>w1 lease w2 lease' ins'. step 0 (OpReserveAll 100 50) (sample_wallet [sample_coin 0]) = (w1, Some (Inr (lease, [sample_coin 0])))
     \<and> step 2 (OpReserveAll 100 50) (steps [(1, OpAddOutput (sample_coin 1))] w1) = (w2, Some (Inr (lease', ins')))
     \<and> outpoint (sample_coin 0) \<notin> outpoint ` set ins'"
proof -
  let ?w = "sample_wallet [sample_coin 0]" and ?tr = "[(1, OpAddOutput (sample_coin 1))]"
  let ?w1 = "fst (step 0 (OpReserveAll 100 50) ?w)"
  let ?s = "step 2 (OpReserveAll 100 50) (steps ?tr ?w1)"
  have "snd (step 0 (OpReserveAll 100 50) ?w) = Some (Inr (1, [sample_coin 0]))" by code_simp
  then have 1: "step 0 (OpReserveAll 100 50) ?w = (?w1, Some (Inr (1, [sample_coin 0])))" by (metis prod.collapse)
  have "snd ?s = Some (Inr (2, [sample_coin 1]))" by code_simp
  then have 2: "?s = (fst ?s, Some (Inr (2, [sample_coin 1])))" by (metis prod.collapse)
  have w: "wallet_ok ?w" by (simp add: wallet_ok_def sample_wallet_def init_wallet_def)
  show ?thesis
    using leases_exclusive [OF w _ 1 _ _ _ _ 2, of "sample_coin 0"] 1 2
    by (auto simp: lease_ttl_def)
qed

text \<open>The balances add up, also when the 64-bit sums wrap.\<close>

lemma balance_split: "Balance w = SpendableBalance h w + PendingBalance h w"
  unfolding Balance_def SpendableBalance_def PendingBalance_def by (rule sum_where_split) (rule mature_unspent)

end
