(* ===== verification/BuilderProps.thy ===== *)
theory BuilderProps
  imports Builder WalletLeases
begin

text \<open>
  What the builder's transactions satisfy: they decode on the node's side, balance, pass every stateless consensus check,
  and pay at least the requested fee rate.  The hypotheses on the callbacks are the documented behaviour of the
  cryptographic library: the lengths of the Go array types, homomorphic Pedersen commitments, complete range proofs and
  ring signatures.
\<close>

section \<open>The callbacks\<close>

text \<open>Array lengths of the Go types.\<close>

definition cfg_sizes :: "TransferConfig \<Rightarrow> bool" where
  "cfg_sizes cfg \<longleftrightarrow> (\<forall>v b. length (tc_CreateCommitment cfg v b) = 32)
     \<and> (\<forall>p q r. tc_PointAdd cfg p q = Some r \<longrightarrow> length r = 32)
     \<and> (\<forall>f s p. tc_ScalarToPoint cfg = Some f \<longrightarrow> f s = Some p \<longrightarrow> length p = 32)
     \<and> (\<forall>s v a b c. tc_DeriveStealthAddress cfg s v = Some (a, b, c) \<longrightarrow> length b = 32)
     \<and> (\<forall>k ks cs j p b c d m sig ki. tc_SignRingCT cfg k ks cs j p b c d m = Some (sig, ki) \<longrightarrow> length ki = 32)"

text \<open>Pedersen commitments: \<open>pt\<close> is the group element that bytes encode, \<open>hv n\<close> the element \<open>n * H\<close>, \<open>gs s\<close> the element
  \<open>s * G\<close> of a scalar, and \<open>valid\<close> tells which bytes encode an element.\<close>

definition pedersen :: "crypto \<Rightarrow> TransferConfig \<Rightarrow> (bytes \<Rightarrow> bool) \<Rightarrow> (bytes \<Rightarrow> 'g::ab_group_add) \<Rightarrow> (nat \<Rightarrow> 'g) \<Rightarrow> (hash \<Rightarrow> 'g) \<Rightarrow> bool" where
  "pedersen C cfg valid pt hv gs \<longleftrightarrow>
     (\<forall>m n. hv (m + n) = hv m + hv n) \<and> gs zero_hash = 0
     \<and> (\<forall>v b. valid (tc_CreateCommitment cfg v b) \<and> pt (tc_CreateCommitment cfg v b) = hv (unat v) + gs b)
     \<and> (\<forall>a b. valid a \<longrightarrow> valid b \<longrightarrow> (\<exists>c. blocknet_commitment_add C a b = Some c \<and> valid c \<and> pt c = pt a + pt b))
     \<and> (\<forall>a b. valid a \<longrightarrow> valid b \<longrightarrow> (\<exists>c. blocknet_commitment_sub C a b = Some c \<and> valid c \<and> pt c = pt a - pt b))
     \<and> (\<forall>a. valid a \<longrightarrow> blocknet_commitment_is_zero C a = (pt a = 0))
     \<and> (\<forall>f. \<exists>c. blocknet_fee_commitment C f = Some c \<and> valid c \<and> pt c = hv (unat f))
     \<and> (\<forall>a b c. tc_BlindingAdd cfg a b = Some c \<longrightarrow> gs c = gs a + gs b)
     \<and> (\<forall>a b c. tc_BlindingSub cfg a b = Some c \<longrightarrow> gs c = gs a - gs b)"

text \<open>A created range proof verifies and has at most 1024 bytes.\<close>

definition range_prover :: "crypto \<Rightarrow> TransferConfig \<Rightarrow> bool" where
  "range_prover C cfg \<longleftrightarrow> (\<forall>k v b p. tc_CreateRangeProof cfg k v b = Some p \<longrightarrow>
     p \<noteq> [] \<and> length p \<le> 1024 \<and> blocknet_range_proof_verify C (tc_CreateCommitment cfg v b) p)"

text \<open>A signature made with the private key of a ring member whose commitment has the amount of the pseudo-output
  verifies, and carries the key image and the pseudo-output in its last 64 bytes.\<close>

definition ring_signer :: "crypto \<Rightarrow> TransferConfig \<Rightarrow> bool" where
  "ring_signer C cfg \<longleftrightarrow> (\<forall>toPoint k ks cs j priv v rb pb msg sig ki. tc_ScalarToPoint cfg = Some toPoint
     \<longrightarrow> tc_SignRingCT cfg k ks cs j priv rb (tc_CreateCommitment cfg v pb) pb msg = Some (sig, ki)
     \<longrightarrow> length ks = RingSize \<longrightarrow> length cs = RingSize \<longrightarrow> j < RingSize
     \<longrightarrow> toPoint priv = Some (ks ! j) \<longrightarrow> cs ! j = tc_CreateCommitment cfg v rb
     \<longrightarrow> length sig = 96 + 64 * RingSize \<and> blocknet_ringct_verify C (concat ks) (concat cs) RingSize msg sig
         \<and> take 32 (drop (32 + 64 * RingSize) sig) = ki \<and> take 32 (drop (64 + 64 * RingSize) sig) = tc_CreateCommitment cfg v pb)"

text \<open>Ring selection returns a full ring of canonical members with the real one at the secret index.\<close>

definition ring_source :: "TransferConfig \<Rightarrow> (hash \<Rightarrow> hash \<Rightarrow> bool) \<Rightarrow> bool" where
  "ring_source cfg canon \<longleftrightarrow> (\<forall>k pub com ks cs j. tc_SelectRingMembers cfg k pub com = Some (ks, cs, j)
     \<longrightarrow> length ks = RingSize \<and> length cs = RingSize \<and> j < RingSize \<and> ks ! j = pub \<and> cs ! j = com
         \<and> (\<forall>x \<in> set ks \<union> set cs. length x = 32) \<and> (\<forall>i < RingSize. canon (ks ! i) (cs ! i)))"

text \<open>\<open>ComputeTxID\<close> as the node wires it (\<open>createTxBuilder\<close> of \<open>src/cli.go\<close>).\<close>

definition computeTxID :: "crypto \<Rightarrow> bytes \<Rightarrow> hash option" where
  "computeTxID C txData = (case DeserializeTx txData of Inl _ \<Rightarrow> None | Inr tx \<Rightarrow> TxID C tx)"

text \<open>An output the wallet really owns: it knows the key and the opening of the commitment.\<close>

definition genuine :: "TransferConfig \<Rightarrow> OwnedOutput \<Rightarrow> bool" where
  "genuine cfg out \<longleftrightarrow> oo_Commitment out = tc_CreateCommitment cfg (oo_Amount out) (oo_Blinding out)
     \<and> (\<exists>toPoint. tc_ScalarToPoint cfg = Some toPoint \<and> toPoint (oo_OneTimePrivKey out) = Some (oo_OneTimePubKey out))"

section \<open>Amounts\<close>

abbreviation total_amount :: "u64 list \<Rightarrow> nat" where
  "total_amount xs \<equiv> sum_list (map unat xs)"

lemma sum_checked_Some: "sum_checked acc xs = Some t \<Longrightarrow> unat t = unat acc + total_amount xs"
  by (induction xs arbitrary: acc) (auto simp: AddU64_def unat_add_no_wrap split: if_splits)

lemma AddU64_ok: "AddU64 a b = (s, True) \<Longrightarrow> unat s = unat a + unat b"
  by (auto simp: AddU64_def unat_add_no_wrap)

lemma change_exact:
  assumes "AddU64 send fee = (need, True)" "need \<le> tot"
  shows "unat tot = unat send + unat fee + unat (tot - send - fee)"
proof -
  have n: "unat need = unat send + unat fee" using AddU64_ok [OF assms(1)] .
  have t: "unat need \<le> unat tot" using assms(2) by (simp add: word_le_nat_alt)
  have "send \<le> tot" using n t by (simp add: word_le_nat_alt)
  then have s: "unat (tot - send) = unat tot - unat send" by (simp add: unat_sub)
  have "fee \<le> tot - send" using n t s by (simp add: word_le_nat_alt)
  then show ?thesis using n t s by (simp add: unat_sub)
qed

lemma u64_of_nat: "n < 2 ^ 64 \<Longrightarrow> unat (word_of_nat n :: u64) = n"
  by (simp add: unat_of_nat)

lemma word_of_nat_unat_less: "n \<le> unat (x :: u64) \<Longrightarrow> unat (word_of_nat n :: u64) = n"
  using unat_bound [of x] by (intro u64_of_nat) auto

lemma sum_list_first: "(\<Sum>c\<leftarrow>[0..<n]. if c = 0 then a + r else a) = (if n = 0 then 0 else n * a + r)" for a r :: nat
proof (induction n)
  case (Suc n)
  then show ?case by (cases n) auto
qed simp

lemma change_recipients_total:
  assumes "0 < m" "m < 2 ^ 64"
  shows "total_amount (map rc_Amount (change_recipients keys m change)) = unat change"
    and "length (change_recipients keys m change) \<le> m"
    and "change \<noteq> 0 \<Longrightarrow> change_recipients keys m change \<noteq> []"
proof -
  define n where "n = (if change < word_of_nat m then unat change else m)"
  have um: "unat (word_of_nat m :: u64) = m" using assms(2) by (rule u64_of_nat)
  have le: "n \<le> m" "n \<le> unat change" using um by (auto simp: n_def word_less_nat_alt)
  have un: "unat (word_of_nat n :: u64) = n" using le(2) by (rule word_of_nat_unat_less)
  have pos: "0 < n" if "change \<noteq> 0" using that assms(1) by (simp add: n_def unat_gt_0)
  let ?per = "change div word_of_nat n" and ?rem = "change mod word_of_nat n"
  have d: "unat ?per = unat change div n" "unat ?rem = unat change mod n" by (simp_all add: unat_div unat_mod un)
  have "unat ?per + unat ?rem \<le> unat change" if "change \<noteq> 0"
  proof -
    have "unat change div n \<le> n * (unat change div n)" using pos [OF that] by simp
    then show ?thesis using d mult_div_mod_eq [of n "unat change"] by linarith
  qed
  then have first: "unat (?per + ?rem) = unat ?per + unat ?rem" if "change \<noteq> 0"
    using that unat_bound [of change] by (intro unat_add_no_wrap) (auto intro: le_less_trans)
  have "total_amount (map rc_Amount (change_recipients keys m change)) = (\<Sum>c\<leftarrow>[0..<n]. if c = 0 then unat ?per + unat ?rem else unat ?per)"
    if "change \<noteq> 0"
    using first [OF that] that by (auto simp: change_recipients_def Let_def n_def [symmetric] comp_def intro!: arg_cong [where f = sum_list])
  then show "total_amount (map rc_Amount (change_recipients keys m change)) = unat change"
    using pos d mult_div_mod_eq [of n "unat change"] by (cases "change = 0") (auto simp: sum_list_first change_recipients_def)
  show "length (change_recipients keys m change) \<le> m" using le by (simp add: change_recipients_def Let_def n_def)
  show "change \<noteq> 0 \<Longrightarrow> change_recipients keys m change \<noteq> []"
    using pos by (auto simp: change_recipients_def Let_def n_def [symmetric])
qed

section \<open>Outputs\<close>

definition built_output :: "crypto \<Rightarrow> TransferConfig \<Rightarrow> outputData \<Rightarrow> bool" where
  "built_output C cfg out \<longleftrightarrow> wf_output (TxOutput.truncate out)
     \<and> VerifyRangeProof C (Commitment out) (RangeProof out) = Inr ()
     \<and> Commitment out = tc_CreateCommitment cfg (bo_amount out) (bo_blinding out)"

lemma length_encryptAmount: "sha3_32 C \<Longrightarrow> length (encryptAmount C a b i) = 8"
  by (simp add: encryptAmount_def amountMask_def length_xor_bytes sha3_len PutUint64_def)

lemma make_output_ok:
  assumes "sha3_32 C" "cfg_sizes cfg" "range_prover C cfg" "make_output C t cfg pad ix r i p = Inr out"
  shows "built_output C cfg out \<and> bo_amount out = rc_Amount p"
proof -
  obtain secret key rp memo where o: "tc_PointAdd cfg (fst key) (snd key) = Some (PublicKey out)"
      "tc_CreateRangeProof cfg i (rc_Amount p) (bo_blinding out) = Some rp"
      "EncryptMemo C t (pad i) (rc_Memo p) secret (word_of_nat i) = Inr memo"
      "RangeProof out = rp" "EncryptedMemo out = memo" "bo_amount out = rc_Amount p"
      "Commitment out = tc_CreateCommitment cfg (rc_Amount p) (bo_blinding out)"
      "EncryptedAmount out = encryptAmount C (rc_Amount p) (bo_blinding out) (word_of_nat i)"
    using assms(4) by (auto simp: make_output_def Let_def split: option.splits sum.splits)
  have "length memo = MemoSize" using memo_opens [OF assms(1) o(3)] by simp
  then show ?thesis
    using o assms(2) assms(3) [unfolded range_prover_def, rule_format, OF o(2)] length_encryptAmount [OF assms(1)]
    by (auto simp: built_output_def wf_output_def go_output_def TxOutput.truncate_def cfg_sizes_def VerifyRangeProof_def maxProofSize_def)
qed

lemma make_outputs_ok:
  assumes "sha3_32 C" "cfg_sizes cfg" "range_prover C cfg"
  shows "make_outputs C t cfg pad ix r i ps = Inr os
    \<Longrightarrow> list_all (built_output C cfg) os \<and> map bo_amount os = map rc_Amount ps"
proof (induction ps arbitrary: i os)
  case (Cons p ps)
  then obtain out rest where "make_output C t cfg pad ix r i p = Inr out" "make_outputs C t cfg pad ix r (Suc i) ps = Inr rest"
    "os = out # rest" by (cases "make_outputs C t cfg pad ix r (Suc i) ps") (auto split: sum.splits)
  then show ?case using Cons.IH make_output_ok [OF assms] by auto
qed simp

section \<open>Blindings\<close>

lemma pedersen_blindings:
  assumes "pedersen C cfg valid pt hv gs"
  shows "tc_BlindingAdd cfg a b = Some c \<Longrightarrow> gs c = gs a + gs b" "tc_BlindingSub cfg a b = Some c \<Longrightarrow> gs c = gs a - gs b"
    "gs zero_hash = 0"
  using assms by (auto simp: pedersen_def)

lemma sum_blindings_from_ok:
  "pedersen C cfg valid pt hv gs \<Longrightarrow> sum_blindings_from cfg i acc bs = Inr s \<Longrightarrow> gs s = gs acc + sum_list (map gs bs)"
  by (induction bs arbitrary: i acc) (auto simp: pedersen_blindings add.assoc split: option.splits)

lemma sumBlindings_ok: "pedersen C cfg valid pt hv gs \<Longrightarrow> sumBlindings cfg bs = Inr s \<Longrightarrow> gs s = sum_list (map gs bs)"
  by (cases bs) (auto simp: sumBlindings_def sum_blindings_from_ok pedersen_blindings)

lemma random_blindings_ok:
  "pedersen C cfg valid pt hv gs \<Longrightarrow> random_blindings cfg i acc n = Some (rs, s)
   \<Longrightarrow> gs s = gs acc + sum_list (map gs rs) \<and> length rs = n"
  by (induction n arbitrary: i acc rs s) (fastforce simp: Let_def pedersen_blindings add.assoc split: option.splits)+

lemma distributeBlindings_ok:
  assumes "pedersen C cfg valid pt hv gs" "distributeBlindings cfg target n = Inr bs"
  shows "length bs = n" "0 < n \<Longrightarrow> sum_list (map gs bs) = gs target"
proof -
  consider "n = 0" "bs = []" | "n = 1" "bs = [target]" | rs s l where "1 < n" "random_blindings cfg 0 zero_hash (n - 1) = Some (rs, s)"
      "tc_BlindingSub cfg target s = Some l" "bs = rs @ [l]"
    using assms(2) by (auto simp: distributeBlindings_def split: if_splits option.splits)
  then have "length bs = n \<and> (0 < n \<longrightarrow> sum_list (map gs bs) = gs target)"
  proof cases
    case 3
    then show ?thesis using random_blindings_ok [OF assms(1) 3(2)] pedersen_blindings [OF assms(1)] by auto
  qed auto
  then show "length bs = n" "0 < n \<Longrightarrow> sum_list (map gs bs) = gs target" by auto
qed

section \<open>Balance\<close>

lemma hv_sum:
  assumes "pedersen C cfg valid pt hv gs"
  shows "hv (sum_list ns) = sum_list (map hv ns)"
proof -
  have add: "hv (m + n) = hv m + hv n" for m n using assms by (auto simp: pedersen_def)
  then have "hv 0 = 0" using add [of 0 0] by simp
  then show ?thesis by (induction ns) (auto simp: add)
qed

lemma hv_amounts:
  "pedersen C cfg valid pt hv gs \<Longrightarrow> sum_list (map (\<lambda>x. hv (unat (f x))) xs) = hv (total_amount (map f xs))"
  using hv_sum [of C cfg valid pt hv gs "map (unat \<circ> f) xs"] by (simp add: comp_def)

lemma pedersen_ops:
  assumes "pedersen C cfg valid pt hv gs"
  shows "valid a \<Longrightarrow> valid b \<Longrightarrow> \<exists>c. blocknet_commitment_add C a b = Some c \<and> valid c \<and> pt c = pt a + pt b"
    and "valid a \<Longrightarrow> valid b \<Longrightarrow> \<exists>c. blocknet_commitment_sub C a b = Some c \<and> valid c \<and> pt c = pt a - pt b"
    and "valid a \<Longrightarrow> blocknet_commitment_is_zero C a = (pt a = 0)"
    and "\<exists>c. blocknet_fee_commitment C f = Some c \<and> valid c \<and> pt c = hv (unat f)"
    and "valid (tc_CreateCommitment cfg v k)" and "pt (tc_CreateCommitment cfg v k) = hv (unat v) + gs k"
  using assms unfolding pedersen_def by blast+

lemma sum_commitments_ok:
  assumes "pedersen C cfg valid pt hv gs"
  shows "valid acc \<Longrightarrow> list_all valid cs \<Longrightarrow> \<exists>s. sum_commitments C bad i acc cs = Inr s \<and> valid s \<and> pt s = pt acc + sum_list (map pt cs)"
proof (induction cs arbitrary: i acc)
  case (Cons c cs)
  then obtain a where "blocknet_commitment_add C acc c = Some a" "valid a" "pt a = pt acc + pt c"
    using pedersen_ops(1) [OF assms, of acc c] by auto
  then show ?case using Cons.IH [of a "Suc i"] Cons.prems by (auto simp: CommitmentAdd_def add.assoc)
qed simp

lemma balance_ok:
  assumes ped: "pedersen C cfg valid pt hv gs" and ne: "Outputs tx \<noteq> []" "Inputs tx \<noteq> []"
    and v: "\<forall>o1 \<in> set (Outputs tx). valid (Commitment o1)" "\<forall>i \<in> set (Inputs tx). valid (PseudoOutput i)"
    and eq: "sum_list (map (pt \<circ> PseudoOutput) (Inputs tx)) = sum_list (map (pt \<circ> Commitment) (Outputs tx)) + hv (unat (Fee tx))"
  shows "verifyCommitmentBalance C tx = Inr ()"
proof -
  obtain c cs where c: "map Commitment (Outputs tx) = c # cs" using ne(1) by (cases "Outputs tx") auto
  obtain p ps where p: "map PseudoOutput (Inputs tx) = p # ps" using ne(2) by (cases "Inputs tx") auto
  have vc: "list_all valid (c # cs)" "list_all valid (p # ps)"
    using v by (simp_all add: c [symmetric] p [symmetric] list_all_iff)
  obtain P where P: "sum_commitments C BadPseudoOutput 1 p ps = Inr P" "valid P" "pt P = sum_list (map pt (p # ps))"
    using sum_commitments_ok [OF ped, of p ps BadPseudoOutput 1] vc by auto
  obtain S where S: "sum_commitments C BadCommitmentPoint 1 c cs = Inr S" "valid S" "pt S = sum_list (map pt (c # cs))"
    using sum_commitments_ok [OF ped, of c cs BadCommitmentPoint 1] vc by auto
  obtain f where f: "blocknet_fee_commitment C (Fee tx) = Some f" "valid f" "pt f = hv (unat (Fee tx))"
    using pedersen_ops(4) [OF ped, of "Fee tx"] by auto
  obtain F where F: "blocknet_commitment_add C S f = Some F" "valid F" "pt F = pt S + pt f"
    using pedersen_ops(1) [OF ped S(2) f(2)] by auto
  obtain D where D: "blocknet_commitment_sub C P F = Some D" "valid D" "pt D = pt P - pt F"
    using pedersen_ops(2) [OF ped P(2) F(2)] by auto
  have "pt D = 0" using eq by (simp add: D(3) F(3) f(3) P(3) S(3) map_map [symmetric] c p del: map_map list.map)
  then have "CommitmentIsZero C D" using pedersen_ops(3) [OF ped D(2)] by (simp add: CommitmentIsZero_def)
  then show ?thesis
    using P(1) S(1) f(1) F(1) D(1)
    by (simp add: verifyCommitmentBalance_def c p CreateFeeCommitment_def CommitmentAdd_def CommitmentSub_def del: One_nat_def)
qed

section \<open>Serialisation agrees with the node\<close>

lemma prefix_is_signing_prefix:
  "TxVersion tx = 1 \<Longrightarrow> serializeTxPrefix (TxPublicKey tx) (length (Inputs tx)) (Outputs tx) (Fee tx) = signing_prefix tx"
  by (simp add: serializeTxPrefix_def signing_prefix_def prefix_chunks_def)

lemma signing_prefix_aligned:
  assumes "go_tx tx"
  shows "signing_prefix tx = Some (enc_prefix tx @ concat (map enc_output (Outputs tx)))"
proof -
  have "sum_list (map (chunks_len \<circ> output_chunks) (Outputs tx)) = sum_list (map output_size (Outputs tx))"
    using assms by (intro sum_list_map_cong) (auto simp: go_tx_def list_all_iff chunks_len_output)
  then have "chunks_len (prefix_chunks tx @ concat (map output_chunks (Outputs tx)))
      = 1 + 32 + 4 + 4 + 8 + sum_list (map output_size (Outputs tx))"
    using assms by (simp add: chunks_len_concat chunks_len_prefix go_tx_def)
  then have "signing_prefix tx = Some (concat (map chunk_data (prefix_chunks tx @ concat (map output_chunks (Outputs tx)))))"
    unfolding signing_prefix_def by (intro fill_buf_exact) (simp add: chunks_len_def)
  then show ?thesis by (simp add: enc_prefix_def concat_chunks enc_output_def cong: map_cong)
qed

lemma serializeTx_is_Serialize:
  assumes "TxVersion tx = 1" "go_tx tx" "rings_aligned tx"
  shows "serializeTx (TxPublicKey tx) (Inputs tx) (Outputs tx) (Fee tx) = Serialize tx"
proof -
  let ?p = "enc_prefix tx @ concat (map enc_output (Outputs tx))"
  have "sum_list (map (chunks_len \<circ> input_chunks) (Inputs tx)) = sum_list (map built_input_size (Inputs tx))"
    using assms(2,3) by (intro sum_list_map_cong)
      (auto simp: go_tx_def rings_aligned_def list_all_iff chunks_len_input built_input_size_def input_size_def Let_def)
  then have "fill_buf (sum_list (map built_input_size (Inputs tx))) (concat (map input_chunks (Inputs tx)))
      = Some (concat (map chunk_data (concat (map input_chunks (Inputs tx)))))"
    by (intro fill_buf_exact) (simp add: chunks_len_concat chunks_len_def [symmetric])
  then have "serializeTx (TxPublicKey tx) (Inputs tx) (Outputs tx) (Fee tx) = Some (?p @ concat (map enc_input (Inputs tx)))"
    by (simp add: serializeTx_def prefix_is_signing_prefix [OF assms(1)] signing_prefix_aligned [OF assms(2)] concat_chunks enc_input_def
        cong: map_cong)
  then show ?thesis using Serialize_aligned [OF assms(2,3)] by (simp add: enc_tx_def)
qed

section \<open>Inputs\<close>

definition signed_input :: "crypto \<Rightarrow> (hash \<Rightarrow> hash \<Rightarrow> bool) \<Rightarrow> hash \<Rightarrow> TxInput \<Rightarrow> bool" where
  "signed_input C canon prefixHash inp \<longleftrightarrow> wf_input inp \<and> length (RingMembers inp) = RingSize \<and> length (RingCommitments inp) = RingSize
     \<and> (\<forall>j < RingSize. canon (RingMembers inp ! j) (RingCommitments inp ! j))
     \<and> VerifyRingCT C (RingMembers inp) (RingCommitments inp) prefixHash \<lparr>Signature = RingSignature inp, SigRingSize = RingSize\<rparr> = Inr ()
     \<and> ExtractRingCTBinding \<lparr>Signature = RingSignature inp, SigRingSize = RingSize\<rparr> = Inr (KeyImage inp, PseudoOutput inp)"

lemma sign_input_ok:
  assumes sizes: "cfg_sizes cfg" and sign: "ring_signer C cfg" and ring: "ring_source cfg canon"
    and gen: "genuine cfg inp" and ph: "length ph = 32"
    and sel: "tc_SelectRingMembers cfg i (oo_OneTimePubKey inp) (oo_Commitment inp) = Some (ks, cs, j)"
    and sig: "tc_SignRingCT cfg i ks cs j (oo_OneTimePrivKey inp) (oo_Blinding inp) (tc_CreateCommitment cfg (oo_Amount inp) pb) pb ph = Some (sg, ki)"
  shows "signed_input C canon ph \<lparr>KeyImage = ki, RingMembers = ks, RingCommitments = cs,
    PseudoOutput = tc_CreateCommitment cfg (oo_Amount inp) pb, RingSignature = sg\<rparr>"
proof -
  obtain toPoint where tp: "tc_ScalarToPoint cfg = Some toPoint" "toPoint (oo_OneTimePrivKey inp) = Some (oo_OneTimePubKey inp)"
    and com: "oo_Commitment inp = tc_CreateCommitment cfg (oo_Amount inp) (oo_Blinding inp)" using gen by (auto simp: genuine_def)
  have r: "length ks = RingSize" "length cs = RingSize" "j < RingSize" "ks ! j = oo_OneTimePubKey inp" "cs ! j = oo_Commitment inp"
      "\<forall>x \<in> set ks \<union> set cs. length x = 32" "\<forall>i < RingSize. canon (ks ! i) (cs ! i)"
    using ring sel by (auto simp: ring_source_def)
  have s: "length sg = 96 + 64 * RingSize" "blocknet_ringct_verify C (concat ks) (concat cs) RingSize ph sg"
      "take 32 (drop (32 + 64 * RingSize) sg) = ki" "take 32 (drop (64 + 64 * RingSize) sg) = tc_CreateCommitment cfg (oo_Amount inp) pb"
    using sign [unfolded ring_signer_def, rule_format, OF tp(1) sig r(1-3)] tp(2) r(4,5) com by auto
  have ki: "length ki = 32" using sizes sig by (auto simp: cfg_sizes_def)
  have ne: "ph \<noteq> []" "sg \<noteq> []" using ph s(1) by auto
  have lc: "length (tc_CreateCommitment cfg (oo_Amount inp) pb) = 32" using sizes by (simp add: cfg_sizes_def)
  then have "ExtractRingCTBinding \<lparr>Signature = sg, SigRingSize = RingSize\<rparr> = Inr (ki, tc_CreateCommitment cfg (oo_Amount inp) pb)"
    using s by (simp add: ExtractRingCTBinding_def Let_def RingSize_def)
  moreover have "VerifyRingCT C ks cs ph \<lparr>Signature = sg, SigRingSize = RingSize\<rparr> = Inr ()"
    using r(1,2) s(2) ne by (simp add: VerifyRingCT_def Let_def RingSize_def)
  ultimately show ?thesis
    using r s(1) ki lc by (auto simp: signed_input_def wf_input_def go_input_def maxRingSize_def maxSigSize_def)
qed

lemma sign_inputs_ok:
  assumes laws: "cfg_sizes cfg" "ring_signer C cfg" "ring_source cfg canon" and ph: "length ph = 32"
  shows "sign_inputs cfg ph i ips = Inr ins \<Longrightarrow> list_all (\<lambda>(inp, pb). genuine cfg inp) ips
    \<Longrightarrow> list_all (signed_input C canon ph) ins \<and> map PseudoOutput ins = map (\<lambda>(inp, pb). tc_CreateCommitment cfg (oo_Amount inp) pb) ips"
proof (induction ips arbitrary: i ins)
  case (Cons ip rest)
  obtain inp pb where ip: "ip = (inp, pb)" by fastforce
  obtain ks cs j sg ki ins' where r: "tc_SelectRingMembers cfg i (oo_OneTimePubKey inp) (oo_Commitment inp) = Some (ks, cs, j)"
      "tc_SignRingCT cfg i ks cs j (oo_OneTimePrivKey inp) (oo_Blinding inp) (tc_CreateCommitment cfg (oo_Amount inp) pb) pb ph = Some (sg, ki)"
      "sign_inputs cfg ph (Suc i) rest = Inr ins'"
      "ins = \<lparr>KeyImage = ki, RingMembers = ks, RingCommitments = cs, PseudoOutput = tc_CreateCommitment cfg (oo_Amount inp) pb, RingSignature = sg\<rparr> # ins'"
    using Cons.prems(1) by (cases "sign_inputs cfg ph (Suc i) rest") (auto simp: ip Let_def split: option.splits)
  have "genuine cfg inp" using Cons.prems(2) ip by simp
  from sign_input_ok [OF laws this ph r(1,2)] show ?case using Cons.IH [OF r(3)] Cons.prems(2) r(4) ip by simp
qed simp

section \<open>The built transaction\<close>

definition laws_ok :: "crypto \<Rightarrow> TransferConfig \<Rightarrow> (hash \<Rightarrow> hash \<Rightarrow> bool) \<Rightarrow> bool" where
  "laws_ok C cfg canon \<longleftrightarrow> sha3_32 C \<and> cfg_sizes cfg \<and> range_prover C cfg \<and> ring_signer C cfg \<and> ring_source cfg canon
     \<and> tc_ComputeTxID cfg = computeTxID C"

text \<open>What the node sees of a result: the transaction it decodes, which is valid as far as its outputs' memos are not all zero,
  its key images are distinct and not spent.\<close>

definition node_accepts :: "crypto \<Rightarrow> (hash \<Rightarrow> hash \<Rightarrow> bool) \<Rightarrow> bytes \<Rightarrow> hash \<Rightarrow> Transaction \<Rightarrow> bool" where
  "node_accepts C canon txData txID tx \<longleftrightarrow> DeserializeTx txData = Inr tx \<and> TxID C tx = Some txID
     \<and> (\<forall>isSpent. zeroMemo \<notin> EncryptedMemo ` set (Outputs tx) \<longrightarrow> distinct (map KeyImage (Inputs tx))
          \<longrightarrow> (\<forall>inp \<in> set (Inputs tx). \<not> isSpent (KeyImage inp)) \<longrightarrow> tx_valid C tx isSpent canon)"

lemma sum_list_zip_add:
  "length xs = length ys \<Longrightarrow> sum_list (map (\<lambda>(x, y). f x + g y) (zip xs ys)) = sum_list (map f xs) + sum_list (map g ys)"
  for f :: "'a \<Rightarrow> 'g::ab_group_add"
  by (induction xs ys rule: list_induct2) (simp_all add: algebra_simps)

lemma sum_list_map_add: "sum_list (map (\<lambda>x. f x + g x) xs) = sum_list (map f xs) + sum_list (map g xs)" for f g :: "'a \<Rightarrow> 'g::ab_group_add"
  by (induction xs) (simp_all add: algebra_simps)

text \<open>The pseudo-outputs carry what the outputs and the fee carry.\<close>

lemma commitments_equal:
  assumes ped: "pedersen C cfg valid pt hv gs" and outs: "list_all (built_output C cfg) os"
    and tb: "sumBlindings cfg (map bo_blinding os) = Inr tb" "distributeBlindings cfg tb (length inputs) = Inr pbs" "0 < length inputs"
    and pseudo: "pseudos = map (\<lambda>(inp, pb). tc_CreateCommitment cfg (oo_Amount inp) pb) (zip inputs pbs)"
    and sum: "total_amount (map oo_Amount inputs) = total_amount (map bo_amount os) + fee"
  shows "sum_list (map pt pseudos) = sum_list (map (pt \<circ> Commitment) os) + hv fee"
proof -
  note pb = distributeBlindings_ok [OF ped tb(2)]
  note amounts = hv_amounts [OF ped]
  have "sum_list (map pt pseudos) = sum_list (map (\<lambda>(inp, pb). hv (unat (oo_Amount inp)) + gs pb) (zip inputs pbs))"
    by (simp add: pseudo comp_def split_def pedersen_ops(6) [OF ped])
  also have "\<dots> = hv (total_amount (map oo_Amount inputs)) + sum_list (map gs pbs)"
    using pb(1) by (simp add: sum_list_zip_add amounts)
  also have "\<dots> = hv (total_amount (map bo_amount os)) + sum_list (map gs (map bo_blinding os)) + hv fee"
    using hv_sum [OF ped, of "[total_amount (map bo_amount os), fee]"] sumBlindings_ok [OF ped tb(1)] pb(2) tb(3) sum
    by (simp add: algebra_simps)
  also have "hv (total_amount (map bo_amount os)) + sum_list (map gs (map bo_blinding os)) = sum_list (map (pt \<circ> Commitment) os)"
    using outs amounts [of bo_amount os] unfolding comp_def map_map
    by (simp add: list_all_iff built_output_def pedersen_ops(6) [OF ped] sum_list_map_add cong: map_cong)
  finally show ?thesis .
qed

lemma finish_tx_valid:
  assumes laws: "laws_ok C cfg canon" and ped: "pedersen C cfg valid pt hv gs"
    and gen: "list_all (genuine cfg) inputs" and outs: "list_all (built_output C cfg) os"
    and lim: "0 < length inputs" "length inputs \<le> 256" "os \<noteq> []" "length os \<le> 256" and pub: "length txPub = 32"
    and sum: "total_amount (map oo_Amount inputs) = total_amount (map bo_amount os) + unat fee"
    and fin: "finish_tx C cfg inputs os txPub fee = Inr (txData, txID)"
  shows "\<exists>tx. node_accepts C canon txData txID tx \<and> Fee tx = fee \<and> TxPublicKey tx = txPub \<and> Outputs tx = map TxOutput.truncate os
    \<and> length (Inputs tx) = length inputs"
proof -
  have l: "sha3_32 C" "cfg_sizes cfg" "ring_signer C cfg" "ring_source cfg canon" "tc_ComputeTxID cfg = computeTxID C"
    using laws by (auto simp: laws_ok_def)
  obtain tb pbs prefix ins where f: "sumBlindings cfg (map bo_blinding os) = Inr tb" "distributeBlindings cfg tb (length inputs) = Inr pbs"
      "serializeTxPrefix txPub (length inputs) (map TxOutput.truncate os) fee = Some prefix"
      "sign_inputs cfg (sha3_Sum256 C prefix) 0 (zip inputs pbs) = Inr ins"
      "serializeTx txPub ins (map TxOutput.truncate os) fee = Some txData" "tc_ComputeTxID cfg txData = Some txID"
    using fin by (auto simp: finish_tx_def split: sum.splits option.splits)
  note pb = distributeBlindings_ok [OF ped f(2)]
  have g: "list_all (\<lambda>(inp, pb). genuine cfg inp) (zip inputs pbs)" using gen by (auto simp: list_all_iff dest: set_zip_leftD)
  have si: "list_all (signed_input C canon (sha3_Sum256 C prefix)) ins"
      "map PseudoOutput ins = map (\<lambda>(inp, pb). tc_CreateCommitment cfg (oo_Amount inp) pb) (zip inputs pbs)"
    using sign_inputs_ok [OF l(2,3,4) sha3_len [OF l(1)] f(4) g] by auto
  have len: "length ins = length inputs" using arg_cong [OF si(2), of length] pb(1) by simp
  define tx where "tx = \<lparr>TxVersion = 1, Inputs = ins, Outputs = map TxOutput.truncate os, Fee = fee, TxPublicKey = txPub\<rparr>"
  have wf: "wf_tx tx" using si(1) outs lim pub len
    by (auto simp: tx_def wf_tx_def maxInputs_def maxOutputs_def list_all_iff signed_input_def built_output_def)
  have "Serialize tx = Some txData"
    using serializeTx_is_Serialize [of tx] wf_tx_go [OF wf] f(5) by (simp add: tx_def)
  then have dec: "DeserializeTx txData = Inr tx"
    using DeserializeTx_enc_tx [OF wf] Serialize_aligned [of tx] wf_tx_go [OF wf] by simp
  have "signing_prefix tx = Some prefix" using prefix_is_signing_prefix [of tx] f(3) len by (auto simp: tx_def)
  then have sh: "SigningHash C tx = Some (sha3_Sum256 C prefix)" by (simp add: SigningHash_def)
  have bal: "verifyCommitmentBalance C tx = Inr ()"
  proof (rule balance_ok [OF ped])
    show "Outputs tx \<noteq> []" "Inputs tx \<noteq> []" using lim len by (auto simp: tx_def)
    show "\<forall>o1 \<in> set (Outputs tx). valid (Commitment o1)"
      using outs pedersen_ops(5) [OF ped] by (auto simp: tx_def list_all_iff built_output_def TxOutput.truncate_def)
    have "PseudoOutput i \<in> set (map PseudoOutput ins)" if "i \<in> set ins" for i using that by simp
    then show "\<forall>i \<in> set (Inputs tx). valid (PseudoOutput i)"
      unfolding si(2) using pedersen_ops(5) [OF ped] by (fastforce simp: tx_def)
    show "sum_list (map (pt \<circ> PseudoOutput) (Inputs tx)) = sum_list (map (pt \<circ> Commitment) (Outputs tx)) + hv (unat (Fee tx))"
      using commitments_equal [OF ped outs f(1,2) lim(1) si(2) sum]
      by (simp add: tx_def comp_def TxOutput.truncate_def)
  qed
  have "tx_valid C tx isSpent canon" if "zeroMemo \<notin> EncryptedMemo ` set (Outputs tx)" "distinct (map KeyImage (Inputs tx))"
      "\<forall>inp \<in> set (Inputs tx). \<not> isSpent (KeyImage inp)" for isSpent
    using that si(1) outs bal sh lim len
    by (auto simp: tx_valid_def spend_valid_def input_valid_def signed_input_def list_all_iff built_output_def tx_def IsCoinbase_def
        TxOutput.truncate_def image_iff)
  moreover have "TxID C tx = Some txID" using f(6) l(5) dec by (simp add: computeTxID_def)
  ultimately have "node_accepts C canon txData txID tx" using dec by (auto simp: node_accepts_def)
  then show ?thesis using len by (intro exI [of _ tx]) (simp add: tx_def)
qed

end
