(* ===== verification/TransferProps.thy ===== *)
theory TransferProps
  imports BuilderProps
begin

text \<open>
  Transfers end to end: selecting and reserving inputs, the fee loop, building, and what is left reserved.
\<close>

section \<open>Building from selected inputs\<close>

lemma deriveR_len: "cfg_sizes cfg \<Longrightarrow> deriveDeterministicR cfg keys inputs = Some (r, R) \<Longrightarrow> length R = 32"
  by (auto simp: deriveDeterministicR_def cfg_sizes_def split: option.splits)

text \<open>The transaction's first outputs are the ones made for the recipients, under its own key pair.\<close>

definition pays :: "crypto \<Rightarrow> bool \<Rightarrow> TransferConfig \<Rightarrow> memo_rand \<Rightarrow> Recipient list \<Rightarrow> Transaction \<Rightarrow> bool" where
  "pays C t cfg pad rs tx \<longleftrightarrow> (\<exists>keys inputs ix r paid changed. deriveDeterministicR cfg keys inputs = Some (r, TxPublicKey tx)
     \<and> make_outputs C t cfg pad ix r 0 rs = Inr paid \<and> Outputs tx = map TxOutput.truncate (paid @ changed))"

lemma buildTransaction_valid:
  assumes laws: "laws_ok C cfg canon" and ped: "pedersen C cfg valid pt hv gs"
    and gen: "list_all (genuine cfg) inputs" and lim: "0 < length inputs" "length inputs \<le> 256" "rs \<noteq> []"
    and split: "1 \<le> changeSplit" "length rs + nat changeSplit \<le> 256"
    and send: "unat totalSend = total_amount (map rc_Amount rs)"
    and built: "buildTransaction C t cfg pad keys inputs rs totalSend fee lease changeSplit h = Inr res"
  shows "(\<exists>tx. node_accepts C canon (tr_TxData res) (tr_TxID res) tx \<and> Fee tx = fee \<and> length (Inputs tx) = length inputs
      \<and> pays C t cfg pad rs tx \<and> length (Outputs tx) \<le> length rs + (if tr_Change res = 0 then 0 else nat changeSplit))
    \<and> total_amount (map oo_Amount inputs) = total_amount (map rc_Amount rs) + unat (tr_Change res) + unat fee
    \<and> tr_SpentOutputs res = inputs \<and> tr_InputLease res = lease \<and> tr_Fee res = fee"
proof -
  have l: "sha3_32 C" "cfg_sizes cfg" "range_prover C cfg" using laws by (auto simp: laws_ok_def)
  obtain tot need r R ix paid changed d i where b: "sum_checked 0 (map oo_Amount inputs) = Some tot" "AddU64 totalSend fee = (need, True)"
      "need \<le> tot" "deriveDeterministicR cfg keys inputs = Some (r, R)" "make_outputs C t cfg pad ix r 0 rs = Inr paid"
      "make_outputs C t cfg pad ix r (length paid) (change_recipients keys (nat changeSplit) (tot - totalSend - fee)) = Inr changed"
      "finish_tx C cfg inputs (paid @ changed) R fee = Inr (d, i)"
      and res: "res = \<lparr>tr_TxData = d, tr_TxID = i, tr_TxPrivKey = r, tr_SpentOutputs = inputs, tr_InputLease = lease, tr_Fee = fee,
        tr_Change = tot - totalSend - fee\<rparr>"
    using built split(1) by (auto simp: buildTransaction_def Let_def not_less split: option.splits sum.splits if_splits prod.splits)
  note p = make_outputs_ok [OF l b(5)] and c = make_outputs_ok [OF l b(6)]
  have m: "0 < nat changeSplit" "nat changeSplit < 2 ^ 64" using split by auto
  note cr = change_recipients_total [OF m, where keys = keys and change = "tot - totalSend - fee"]
  have len: "length paid = length rs" "length changed \<le> nat changeSplit" "tot - totalSend - fee = 0 \<Longrightarrow> changed = []"
    using p c cr(1,2) map_eq_imp_length_eq [of bo_amount paid rc_Amount rs]
      map_eq_imp_length_eq [of bo_amount changed rc_Amount "change_recipients keys (nat changeSplit) (tot - totalSend - fee)"]
    by (auto simp: change_recipients_def)
  have sum: "total_amount (map oo_Amount inputs) = total_amount (map rc_Amount rs) + unat (tot - totalSend - fee) + unat fee"
    using change_exact [OF b(2,3)] sum_checked_Some [OF b(1)] send by simp
  have "\<exists>tx. node_accepts C canon d i tx \<and> Fee tx = fee \<and> TxPublicKey tx = R
      \<and> Outputs tx = map TxOutput.truncate (paid @ changed) \<and> length (Inputs tx) = length inputs"
  proof (rule finish_tx_valid [OF laws ped gen _ lim(1,2) _ _ deriveR_len [OF l(2) b(4)] _ b(7)])
    show "list_all (built_output C cfg) (paid @ changed)" using p c by simp
    show "paid @ changed \<noteq> []" using len(1) lim(3) by auto
    show "length (paid @ changed) \<le> 256" using len split by simp
    show "total_amount (map oo_Amount inputs) = total_amount (map bo_amount (paid @ changed)) + unat fee"
      using sum p c cr(1) by simp
  qed
  then obtain tx where tx: "node_accepts C canon d i tx" "Fee tx = fee" "TxPublicKey tx = R"
      "Outputs tx = map TxOutput.truncate (paid @ changed)" "length (Inputs tx) = length inputs" by blast
  have "pays C t cfg pad rs tx" unfolding pays_def using b(4,5) tx(3,4) by blast
  then show ?thesis using tx len sum res by auto
qed

section \<open>The size of a built transaction\<close>

lemma input_size_bound: "wf_input inp \<Longrightarrow> input_size inp \<le> 32 + 32 + 4 + RingSize * 32 + RingSize * 32 + 4 + (96 + 64 * RingSize)"
  by (simp add: wf_input_def input_size_def maxRingSize_def maxSigSize_def Let_def)

lemma node_accepts_size:
  assumes "node_accepts C canon d i tx" "RingSize = tc_RingSize cfg"
    and "length (Outputs tx) \<le> n"
  shows "length d \<le> estimateTxSizeBytes (length (Inputs tx)) n (tc_RingSize cfg)"
proof -
  have d: "d = enc_tx tx" "wf_tx tx" using DeserializeTx_inv assms(1) by (auto simp: node_accepts_def)
  have "length d = Size tx"
    using Serialize_aligned [of tx] wf_tx_go [OF d(2)] d(1) length_fill_buf [of _ _ d] by (auto simp: Serialize_def Size_def)
  moreover have "sum_list (map output_size (Outputs tx)) \<le> length (Outputs tx) * (32 + 32 + 8 + MemoSize + 4 + 1024)"
    using d(2) by (intro sum_list_bound) (auto simp: wf_tx_def list_all_iff wf_output_def output_size_def maxProofSize_def)
  moreover have "sum_list (map input_size (Inputs tx)) \<le> length (Inputs tx) * (32 + 32 + 4 + RingSize * 32 + RingSize * 32 + 4 + (96 + 64 * RingSize))"
    using d(2) input_size_bound by (intro sum_list_bound) (simp add: wf_tx_def list_all_iff)
  moreover have "length (Outputs tx) * (32 + 32 + 8 + MemoSize + 4 + 1024) \<le> n * (32 + 32 + 8 + MemoSize + 4 + 1024)"
    using assms(3) by (rule mult_right_mono) simp
  ultimately show ?thesis unfolding estimateTxSizeBytes_def assms(2) Let_def Size_def by linarith
qed

section \<open>One reservation\<close>

definition env_ok :: "transfer_env \<Rightarrow> bool" where
  "env_ok env \<longleftrightarrow> (\<forall>k. rand_int (te_shuf env k) \<and> rand_int (te_rnd env k)) \<and> sort_slice (te_srt env)"

text \<open>Lease numbers in use are not above the counter.\<close>

definition leases_below :: "Wallet \<Rightarrow> bool" where
  "leases_below w \<longleftrightarrow> (\<forall>p r. w_inputReservations w p = Some r \<longrightarrow> unat (ir_lease r) \<le> unat (w_nextLease w))"

abbreviation reserve_in :: "transfer_env \<Rightarrow> nat \<Rightarrow> u64 \<Rightarrow> u64 \<Rightarrow> Wallet \<Rightarrow> Wallet \<times> lease_result" where
  "reserve_in env k h need w \<equiv> ReserveMatureInputs (te_shuf env k) (te_rnd env k) (te_srt env) (te_now env k) h need two_minutes w"

lemma two_minutes_ttl [simp]: "lease_ttl two_minutes = two_minutes"
  by (simp add: lease_ttl_def two_minutes_def)

lemma reserve_cases:
  assumes "wallet_ok w" "env_ok env"
  shows "reserve_in env k h need w = (w1, r) \<Longrightarrow> outputs w1 = outputs w \<and> w_data w1 = w_data w \<and> wallet_ok w1"
    and "reserve_in env k h need w = (w1, Inl e) \<Longrightarrow> w1 = drop_expired (te_now env k) w"
    and "reserve_in env k h need w = (w1, Inr (l, ins)) \<Longrightarrow> l = w_nextLease w + 1 \<and> w_nextLease w1 = l
      \<and> candidate_inputs h (drop_expired (te_now env k) w) ins \<and> ins \<noteq> [] \<and> length ins \<le> 256
      \<and> w_inputReservations w1 = reserve_outputs l (te_now env k + two_minutes) ins (w_inputReservations (drop_expired (te_now env k) w))"
proof -
  have r: "rand_int (te_shuf env k)" "rand_int (te_rnd env k)" "sort_slice (te_srt env)" using assms(2) by (auto simp: env_ok_def)
  let ?v = "drop_expired (te_now env k) w"
  note eq = ReserveMatureInputs_grants(1) [OF assms(1) r, of "te_now env k" h need two_minutes]
  note c = ReserveMatureInputs_grants(2) [OF assms(1) r, where now = "te_now env k" and h = h and target = need]
  note s = SelectInputs_length [OF r(3), where mem = "(!) (outputs ?v)" and available = "candidates h ?v" and target = need and
      shuf = "te_shuf env k" and rnd = "te_rnd env k"]
  show "reserve_in env k h need w = (w1, r) \<Longrightarrow> outputs w1 = outputs w \<and> w_data w1 = w_data w \<and> wallet_ok w1"
    using eq assms(1) by (auto simp: grant_lease_def Let_def drop_expired_def wallet_ok_def split: sum.splits)
  show "reserve_in env k h need w = (w1, Inl e) \<Longrightarrow> w1 = ?v"
    using eq by (auto simp: grant_lease_def Let_def split: sum.splits)
  show "reserve_in env k h need w = (w1, Inr (l, ins)) \<Longrightarrow> l = w_nextLease w + 1 \<and> w_nextLease w1 = l
      \<and> candidate_inputs h ?v ins \<and> ins \<noteq> [] \<and> length ins \<le> 256
      \<and> w_inputReservations w1 = reserve_outputs l (te_now env k + two_minutes) ins (w_inputReservations ?v)"
    using eq c s by (auto simp: grant_lease_def Let_def maxSelectedInputs_def drop_expired_def split: sum.splits)
qed

definition freed :: "u64 \<Rightarrow> Wallet \<Rightarrow> Wallet" where
  "freed lease w = (if lease \<noteq> 0 then ReleaseInputLease lease w else w)"

lemma release_on_error_freed: "release_on_error lease w r = (case r of Inl e \<Rightarrow> (freed lease w, Inl e) | Inr x \<Rightarrow> (w, Inr x))"
  by (simp add: release_on_error_def freed_def split: sum.split)

lemma freed_simps [simp]: "w_data (freed l w) = w_data w" "w_nextLease (freed l w) = w_nextLease w" "wallet_ok (freed l w) = wallet_ok w"
  by (simp_all add: freed_def ReleaseInputLease_def wallet_ok_def)

lemma leases_below_drop: "leases_below w \<Longrightarrow> leases_below (drop_expired now w)"
  by (auto simp: leases_below_def drop_expired_def split: option.splits if_splits)

lemma leases_below_freed: "leases_below w \<Longrightarrow> leases_below (freed l w)"
  by (auto simp: leases_below_def freed_def ReleaseInputLease_def drop_lease_def split: option.splits if_splits)

text \<open>Releasing a lease that was just granted gives back the unexpired reservations.\<close>

lemma reserve_then_free:
  assumes "wallet_ok w" "env_ok env" "leases_below w" "unat (w_nextLease w) + 1 < 2 ^ 64"
    and "reserve_in env k h need w = (w1, Inr (l, ins))"
  shows "unat (w_nextLease w1) = unat (w_nextLease w) + 1" "leases_below w1"
    "w_inputReservations (freed l w1) = w_inputReservations (drop_expired (te_now env k) w)"
proof -
  let ?v = "drop_expired (te_now env k) w"
  note g = reserve_cases(3) [OF assms(1,2,5)]
  show next1: "unat (w_nextLease w1) = unat (w_nextLease w) + 1" using g assms(4) by (simp add: unat_add_no_wrap)
  then have l: "unat l = unat (w_nextLease w) + 1" using g by simp
  have old: "unat (ir_lease r) < unat l" if "w_inputReservations ?v p = Some r" for p r
  proof -
    have "unat (ir_lease r) \<le> unat (w_nextLease ?v)" using leases_below_drop [OF assms(3)] that unfolding leases_below_def by blast
    then show ?thesis using l by (simp add: drop_expired_def)
  qed
  then show "leases_below w1" using g by (fastforce simp: leases_below_def reserve_outputs_apply split: if_splits)
  have "l \<noteq> 0" using l by auto
  moreover have "w_inputReservations ?v p = None" if "p \<in> outpoint ` set ins" for p
    using g that by (auto simp: candidate_inputs_def is_candidate_def)
  ultimately show "w_inputReservations (freed l w1) = w_inputReservations ?v"
    using g old by (fastforce simp: freed_def ReleaseInputLease_def drop_lease_def reserve_outputs_apply fun_eq_iff split: option.split)
qed

section \<open>The selection loop\<close>

text \<open>The reservations of before, apart from those that expired.\<close>

definition kept :: "transfer_env \<Rightarrow> Wallet \<Rightarrow> (reservedOutpoint \<rightharpoonup> inputReservation) \<Rightarrow> bool" where
  "kept env w0 m \<longleftrightarrow> (\<forall>p r. m p = Some r \<longrightarrow> w_inputReservations w0 p = Some r)
     \<and> (\<forall>p r. w_inputReservations w0 p = Some r \<longrightarrow> (\<forall>k. te_now env k \<le> ir_expiresAt r) \<longrightarrow> m p = Some r)"

definition loop_inv :: "transfer_env \<Rightarrow> Wallet \<Rightarrow> u64 \<Rightarrow> Wallet \<Rightarrow> nat \<Rightarrow> bool" where
  "loop_inv env w0 lease w n \<longleftrightarrow> w_data w = w_data w0 \<and> wallet_ok w \<and> leases_below w \<and> unat (w_nextLease w) + n < 2 ^ 64
     \<and> kept env w0 (w_inputReservations (freed lease w))"

text \<open>Inputs ready to be spent: different unspent outputs of the wallet, reserved under the lease, with a fee that covers the
  estimated size.\<close>

definition chosen :: "TransferConfig \<Rightarrow> transfer_env \<Rightarrow> nat \<Rightarrow> u64 \<Rightarrow> u64 \<Rightarrow> Wallet \<Rightarrow> OwnedOutput list \<Rightarrow> u64 \<Rightarrow> u64 \<Rightarrow> bool" where
  "chosen cfg env nrec send feeRate w ins fee lease \<longleftrightarrow> ins \<noteq> [] \<and> length ins \<le> 256 \<and> distinct (map outpoint ins)
     \<and> (\<exists>k. \<forall>out \<in> set ins. out \<in> set (outputs w) \<and> \<not> oo_Spent out
          \<and> w_inputReservations w (outpoint out) = Some \<lparr>ir_lease = lease, ir_expiresAt = te_now env k + two_minutes\<rparr>)
     \<and> (\<exists>oc. required_fee cfg feeRate (estimateTxSizeBytes (length ins) oc (tc_RingSize cfg)) \<le> fee \<and> nrec \<le> oc \<and> oc \<le> nrec + 1
          \<and> (unat send + unat fee < total_amount (map oo_Amount ins) \<longrightarrow> oc = nrec + 1))"

lemma drop_expired_Some:
  "w_inputReservations (drop_expired now w) p = Some r \<longleftrightarrow> w_inputReservations w p = Some r \<and> now \<le> ir_expiresAt r"
  by (auto simp: drop_expired_def not_less split: option.splits if_splits)

lemma kept_drop:
  assumes "kept env w0 (w_inputReservations w)"
  shows "kept env w0 (w_inputReservations (drop_expired (te_now env k) w))"
  using assms unfolding kept_def drop_expired_Some by blast

lemma loop_inv_reserve:
  assumes inv: "loop_inv env w0 lease w (Suc n)" and env: "env_ok env"
  shows "reserve_in env k h need (freed lease w) = (w1, Inl e) \<Longrightarrow> w_data w1 = w_data w0 \<and> kept env w0 (w_inputReservations w1)"
    and "reserve_in env k h need (freed lease w) = (w1, Inr (l, ins)) \<Longrightarrow> loop_inv env w0 l w1 n"
proof -
  let ?v = "freed lease w"
  have v: "wallet_ok ?v" "leases_below ?v" "unat (w_nextLease ?v) + 1 < 2 ^ 64" "w_data ?v = w_data w0"
      "kept env w0 (w_inputReservations ?v)"
    using inv by (auto simp: loop_inv_def leases_below_freed)
  show "reserve_in env k h need ?v = (w1, Inl e) \<Longrightarrow> w_data w1 = w_data w0 \<and> kept env w0 (w_inputReservations w1)"
    using reserve_cases(1,2) [OF v(1) env, of k h need w1] kept_drop [OF v(5), of k] v(4) by auto
  assume r: "reserve_in env k h need ?v = (w1, Inr (l, ins))"
  note f = reserve_then_free [OF v(1) env v(2,3) r]
  show "loop_inv env w0 l w1 n"
    using f reserve_cases(1) [OF v(1) env r] kept_drop [OF v(5), of k] v(4) inv
    by (auto simp: loop_inv_def)
qed

lemma reserve_chosen:
  assumes w: "wallet_ok w" and env: "env_ok env" and r: "reserve_in env k h need w = (w1, Inr (l, ins))"
    and fee: "required_fee cfg feeRate (estimateTxSizeBytes (length ins) oc (tc_RingSize cfg)) \<le> fee" "nrec \<le> oc" "oc \<le> nrec + 1"
      "unat send + unat fee < total_amount (map oo_Amount ins) \<Longrightarrow> oc = nrec + 1"
  shows "chosen cfg env nrec send feeRate w1 ins fee l"
proof -
  note g = reserve_cases(3) [OF w env r]
  have "\<forall>out \<in> set ins. out \<in> set (outputs w1) \<and> \<not> oo_Spent out
      \<and> w_inputReservations w1 (outpoint out) = Some \<lparr>ir_lease = l, ir_expiresAt = te_now env k + two_minutes\<rparr>"
    using g reserve_cases(1) [OF w env r] by (auto simp: candidate_inputs_def is_candidate_def reserve_outputs_apply)
  then show ?thesis using g fee by (auto simp: chosen_def candidate_inputs_def)
qed

lemma transfer_loop_ok:
  assumes env: "env_ok env"
  shows "\<lbrakk>loop_inv env w0 lease w n; n = 0 \<longrightarrow> chosen cfg env nrec send feeRate w inputs fee lease;
    transfer_loop cfg env k n nrec send feeRate h fee lease inputs w = (w', r)\<rbrakk>
    \<Longrightarrow> w_data w' = w_data w0 \<and> (case r of Inl e \<Rightarrow> kept env w0 (w_inputReservations w')
      | Inr (ins, fee', l) \<Rightarrow> kept env w0 (w_inputReservations (freed l w')) \<and> chosen cfg env nrec send feeRate w' ins fee' l)"
proof (induction n arbitrary: k fee lease inputs w)
  case 0
  then show ?case by (auto simp: loop_inv_def)
next
  case (Suc n)
  let ?v = "freed lease w"
  have v: "wallet_ok ?v" "w_data ?v = w_data w0" "kept env w0 (w_inputReservations ?v)" using Suc.prems(1) by (auto simp: loop_inv_def)
  obtain need ok where need: "AddU64 send fee = (need, ok)" by fastforce
  show ?case
  proof (cases ok)
    case False
    then show ?thesis using Suc.prems(3) need v by (auto simp: release_on_error_freed)
  next
    case ok: True
    obtain w1 res where res: "reserve_in env k h need ?v = (w1, res)" by fastforce
    show ?thesis
    proof (cases res)
      case (Inl e)
      then show ?thesis using Suc.prems(3) need ok res loop_inv_reserve(1) [OF Suc.prems(1) env, of k h need w1 e]
        by (auto simp: freed_def)
    next
      case (Inr g)
      obtain l ins where g: "g = (l, ins)" by fastforce
      have r1: "reserve_in env k h need ?v = (w1, Inr (l, ins))" using res Inr g by simp
      note inv1 = loop_inv_reserve(2) [OF Suc.prems(1) env r1]
      have i1: "w_data w1 = w_data w0" "kept env w0 (w_inputReservations (freed l w1))" using inv1 by (auto simp: loop_inv_def)
      show ?thesis
      proof (cases "sum_checked 0 (map oo_Amount ins)")
        case None
        then show ?thesis using Suc.prems(3) need ok r1 i1 by (auto simp: release_on_error_freed freed_def [of lease w])
      next
        case (Some tot)
        let ?oc = "if 0 < tot - send - fee then nrec + 1 else nrec"
        let ?req = "required_fee cfg feeRate (estimateTxSizeBytes (length ins) ?oc (tc_RingSize cfg))"
        have loop: "transfer_loop cfg env k (Suc n) nrec send feeRate h fee lease inputs w =
            (if tot < need then (freed l w1, Inl (ShortAfterSelection tot need))
             else if ?req \<le> fee then (w1, Inr (ins, fee, l))
             else transfer_loop cfg env (Suc k) n nrec send feeRate h ?req l ins w1)"
          using need ok r1 Some by (simp add: release_on_error_freed freed_def [of lease w] Let_def)
        have oc: "?oc = nrec + 1" if "\<not> tot < need" "unat send + unat f < total_amount (map oo_Amount ins)" "fee \<le> f" for f
        proof -
          have "unat fee \<le> unat f" using that(3) by (simp add: word_le_nat_alt)
          then have "0 < unat (tot - send - fee)"
            using change_exact [of send fee need tot] need ok that sum_checked_Some [OF Some] by (simp add: not_less)
          then show ?thesis by (simp add: word_less_nat_alt)
        qed
        have ch: "chosen cfg env nrec send feeRate w1 ins f l" if "\<not> tot < need" "?req \<le> f" "fee \<le> f" for f
          by (rule reserve_chosen [OF v(1) env r1, where oc = ?oc]) (use that oc in \<open>auto split: if_splits\<close>)
        show ?thesis
        proof (cases "tot < need \<or> ?req \<le> fee")
          case True
          then show ?thesis using Suc.prems(3) loop i1 ch [of fee] by (auto split: if_splits)
        next
          case False
          have "transfer_loop cfg env (Suc k) n nrec send feeRate h ?req l ins w1 = (w', r)" using Suc.prems(3) loop False by simp
          from Suc.IH [OF inv1 _ this] show ?thesis using ch [of ?req] False by auto
        qed
      qed
    qed
  qed
qed

section \<open>Transfers\<close>

definition transfer_ready :: "crypto \<Rightarrow> TransferConfig \<Rightarrow> transfer_env \<Rightarrow> (hash \<Rightarrow> hash \<Rightarrow> bool) \<Rightarrow> Wallet \<Rightarrow> bool" where
  "transfer_ready C cfg env canon w \<longleftrightarrow> laws_ok C cfg canon \<and> tc_RingSize cfg = RingSize \<and> env_ok env
     \<and> wallet_ok w \<and> list_all (genuine cfg) (outputs w) \<and> leases_below w \<and> unat (w_nextLease w) + 4 < 2 ^ 64"

lemma transfer_starts: "wallet_ok w \<Longrightarrow> leases_below w \<Longrightarrow> unat (w_nextLease w) + 4 < 2 ^ 64 \<Longrightarrow> loop_inv env w 0 w 4"
  by (simp add: loop_inv_def freed_def kept_def)

lemma Transfer_ok:
  assumes ready: "transfer_ready C cfg env canon w" and ped: "pedersen C cfg valid pt hv gs" and n: "length rs \<le> 255"
    and tr: "Transfer C t cfg env rs feeRate h w = (w', Inr res)"
  shows "\<exists>tx send. node_accepts C canon (tr_TxData res) (tr_TxID res) tx \<and> Fee tx = tr_Fee res \<and> w_data w' = w_data w
    \<and> unat send = total_amount (map rc_Amount rs)
    \<and> total_amount (map oo_Amount (tr_SpentOutputs res)) = total_amount (map rc_Amount rs) + unat (tr_Change res) + unat (tr_Fee res)
    \<and> chosen cfg env (length rs) send feeRate w' (tr_SpentOutputs res) (tr_Fee res) (tr_InputLease res)
    \<and> pays C t cfg (te_pad env) rs tx \<and> Inputs tx \<noteq> []
    \<and> length (Inputs tx) = length (tr_SpentOutputs res) \<and> length (Outputs tx) \<le> length rs + (if tr_Change res = 0 then 0 else 1)"
proof -
  have r: "laws_ok C cfg canon" "env_ok env" "list_all (genuine cfg) (outputs w)" and inv: "loop_inv env w 0 w 4"
    using ready transfer_starts by (auto simp: transfer_ready_def)
  obtain send ins fee lease where b: "rs \<noteq> []" "sum_checked 0 (map rc_Amount rs) = Some send"
      "transfer_loop cfg env 0 4 (length rs) send feeRate h (tc_MinFee cfg) 0 [] w = (w', Inr (ins, fee, lease))"
      "buildTransaction C t cfg (te_pad env) (wd_Keys (w_data w')) ins rs send fee lease 1 h = Inr res"
    using tr by (auto simp: Transfer_def release_on_error_def split: if_splits option.splits prod.splits sum.splits)
  have ch: "w_data w' = w_data w" "chosen cfg env (length rs) send feeRate w' ins fee lease"
    using transfer_loop_ok [OF r(2) inv _ b(3)] by auto
  have gen: "list_all (genuine cfg) ins" using ch r(3) by (auto simp: chosen_def list_all_iff)
  have send: "unat send = total_amount (map rc_Amount rs)" using sum_checked_Some [OF b(2)] by simp
  have l: "0 < length ins" "length ins \<le> 256" using ch(2) by (auto simp: chosen_def)
  have "length rs + nat 1 \<le> 256" using n by simp
  from buildTransaction_valid [OF r(1) ped gen l b(1) _ this send b(4)] obtain tx where
    "node_accepts C canon (tr_TxData res) (tr_TxID res) tx" "Fee tx = fee" "length (Inputs tx) = length ins"
    "pays C t cfg (te_pad env) rs tx" "length (Outputs tx) \<le> length rs + (if tr_Change res = 0 then 0 else nat 1)"
    "total_amount (map oo_Amount ins) = total_amount (map rc_Amount rs) + unat (tr_Change res) + unat fee"
    "tr_SpentOutputs res = ins" "tr_InputLease res = lease" "tr_Fee res = fee" by auto
  then show ?thesis using ch send l(1) by (intro exI [of _ tx] exI [of _ send]) (auto split: if_splits)
qed


lemma estimate_mono: "i \<le> i' \<Longrightarrow> n \<le> n' \<Longrightarrow> estimateTxSizeBytes i n r \<le> estimateTxSizeBytes i' n' r"
  unfolding estimateTxSizeBytes_def Let_def by (intro add_mono mult_right_mono) auto

lemma required_fee_exact:
  assumes "est * unat feeRate < 2 ^ 64"
  shows "est * unat feeRate \<le> unat (required_fee cfg feeRate est)"
proof (cases "feeRate = 0")
  case False
  have "est * 1 \<le> est * unat feeRate" using False by (intro mult_left_mono) (simp_all add: Suc_le_eq unat_gt_0)
  then have "est < 2 ^ 64" using assms by linarith
  then have "unat (word_of_nat est :: u64) = est" by (rule u64_of_nat)
  then have "unat (word_of_nat est * feeRate) = est * unat feeRate" using assms by (simp add: unat_word_ariths)
  then show ?thesis by (simp add: required_fee_def max_def word_le_nat_alt)
qed simp

text \<open>C30. The fee of a transfer covers the requested rate: it is at least the minimum fee and at least the rate times the number
  of bytes of the transaction, as long as the rate times the largest estimate stays below \<open>2\<^sup>64\<close>.\<close>

theorem Transfer_fee_covers:
  assumes ready: "transfer_ready C cfg env canon w" and ped: "pedersen C cfg valid pt hv gs" and n: "length rs \<le> 255"
    and tr: "Transfer C t cfg env rs feeRate h w = (w', Inr res)"
    and rate: "estimateTxSizeBytes 256 256 RingSize * unat feeRate < 2 ^ 64"
  shows "tc_MinFee cfg \<le> tr_Fee res \<and> length (tr_TxData res) * unat feeRate \<le> unat (tr_Fee res)"
proof -
  obtain tx send where t: "node_accepts C canon (tr_TxData res) (tr_TxID res) tx"
      "chosen cfg env (length rs) send feeRate w' (tr_SpentOutputs res) (tr_Fee res) (tr_InputLease res)"
      "unat send = total_amount (map rc_Amount rs)"
      "total_amount (map oo_Amount (tr_SpentOutputs res)) = total_amount (map rc_Amount rs) + unat (tr_Change res) + unat (tr_Fee res)"
      "length (Inputs tx) = length (tr_SpentOutputs res)" "length (Outputs tx) \<le> length rs + (if tr_Change res = 0 then 0 else 1)"
    using Transfer_ok [OF ready ped n tr] by blast
  have rs: "RingSize = tc_RingSize cfg" using ready by (simp add: transfer_ready_def)
  obtain oc where oc: "required_fee cfg feeRate (estimateTxSizeBytes (length (tr_SpentOutputs res)) oc (tc_RingSize cfg)) \<le> tr_Fee res"
      "length rs \<le> oc" "oc \<le> length rs + 1" "unat send + unat (tr_Fee res) < total_amount (map oo_Amount (tr_SpentOutputs res)) \<longrightarrow> oc = length rs + 1"
    and ins: "length (tr_SpentOutputs res) \<le> 256"
    using t(2) unfolding chosen_def by blast
  have outs: "length (Outputs tx) \<le> oc" using oc(2,4) t(3,4,6) by (auto simp: unat_gt_0 split: if_splits)
  let ?e = "estimateTxSizeBytes (length (tr_SpentOutputs res)) oc RingSize"
  have "?e \<le> estimateTxSizeBytes 256 256 RingSize" using ins oc(3) n by (intro estimate_mono) auto
  then have "?e * unat feeRate \<le> estimateTxSizeBytes 256 256 RingSize * unat feeRate" by (rule mult_right_mono) simp
  then have "?e * unat feeRate \<le> unat (required_fee cfg feeRate ?e)" using rate by (intro required_fee_exact) linarith
  moreover have "unat (required_fee cfg feeRate ?e) \<le> unat (tr_Fee res)" using oc(1) rs by (simp add: word_le_nat_alt)
  moreover have "length (tr_TxData res) * unat feeRate \<le> ?e * unat feeRate"
    using node_accepts_size [OF t(1) rs outs] t(5) rs by (intro mult_right_mono) simp_all
  moreover have "tc_MinFee cfg \<le> tr_Fee res" using oc(1) by (simp add: required_fee_def)
  ultimately show ?thesis by linarith
qed

text \<open>C31. A failed transfer leaves the wallet as it was: its data is unchanged, no reservation made on the way is left behind, and
  every reservation of others that has not expired is still there.\<close>

theorem failed_transfer_releases:
  assumes "wallet_ok w" "leases_below w" "unat (w_nextLease w) + 4 < 2 ^ 64" "env_ok env"
    and tr: "Transfer C t cfg env rs feeRate h w = (w', Inl e)"
  shows "w_data w' = w_data w \<and> (\<forall>p r. w_inputReservations w' p = Some r \<longrightarrow> w_inputReservations w p = Some r)
    \<and> (\<forall>p r. w_inputReservations w p = Some r \<longrightarrow> (\<forall>k. te_now env k \<le> ir_expiresAt r) \<longrightarrow> w_inputReservations w' p = Some r)"
proof -
  have "w_data w' = w_data w \<and> kept env w (w_inputReservations w')"
  proof (cases "rs = [] \<or> sum_checked 0 (map rc_Amount rs) = None")
    case True
    then show ?thesis using tr by (auto simp: Transfer_def kept_def split: if_splits)
  next
    case False
    then obtain send where s: "sum_checked 0 (map rc_Amount rs) = Some send" "rs \<noteq> []" by auto
    obtain w1 r where l: "transfer_loop cfg env 0 4 (length rs) send feeRate h (tc_MinFee cfg) 0 [] w = (w1, r)" by fastforce
    note ok = transfer_loop_ok [OF assms(4) transfer_starts [OF assms(1-3)] _ l]
    show ?thesis using ok tr s l by (cases r) (auto simp: Transfer_def release_on_error_freed split: sum.splits)
  qed
  then show ?thesis unfolding kept_def .
qed

end
