(* ===== verification/TransferSamples.thy ===== *)
theory TransferSamples
  imports TransferProps
begin

text \<open>
  A concrete instance of the cryptographic callbacks: commitments are the amount itself, so that they are homomorphic, the
  ring repeats the real member, and signatures carry the key image and the pseudo-output.  It satisfies every
  hypothesis of the transfer theorems, which are applied to it here.
\<close>

definition point_bytes :: "u64 \<Rightarrow> bytes" where
  "point_bytes v = PutUint64 v @ replicate 24 0"

definition pad32 :: "bytes \<Rightarrow> bytes" where
  "pad32 bs = take 32 (bs @ replicate 32 0)"

definition toy_crypto :: crypto where
  "toy_crypto = sample_crypto\<lparr>blocknet_commitment_add := (\<lambda>a b. Some (point_bytes (Uint64 a + Uint64 b))),
     blocknet_commitment_sub := (\<lambda>a b. Some (point_bytes (Uint64 a - Uint64 b))),
     blocknet_commitment_is_zero := (\<lambda>a. Uint64 a = 0), blocknet_fee_commitment := (\<lambda>f. Some (point_bytes f))\<rparr>"

definition toy_transfer :: TransferConfig where
  "toy_transfer = \<lparr>tc_SelectRingMembers = (\<lambda>_ pub com. if length pub = 32 \<and> length com = 32
       then Some (replicate RingSize pub, replicate RingSize com, 0) else None),
     tc_CreateCommitment = (\<lambda>v _. point_bytes v), tc_CreateRangeProof = (\<lambda>_ _ _. Some [1]),
     tc_SignRingCT = (\<lambda>_ _ _ _ priv _ pseudo _ _. Some (replicate (32 + 64 * RingSize) 0 @ pad32 priv @ pseudo, pad32 priv)),
     tc_GenerateBlinding = (\<lambda>_. zero_hash), tc_ComputeTxID = computeTxID toy_crypto,
     tc_BlindingAdd = (\<lambda>a _. Some a), tc_BlindingSub = (\<lambda>a _. Some a),
     tc_DeriveStealthAddress = (\<lambda>_ _. Some (zero_hash, zero_hash, zero_hash)),
     tc_DeriveDeterministicTxKey = None, tc_GenerateKeyImage = None,
     tc_DeriveSharedSecret = (\<lambda>_ viewPub. Some viewPub), tc_DeriveSharedSecretIndexed = None,
     tc_ScalarToPoint = Some (\<lambda>s. Some (pad32 s)), tc_PointAdd = (\<lambda>p _. Some (pad32 p)),
     tc_RingSize = RingSize, tc_MinFee = 1000\<rparr>"

definition toy_env :: transfer_env where
  "toy_env = \<lparr>te_shuf = (\<lambda>_ _ _. None), te_rnd = (\<lambda>_ _ _. None), te_srt = exchange_sort, te_now = (\<lambda>_. 0),
     te_pad = (\<lambda>_ n. Some (replicate n 9))\<rparr>"

definition toy_coin :: OwnedOutput where
  "toy_coin = \<lparr>oo_TxID = replicate 32 1, oo_OutputIndex = 0, oo_Amount = 5000, oo_Blinding = zero_hash,
     oo_OneTimePrivKey = replicate 32 3, oo_OneTimePubKey = replicate 32 3, oo_Commitment = point_bytes 5000, oo_BlockHeight = 5,
     oo_IsCoinbase = False, oo_Spent = False, oo_SpentHeight = 0, oo_SpentTxID = zero_hash, oo_Memo = []\<rparr>"

definition toy_recipient :: Recipient where
  "toy_recipient = \<lparr>rc_SpendPubKey = replicate 32 7, rc_ViewPubKey = replicate 32 8, rc_Amount = 4000, rc_Memo = [1, 2]\<rparr>"

section \<open>The laws hold\<close>

lemma Uint64_point [simp]: "Uint64 (point_bytes v) = v"
  by (simp add: point_bytes_def codec_simps)

lemma length_toy [simp]: "length (point_bytes v) = 32" "length (pad32 bs) = 32"
  by (simp_all add: point_bytes_def pad32_def PutUint64_def)

lemma toy_sha3: "sha3_32 toy_crypto"
  using sample_crypto_sha3 by (simp add: sha3_32_def toy_crypto_def)

lemma toy_pedersen: "pedersen toy_crypto toy_transfer (\<lambda>c. length c = 32) Uint64 (\<lambda>n. word_of_nat n) (\<lambda>_. 0)"
  by (simp add: pedersen_def toy_transfer_def toy_crypto_def)

lemma toy_laws: "laws_ok toy_crypto toy_transfer (\<lambda>_ _. True)"
proof -
  have "cfg_sizes toy_transfer" by (auto simp: cfg_sizes_def toy_transfer_def zero_hash_def)
  moreover have "range_prover toy_crypto toy_transfer"
    by (auto simp: range_prover_def toy_transfer_def toy_crypto_def sample_crypto_def)
  moreover have "ring_signer toy_crypto toy_transfer"
    by (auto simp: ring_signer_def toy_transfer_def toy_crypto_def sample_crypto_def RingSize_def)
  moreover have "ring_source toy_transfer (\<lambda>_ _. True)"
    by (auto simp: ring_source_def toy_transfer_def RingSize_def split: if_splits)
  ultimately show ?thesis using toy_sha3 by (simp add: laws_ok_def toy_transfer_def)
qed

lemma toy_ready: "transfer_ready toy_crypto toy_transfer toy_env (\<lambda>_ _. True) (sample_wallet [toy_coin])"
proof -
  have "env_ok toy_env" by (simp add: env_ok_def toy_env_def rand_int_def exchange_sort_slice)
  moreover have "genuine toy_transfer toy_coin" by (simp add: genuine_def toy_transfer_def toy_coin_def pad32_def)
  ultimately show ?thesis using toy_laws
    by (simp add: transfer_ready_def sample_wallet_def init_wallet_def wallet_ok_def leases_below_def toy_transfer_def)
qed

section \<open>A transfer\<close>

definition toy_input :: TxInput where
  "toy_input = \<lparr>KeyImage = replicate 32 3, RingMembers = replicate RingSize (replicate 32 3),
     RingCommitments = replicate RingSize (point_bytes 5000), PseudoOutput = point_bytes 5000,
     RingSignature = replicate (32 + 64 * RingSize) 0 @ replicate 32 3 @ point_bytes 5000\<rparr>"

lemma toy_reserve:
  "\<exists>w'. reserve_in toy_env 0 100 5000 (sample_wallet [toy_coin]) = (w', Inr (1, [toy_coin]))"
  by (simp add: ReserveMatureInputs_def SelectInputs_def toy_env_def candidates_def is_candidate_def sample_wallet_def init_wallet_def
      toy_coin_def IsOutputMature_def confirmations_def w_SafeConfirmations_def drop_expired_def filtered_def sum_amounts_def
      RandomShuffle_def findExactMatch_def tie_break_def randIndex_def Let_def)

lemma toy_cfg:
  "tc_MinFee toy_transfer = 1000" "tc_DeriveSharedSecretIndexed toy_transfer = None"
  "deriveDeterministicR toy_transfer keys ins = Some (zero_hash, zero_hash)"
  "oo_Amount toy_coin = 5000" "rc_Amount toy_recipient = 4000"
  by (simp_all add: toy_transfer_def deriveDeterministicR_def toy_coin_def toy_recipient_def)

lemma toy_loop:
  "\<exists>w'. transfer_loop toy_transfer toy_env 0 4 1 4000 0 100 1000 0 [] (sample_wallet [toy_coin]) = (w', Inr ([toy_coin], 1000, 1))"
proof -
  obtain w' where r: "reserve_in toy_env 0 100 5000 (sample_wallet [toy_coin]) = (w', Inr (1, [toy_coin]))" using toy_reserve by blast
  have four: "(4 :: nat) = Suc 3" by simp
  show ?thesis unfolding four transfer_loop.simps using r by (simp add: AddU64_def Let_def required_fee_def toy_cfg)
qed

lemma toy_output: "\<exists>out. make_outputs toy_crypto False toy_transfer (te_pad toy_env) False zero_hash 0 [toy_recipient] = Inr [out]"
proof -
  obtain ct where "EncryptMemo toy_crypto False (\<lambda>n. Some (replicate n 9)) [1, 2] (replicate 32 8) 0 = Inr ct"
    using EncryptMemo_total [of "[1, 2]" toy_crypto False 9 "replicate 32 8" 0] by (auto simp: MemoPayloadMax_def)
  then show ?thesis by (simp add: make_output_def derive_secret_def toy_transfer_def toy_recipient_def toy_env_def Let_def)
qed

lemma toy_finish:
  assumes "built_output toy_crypto toy_transfer out"
  shows "\<exists>d i. finish_tx toy_crypto toy_transfer [toy_coin] [out] zero_hash 1000 = Inr (d, i)"
proof -
  define tx where "tx = \<lparr>TxVersion = 1, Inputs = [toy_input], Outputs = [TxOutput.truncate out], Fee = 1000, TxPublicKey = zero_hash\<rparr>"
  have wf: "wf_tx tx"
    using assms by (auto simp: tx_def wf_tx_def built_output_def wf_input_def go_input_def toy_input_def zero_hash_def limit_defs)
  note go = wf_tx_go [OF wf]
  obtain p where p: "serializeTxPrefix zero_hash 1 [TxOutput.truncate out] 1000 = Some p"
    using prefix_is_signing_prefix [of tx] signing_prefix_aligned [of tx] go by (auto simp: tx_def)
  have ser: "serializeTx zero_hash [toy_input] [TxOutput.truncate out] 1000 = Some (enc_tx tx)"
    using serializeTx_is_Serialize [of tx] Serialize_aligned [of tx] go by (auto simp: tx_def)
  have "tc_ComputeTxID toy_transfer (enc_tx tx) = Some (sha3_Sum256 toy_crypto (enc_tx tx))"
    using DeserializeTx_enc_tx [OF wf] Serialize_aligned [of tx] go by (simp add: toy_transfer_def computeTxID_def TxID_def)
  moreover have "sign_inputs toy_transfer ph 0 [(toy_coin, b)] = Inr [toy_input]" for ph b
    by (simp add: toy_transfer_def toy_coin_def toy_input_def Let_def pad32_def)
  ultimately show ?thesis using p ser by (simp add: finish_tx_def sumBlindings_def distributeBlindings_def)
qed

lemma toy_transfer_succeeds:
  "\<exists>w' res. Transfer toy_crypto False toy_transfer toy_env [toy_recipient] 0 100 (sample_wallet [toy_coin]) = (w', Inr res)"
proof -
  obtain w' where l: "transfer_loop toy_transfer toy_env 0 4 1 4000 0 100 1000 0 [] (sample_wallet [toy_coin]) = (w', Inr ([toy_coin], 1000, 1))"
    using toy_loop by blast
  obtain out where o: "make_outputs toy_crypto False toy_transfer (te_pad toy_env) False zero_hash 0 [toy_recipient] = Inr [out]"
    using toy_output by blast
  have "built_output toy_crypto toy_transfer out"
    using make_outputs_ok [of toy_crypto toy_transfer, OF _ _ _ o] toy_laws by (auto simp: laws_ok_def)
  from toy_finish [OF this] obtain d i where f: "finish_tx toy_crypto toy_transfer [toy_coin] [out] zero_hash 1000 = Inr (d, i)" by blast
  have "buildTransaction toy_crypto False toy_transfer (te_pad toy_env) keys [toy_coin] [toy_recipient] 4000 1000 1 1 100
      = Inr \<lparr>tr_TxData = d, tr_TxID = i, tr_TxPrivKey = zero_hash, tr_SpentOutputs = [toy_coin], tr_InputLease = 1, tr_Fee = 1000, tr_Change = 0\<rparr>"
    for keys
    using o f unfolding buildTransaction_def by (simp add: AddU64_def Let_def toy_cfg change_recipients_def)
  then show ?thesis using l by (simp add: Transfer_def AddU64_def release_on_error_def toy_cfg)
qed

section \<open>The theorems applied\<close>


theorem Transfer_fee_covers_witness:
  "\<exists>w' res. Transfer toy_crypto False toy_transfer toy_env [toy_recipient] 0 100 (sample_wallet [toy_coin]) = (w', Inr res)
     \<and> 1000 \<le> tr_Fee res"
proof -
  obtain w' res where t: "Transfer toy_crypto False toy_transfer toy_env [toy_recipient] 0 100 (sample_wallet [toy_coin]) = (w', Inr res)"
    using toy_transfer_succeeds by blast
  have "length [toy_recipient] \<le> 255" "estimateTxSizeBytes 256 256 RingSize * unat (0 :: u64) < 2 ^ 64" by simp_all
  from Transfer_fee_covers [OF toy_ready toy_pedersen this(1) t this(2)] t show ?thesis by (auto simp: toy_cfg)
qed

text \<open>An amount above the balance: the reservation fails and nothing stays reserved.\<close>

theorem failed_transfer_releases_witness:
  "\<exists>w' e. Transfer toy_crypto False toy_transfer toy_env [toy_recipient\<lparr>rc_Amount := 90000\<rparr>] 0 100 (sample_wallet [toy_coin]) = (w', Inl e)
     \<and> (\<forall>p. w_inputReservations w' p = None)"
proof -
  let ?w = "sample_wallet [toy_coin]"
  have "\<exists>w'. reserve_in toy_env 0 100 91000 ?w = (w', Inl (SelectError ErrInsufficientFunds))"
    by (simp add: ReserveMatureInputs_def SelectInputs_def toy_env_def candidates_def is_candidate_def sample_wallet_def init_wallet_def
        toy_coin_def IsOutputMature_def confirmations_def w_SafeConfirmations_def drop_expired_def filtered_def sum_amounts_def Let_def)
  then obtain w' where r: "reserve_in toy_env 0 100 91000 ?w = (w', Inl (SelectError ErrInsufficientFunds))" by blast
  have four: "(4 :: nat) = Suc 3" by simp
  have "transfer_loop toy_transfer toy_env 0 4 1 90000 0 100 1000 0 [] ?w = (w', Inl (ReserveFailed (SelectError ErrInsufficientFunds)))"
    unfolding four transfer_loop.simps using r by (simp add: AddU64_def Let_def)
  then have t: "Transfer toy_crypto False toy_transfer toy_env [toy_recipient\<lparr>rc_Amount := 90000\<rparr>] 0 100 ?w
      = (w', Inl (ReserveFailed (SelectError ErrInsufficientFunds)))"
    by (simp add: Transfer_def AddU64_def toy_cfg)
  have ok: "wallet_ok ?w" "leases_below ?w" "unat (w_nextLease ?w) + 4 < 2 ^ 64" "env_ok toy_env"
    using toy_ready by (auto simp: transfer_ready_def)
  from failed_transfer_releases [OF ok t] have "w_inputReservations w' p = None" for p
    by (cases p) (auto simp: sample_wallet_def init_wallet_def)
  then show ?thesis using t by blast
qed

end
