(* ===== verification/Payments.thy ===== *)
theory Payments
  imports TransferSamples
begin

text \<open>
  Paying and being paid: the builder and the scanner together.  The laws relate the callbacks that both sides use: the
  two sides of the key agreement compute the same secret, multiplying a scalar with the base point is a homomorphism,
  and the scanner commits the way the builder does.
\<close>

section \<open>Laws\<close>

text \<open>Both sides are wired with the same group operations, as \<open>defaultScannerConfig\<close> and \<open>createTxBuilder\<close> of
  \<open>src/cli.go\<close> do.\<close>

definition same_group :: "TransferConfig \<Rightarrow> ScannerConfig \<Rightarrow> bool" where
  "same_group cfg sc \<longleftrightarrow> tc_ScalarToPoint cfg \<noteq> None \<and> sc_ScalarToPoint sc = tc_ScalarToPoint cfg \<and> sc_PointAdd sc = Some (tc_PointAdd cfg)
     \<and> sc_BlindingAdd sc = Some (tc_BlindingAdd cfg)
     \<and> sc_CreateCommitment sc = Some (\<lambda>v b. Some (tc_CreateCommitment cfg v b))"

text \<open>The public key of a scalar sum is the sum of the public keys.\<close>

definition scalar_hom :: "TransferConfig \<Rightarrow> bool" where
  "scalar_hom cfg \<longleftrightarrow> (\<forall>f a b c p q. tc_ScalarToPoint cfg = Some f \<longrightarrow> tc_BlindingAdd cfg a b = Some c
     \<longrightarrow> f a = Some p \<longrightarrow> f b = Some q \<longrightarrow> f c = tc_PointAdd cfg p q)"

definition keys_ok :: "TransferConfig \<Rightarrow> StealthKeys \<Rightarrow> bool" where
  "keys_ok cfg keys \<longleftrightarrow> (\<exists>f. tc_ScalarToPoint cfg = Some f \<and> f (sk_SpendPrivKey keys) = Some (sk_SpendPubKey keys))"

text \<open>The key pair of a transaction.\<close>

definition tx_key_pair :: "TransferConfig \<Rightarrow> hash \<Rightarrow> hash \<Rightarrow> bool" where
  "tx_key_pair cfg r R \<longleftrightarrow> (\<exists>f. tc_ScalarToPoint cfg = Some f \<and> f r = Some R)
     \<or> (\<exists>s v x. tc_DeriveStealthAddress cfg s v = Some (r, R, x))"

text \<open>The two sides of the key agreement: the sender's secret from the transaction's private key and the view public key
  is the receiver's from the transaction's public key and the view private key; the secrets of the two derivations do not
  give the same one-time key unless they are equal; and the spend key can be added to a secret.\<close>

definition key_agreement :: "TransferConfig \<Rightarrow> ScannerConfig \<Rightarrow> StealthKeys \<Rightarrow> bool" where
  "key_agreement cfg sc keys \<longleftrightarrow>
     (\<forall>r R. tx_key_pair cfg r R \<longrightarrow>
        tc_DeriveSharedSecret cfg r (sk_ViewPubKey keys) = sc_deriveOutputSecret sc R (sk_ViewPrivKey keys)
        \<and> (\<forall>f. tc_DeriveSharedSecretIndexed cfg = Some f \<longrightarrow> (\<exists>g. sc_deriveOutputSecretIndexed sc = Some g
             \<and> (\<forall>i. f r (sk_ViewPubKey keys) i = g R (sk_ViewPrivKey keys) i))))
     \<and> (\<forall>g f R i s s' p p' K. sc_deriveOutputSecretIndexed sc = Some g \<longrightarrow> tc_ScalarToPoint cfg = Some f
        \<longrightarrow> g R (sk_ViewPrivKey keys) i = Some s \<longrightarrow> sc_deriveOutputSecret sc R (sk_ViewPrivKey keys) = Some s'
        \<longrightarrow> f s = Some p \<longrightarrow> f s' = Some p' \<longrightarrow> tc_PointAdd cfg p (sk_SpendPubKey keys) = Some K
        \<longrightarrow> tc_PointAdd cfg p' (sk_SpendPubKey keys) = Some K \<longrightarrow> s = s')
     \<and> (\<forall>f s. tc_ScalarToPoint cfg = Some f \<longrightarrow> f s \<noteq> None \<longrightarrow> tc_BlindingAdd cfg s (sk_SpendPrivKey keys) \<noteq> None)"

section \<open>Scanned outputs are spendable\<close>

lemma secret_matches_Some:
  "secret_matches f add P K s = Some x \<Longrightarrow> s = Some x \<and> (\<exists>p. f x = Some p \<and> add p P = Some K)"
  by (auto simp: secret_matches_def split: option.splits if_splits)

lemma match_output_key:
  assumes grp: "same_group cfg sc" and hom: "scalar_hom cfg" and k: "keys_ok cfg keys"
    and m: "match_output sc keys tx out = Some (secret, priv)"
  shows "\<exists>f. tc_ScalarToPoint cfg = Some f \<and> f priv = Some (od_PubKey out)"
proof -
  obtain f where f: "tc_ScalarToPoint cfg = Some f" "f (sk_SpendPrivKey keys) = Some (sk_SpendPubKey keys)"
    using k by (auto simp: keys_ok_def)
  have sc: "sc_ScalarToPoint sc = Some f" "sc_PointAdd sc = Some (tc_PointAdd cfg)" "sc_BlindingAdd sc = Some (tc_BlindingAdd cfg)"
    using grp f by (auto simp: same_group_def)
  obtain x where s: "secret_matches f (tc_PointAdd cfg) (sk_SpendPubKey keys) (od_PubKey out) x = Some secret"
    and a: "tc_BlindingAdd cfg secret (sk_SpendPrivKey keys) = Some priv"
    using m by (auto simp: match_output_def sc Let_def split: option.splits)
  from secret_matches_Some [OF s] obtain p where "f secret = Some p" "tc_PointAdd cfg p (sk_SpendPubKey keys) = Some (od_PubKey out)"
    by auto
  then show ?thesis using hom f a by (fastforce simp: scalar_hom_def)
qed

lemma own_output_genuine:
  assumes "same_group cfg sc" "scalar_hom cfg" "keys_ok cfg keys" "own_output C t sc keys h tx out = Some (o1, b)"
  shows "genuine cfg o1"
proof -
  obtain secret priv where m: "match_output sc keys tx out = Some (secret, priv)"
    using assms(4) by (auto simp: own_output_def split: option.splits)
  show ?thesis
    using assms(1,4) m match_output_key [OF assms(1-3) m]
    by (auto simp: own_output_def genuine_def same_group_def Let_def split: if_splits)
qed

lemma mark_spent_genuine: "mark_spent k h os = Some (os', p) \<Longrightarrow> list_all (genuine cfg) os \<Longrightarrow> list_all (genuine cfg) os'"
  by (induction os arbitrary: os' p) (fastforce simp: genuine_def split: if_splits)+

lemma scan_output_keeps_genuine:
  assumes "same_group cfg sc" "scalar_hom cfg" "keys_ok cfg keys" "list_all (genuine cfg) (outs s)"
  shows "list_all (genuine cfg) (outs (scan_output C t sc keys h tx out s))"
  using assms own_output_genuine [OF assms(1-3), of C t h tx out]
  by (auto simp: outs_scan_output add_owned_def split: option.split)

lemma scan_image_keeps_genuine:
  assumes "list_all (genuine cfg) (outs s)" shows "list_all (genuine cfg) (outs (scan_image h ki s))"
proof -
  have "list_all (genuine cfg) (outs (fold (mark_key h) (ss_index s ki) s))"
    by (rule fold_outs [where P = "list_all (genuine cfg)"])
      (use assms mark_spent_genuine in \<open>fastforce simp: outs_mark_key mark_owned_def split: option.splits\<close>)+
  then show ?thesis by (simp add: scan_image_def Let_def)
qed

lemma ScanBlock_genuine:
  assumes "same_group cfg sc" "scalar_hom cfg" "keys_ok cfg (wd_Keys (w_data w))" "list_all (genuine cfg) (outputs w)"
  shows "list_all (genuine cfg) (outputs (fst (ScanBlock C t sc b w)))"
proof -
  let ?s = "\<lparr>ss_wallet = w, ss_index = buildSpendableKeyImageIndex sc w, ss_found = 0, ss_spent = 0\<rparr>"
  have tx: "list_all (genuine cfg) (outs (scan_tx C t sc (wd_Keys (w_data w)) h tx s))" if "list_all (genuine cfg) (outs s)" for h tx s
    unfolding scan_tx_def
    by (intro fold_outs [where P = "list_all (genuine cfg)"])
      (use that assms in \<open>auto intro: scan_image_keeps_genuine scan_output_keeps_genuine\<close>)
  have "list_all (genuine cfg) (outs (fold (scan_tx C t sc (wd_Keys (w_data w)) (bd_Height b)) (bd_Transactions b) ?s))"
    by (rule fold_outs [where P = "list_all (genuine cfg)"]) (use assms tx in \<open>auto simp: outs_def\<close>)
  then show ?thesis by (simp add: ScanBlock_def Let_def outs_def)
qed

lemma ScanBlocks_genuine:
  assumes "same_group cfg sc" "scalar_hom cfg"
  shows "keys_ok cfg (wd_Keys (w_data w)) \<Longrightarrow> list_all (genuine cfg) (outputs w)
    \<Longrightarrow> list_all (genuine cfg) (outputs (fst (ScanBlocks C t sc bs w)))"
proof (induction bs arbitrary: w)
  case (Cons b bs)
  let ?w = "SetSyncedHeight (bd_Height b) (fst (ScanBlock C t sc b w))"
  have "wd_Keys (w_data ?w) = wd_Keys (w_data w)" using ScanBlocks_keys [of C t sc "[b]" w] by (simp add: split_def)
  moreover have "list_all (genuine cfg) (outputs ?w)" using ScanBlock_genuine [OF assms Cons.prems] by simp
  ultimately show ?case using Cons.IH [of ?w] Cons.prems by (simp add: split_def)
qed simp


section \<open>A payment is found\<close>

lemma DecryptAmount_encrypt: "sha3_32 C \<Longrightarrow> DecryptAmount C (encryptAmount C a b i) b i = a"
  by (simp add: DecryptAmount_def encryptAmount_def xor_bytes_cancel amountMask_def sha3_len len_simps codec_simps)

lemma scan_fields:
  "od_PubKey (output_scan_data (i, TxOutput.truncate out)) = PublicKey out"
  "od_Index (output_scan_data (i, TxOutput.truncate out)) = int i"
  "word_of_int (int i) = (word_of_nat i :: u32)"
  "od_Commitment (output_scan_data (i, TxOutput.truncate out)) = Commitment out"
  "od_EncryptedAmount (output_scan_data (i, TxOutput.truncate out)) = EncryptedAmount out"
  "od_EncryptedMemo (output_scan_data (i, TxOutput.truncate out)) = EncryptedMemo out"
  by (simp_all add: output_scan_data_def TxOutput.truncate_def)

text \<open>The scan data of an output made for the holder of the keys, in a transaction with the builder's public key.\<close>

lemma made_output_recognised:
  assumes C: "sha3_32 C" and grp: "same_group cfg sc" and agree: "key_agreement cfg sc keys" and tk: "tx_key_pair cfg r (td_TxPubKey td)"
    and cb: "\<not> td_IsCoinbase td"
    and p: "rc_ViewPubKey p = sk_ViewPubKey keys" "rc_SpendPubKey p = sk_SpendPubKey keys"
    and made: "make_output C t cfg pad ix r i p = Inr out"
  shows "\<exists>o1. own_output C t sc keys h td (output_scan_data (i, TxOutput.truncate out)) = Some (o1, False)
    \<and> oo_TxID o1 = td_TxID td \<and> oo_OutputIndex o1 = int i \<and> oo_Amount o1 = rc_Amount p \<and> oo_Memo o1 = rc_Memo p"
proof -
  obtain secret f point memo where m: "derive_secret cfg ix r (rc_ViewPubKey p) i = Some secret" "tc_ScalarToPoint cfg = Some f"
      "f secret = Some point" "tc_PointAdd cfg point (rc_SpendPubKey p) = Some (PublicKey out)"
      "EncryptMemo C t (pad i) (rc_Memo p) secret (word_of_nat i) = Inr memo" "EncryptedMemo out = memo"
      "Commitment out = tc_CreateCommitment cfg (rc_Amount p) (DeriveBlinding C secret (word_of_nat i))"
      "EncryptedAmount out = encryptAmount C (rc_Amount p) (DeriveBlinding C secret (word_of_nat i)) (word_of_nat i)"
    using made by (auto simp: make_output_def Let_def split: option.splits sum.splits)
  let ?ix = "case sc_deriveOutputSecretIndexed sc of None \<Rightarrow> None | Some g \<Rightarrow> g (td_TxPubKey td) (sk_ViewPrivKey keys) (word_of_nat i)"
    and ?pl = "sc_deriveOutputSecret sc (td_TxPubKey td) (sk_ViewPrivKey keys)"
    and ?sm = "secret_matches f (tc_PointAdd cfg) (sk_SpendPubKey keys) (PublicKey out)"
  have sm: "?sm (Some secret) = Some secret" using m p by (simp add: secret_matches_def)
  have "?ix = Some secret \<or> ?pl = Some secret"
    using m(1) p(1) agree tk by (auto simp: derive_secret_def key_agreement_def split: option.splits if_splits)
  moreover have "s = secret" if "?sm ?ix = Some s" "?pl = Some secret" for s
    using that secret_matches_Some [OF that(1)] agree m(2-4) p(2)
    by (fastforce simp: key_agreement_def split: option.splits)
  ultimately have "(case ?sm ?ix of Some s \<Rightarrow> Some s | None \<Rightarrow> ?sm ?pl) = Some secret"
    using sm by (auto split: option.split)
  moreover obtain priv where "tc_BlindingAdd cfg secret (sk_SpendPrivKey keys) = Some priv"
    using agree m(2,3) by (fastforce simp: key_agreement_def)
  ultimately have "match_output sc keys td (output_scan_data (i, TxOutput.truncate out)) = Some (secret, priv)"
    using grp m(2) unfolding match_output_def scan_fields by (simp add: same_group_def Let_def)
  then show ?thesis
    using grp cb m memo_opens [OF C m(5)] DecryptAmount_encrypt [OF C]
    unfolding own_output_def scan_fields by (simp add: same_group_def Let_def)
qed

lemma make_outputs_nth:
  "make_outputs C t cfg pad ix r i rs = Inr os \<Longrightarrow> j < length rs
   \<Longrightarrow> j < length os \<and> make_output C t cfg pad ix r (i + j) (rs ! j) = Inr (os ! j)"
proof (induction rs arbitrary: i j os)
  case (Cons p ps)
  then obtain out rest where "make_output C t cfg pad ix r i p = Inr out" "make_outputs C t cfg pad ix r (Suc i) ps = Inr rest"
    "os = out # rest" by (cases "make_outputs C t cfg pad ix r (Suc i) ps") (auto split: sum.splits)
  then show ?case using Cons.IH [of "Suc i" rest "j - 1"] Cons.prems by (cases j) auto
qed simp

lemma derived_key_pair: "deriveDeterministicR cfg keys inputs = Some (r, R) \<Longrightarrow> tx_key_pair cfg r R"
  by (auto simp: deriveDeterministicR_def tx_key_pair_def split: option.splits)

lemma paid_output_recognised:
  assumes C: "sha3_32 C" and grp: "same_group cfg sc" and agree: "key_agreement cfg sc keys"
    and pays: "pays C t cfg pad rs tx" and ins: "Inputs tx \<noteq> []" and td: "tx_scan_data C tx = Some td" and j: "j < length rs"
    and p: "rc_ViewPubKey (rs ! j) = sk_ViewPubKey keys" "rc_SpendPubKey (rs ! j) = sk_SpendPubKey keys"
  shows "j < length (td_Outputs td) \<and> (\<exists>o1. own_output C t sc keys h td (td_Outputs td ! j) = Some (o1, False)
    \<and> oo_TxID o1 = td_TxID td \<and> oo_OutputIndex o1 = int j \<and> oo_Amount o1 = rc_Amount (rs ! j) \<and> oo_Memo o1 = rc_Memo (rs ! j))"
proof -
  obtain keys' inputs ix r paid changed where b: "deriveDeterministicR cfg keys' inputs = Some (r, TxPublicKey tx)"
      "make_outputs C t cfg pad ix r 0 rs = Inr paid" "Outputs tx = map TxOutput.truncate (paid @ changed)"
    using pays by (auto simp: pays_def)
  have out: "j < length paid" "make_output C t cfg pad ix r j (rs ! j) = Inr (paid ! j)" using make_outputs_nth [OF b(2) j] by auto
  have td': "td_TxPubKey td = TxPublicKey tx" "\<not> td_IsCoinbase td" "td_Outputs td = map output_scan_data (enumerate 0 (Outputs tx))"
    using td ins by (auto simp: tx_scan_data_def IsCoinbase_def)
  have "td_Outputs td ! j = output_scan_data (j, TxOutput.truncate (paid ! j))" "j < length (td_Outputs td)"
    using out(1) by (simp_all add: td'(3) b(3) nth_enumerate_eq nth_append)
  then show ?thesis
    using made_output_recognised [OF C grp agree _ td'(2) p out(2)] derived_key_pair [OF b(1)] by (simp add: td'(1))
qed

text \<open>An outpoint that is not recorded stays out until its output is scanned, and a recorded output stays.\<close>

definition recorded :: "OwnedOutput \<Rightarrow> OwnedOutput list \<Rightarrow> bool" where
  "recorded o1 os \<longleftrightarrow> (\<exists>out \<in> set os. outpoint out = outpoint o1 \<and> oo_Amount out = oo_Amount o1 \<and> oo_Memo out = oo_Memo o1)"

lemma mark_spent_recorded: "mark_spent k ht os = Some (os', q) \<Longrightarrow> outpoint ` set os' = outpoint ` set os \<and> recorded o1 os' = recorded o1 os"
proof (induction os arbitrary: os' q)
  case (Cons x xs)
  show ?case
  proof (cases "oo_OneTimePubKey x = k")
    case True
    then show ?thesis using Cons.prems by (auto simp: recorded_def outpoint_def split: if_splits)
  next
    case False
    then obtain xs' where "mark_spent k ht xs = Some (xs', q)" "os' = x # xs'" using Cons.prems by auto
    then show ?thesis using Cons.IH [of xs' q] by (auto simp: recorded_def)
  qed
qed simp

lemma mark_owned_recorded: "outpoint ` set (mark_owned k h os) = outpoint ` set os" "recorded o1 (mark_owned k h os) = recorded o1 os"
  by (auto simp: mark_owned_def split: option.split dest: mark_spent_recorded)

lemma add_owned_recorded: "recorded o1 os \<Longrightarrow> recorded o1 (add_owned o2 os)"
  "outpoint o1 \<notin> outpoint ` set os \<Longrightarrow> recorded o1 (add_owned o1 os)"
  by (auto simp: add_owned_def recorded_def)

lemma own_output_outpoint: "own_output C t sc keys h td out = Some (o1, b) \<Longrightarrow> outpoint o1 = (td_TxID td, od_Index out)"
  by (auto simp: own_output_def outpoint_def Let_def split: option.splits if_splits)

lemma absent_scan_outputs:
  assumes "\<forall>out \<in> set xs. (td_TxID td, od_Index out) \<noteq> p" "p \<notin> outpoint ` set (outs s)"
  shows "p \<notin> outpoint ` set (outs (fold (scan_output C t sc keys h td) xs s))"
  by (rule fold_outs [where P = "\<lambda>os. p \<notin> outpoint ` set os"])
    (use assms in \<open>auto simp: outs_scan_output add_owned_def dest!: own_output_outpoint split: option.splits if_splits\<close>)

lemma images_recorded:
  "outpoint ` set (outs (fold (scan_image h) kis s)) = outpoint ` set (outs s)"
  "recorded o1 (outs (fold (scan_image h) kis s)) = recorded o1 (outs s)"
proof -
  have k: "outpoint ` set (outs (fold (mark_key h) ks s)) = outpoint ` set (outs s) \<and> recorded o1 (outs (fold (mark_key h) ks s)) = recorded o1 (outs s)" for ks s
    by (induction ks arbitrary: s) (simp_all add: outs_mark_key mark_owned_recorded)
  have "outpoint ` set (outs (fold (scan_image h) kis s)) = outpoint ` set (outs s) \<and> recorded o1 (outs (fold (scan_image h) kis s)) = recorded o1 (outs s)"
    by (induction kis arbitrary: s) (simp_all add: scan_image_def Let_def k)
  then show "outpoint ` set (outs (fold (scan_image h) kis s)) = outpoint ` set (outs s)"
    "recorded o1 (outs (fold (scan_image h) kis s)) = recorded o1 (outs s)" by auto
qed

lemma scan_tx_recorded: "recorded o1 (outs s) \<Longrightarrow> recorded o1 (outs (scan_tx C t sc keys h td s))"
  unfolding scan_tx_def images_recorded
  by (rule fold_outs [where P = "recorded o1"]) (auto simp: outs_scan_output add_owned_recorded split: option.split)

lemma scan_tx_finds:
  assumes j: "j < length (td_Outputs td)" and idx: "map od_Index (td_Outputs td) = map int [0..<length (td_Outputs td)]"
    and own: "own_output C t sc keys h td (td_Outputs td ! j) = Some (o1, b)"
    and absent: "(td_TxID td, int j) \<notin> outpoint ` set (outs s)"
  shows "recorded o1 (outs (scan_tx C t sc keys h td s))"
proof -
  let ?xs = "td_Outputs td"
  have "\<forall>out \<in> set (take j ?xs). od_Index out \<noteq> int j"
  proof
    fix out assume "out \<in> set (take j ?xs)"
    then obtain k where "k < j" "out = ?xs ! k" using j by (auto simp: in_set_conv_nth)
    then show "od_Index out \<noteq> int j" using arg_cong [OF idx, of "\<lambda>l. l ! k"] j by simp
  qed
  then have a: "(td_TxID td, int j) \<notin> outpoint ` set (outs (fold (scan_output C t sc keys h td) (take j ?xs) s))"
    by (intro absent_scan_outputs absent) auto
  have op: "outpoint o1 = (td_TxID td, int j)"
    using own_output_outpoint [OF own] arg_cong [OF idx, of "\<lambda>l. l ! j"] j by simp
  have "recorded o1 (add_owned o1 (outs (fold (scan_output C t sc keys h td) (take j ?xs) s)))"
    by (rule add_owned_recorded(2)) (use a op in simp)
  then have "recorded o1 (outs (fold (scan_output C t sc keys h td) (drop (Suc j) ?xs)
      (scan_output C t sc keys h td (?xs ! j) (fold (scan_output C t sc keys h td) (take j ?xs) s))))"
    by (intro fold_outs [where P = "recorded o1"]) (auto simp: outs_scan_output own add_owned_recorded(1) split: option.split)
  then show ?thesis unfolding scan_tx_def images_recorded by (subst id_take_nth_drop [OF j]) simp
qed

lemma those_eq_Some: "those xs = Some ys \<longleftrightarrow> xs = map Some ys"
proof (induction xs arbitrary: ys)
  case (Cons x xs)
  then show ?case by (cases x; cases ys) auto
qed auto

lemma scan_data_id: "tx_scan_data C tx = Some td \<Longrightarrow> TxID C tx = Some (td_TxID td)"
  by (auto simp: tx_scan_data_def)

lemma scan_index: "tx_scan_data C tx = Some td \<Longrightarrow> map od_Index (td_Outputs td) = map int [0..<length (td_Outputs td)]"
  by (auto simp: tx_scan_data_def output_scan_data_def split_def enumerate_eq_zip intro!: nth_equalityI)

lemma absent_scan_tx:
  assumes "td_TxID td \<noteq> fst p" "p \<notin> outpoint ` set (outs s)"
  shows "p \<notin> outpoint ` set (outs (scan_tx C t sc keys h td s))"
  unfolding scan_tx_def images_recorded by (rule absent_scan_outputs) (use assms in auto)

lemma ScanBlock_finds:
  assumes bd: "blockToScanData C height txs = Some bd" and tx: "tx \<in> set txs" "distinct (map (TxID C) txs)"
    and td: "tx_scan_data C tx = Some td" "j < length (td_Outputs td)"
    and own: "own_output C t sc (wd_Keys (w_data w)) height td (td_Outputs td ! j) = Some (o1, b)"
    and absent: "\<forall>out \<in> set (outputs w). oo_TxID out \<noteq> td_TxID td"
  shows "recorded o1 (outputs (fst (ScanBlock C t sc bd w)))"
proof -
  let ?keys = "wd_Keys (w_data w)"
  let ?s = "\<lparr>ss_wallet = w, ss_index = buildSpendableKeyImageIndex sc w, ss_found = 0, ss_spent = 0\<rparr>"
  have h: "bd_Height bd = height" and tds: "map (tx_scan_data C) txs = map Some (bd_Transactions bd)"
    using bd by (auto simp: blockToScanData_def those_eq_Some)
  obtain pre post where txs: "txs = pre @ tx # post" using tx(1) by (auto simp: in_set_conv_decomp)
  obtain pres posts where sp: "bd_Transactions bd = pres @ td # posts" "map (tx_scan_data C) pre = map Some pres"
    using tds td(1) by (auto simp: txs map_eq_append_conv append_eq_map_conv)
  note id = scan_data_id [OF td(1)]
  have pre: "\<forall>td' \<in> set pres. td_TxID td' \<noteq> td_TxID td"
  proof
    fix td' assume "td' \<in> set pres"
    then have "Some td' \<in> set (map (tx_scan_data C) pre)" by (simp add: sp(2))
    then obtain tx' where "tx' \<in> set pre" "TxID C tx' = Some (td_TxID td')" by (metis (no_types) imageE list.set_map scan_data_id)
    then show "td_TxID td' \<noteq> td_TxID td" using tx(2) id by (force simp: txs)
  qed
  let ?f = "\<lambda>td. scan_tx C t sc ?keys height td" and ?p = "(td_TxID td, int j)"
  have "?p \<notin> outpoint ` set (outs (fold ?f pres ?s))"
    by (rule fold_outs [where P = "\<lambda>os. ?p \<notin> outpoint ` set os"])
      (use pre absent absent_scan_tx [where p = ?p] in \<open>auto simp: outs_def outpoint_def\<close>)
  from scan_tx_finds [OF td(2) scan_index [OF td(1)] own this] have "recorded o1 (outs (?f td (fold ?f pres ?s)))" .
  then have "recorded o1 (outs (fold ?f posts (?f td (fold ?f pres ?s))))"
    by (rule fold_outs [where P = "recorded o1", rotated]) (rule scan_tx_recorded)
  then show ?thesis by (simp add: ScanBlock_def Let_def h sp(1) outs_def)
qed

text \<open>C32. Every recipient of a transfer finds the payment.  When the transaction a transfer returned is in a block, the wallet of the
  holder of a recipient's keys that scans the block records the output with the amount and the memo the sender put in.\<close>

theorem paid_output_found:
  assumes "transfer_ready C cfg env canon w" "pedersen C cfg valid pt hv gs" "length rs \<le> 255"
    and "Transfer C t cfg env rs feeRate h w = (w', Inr res)" "DeserializeTx (tr_TxData res) = Inr tx"
    and "same_group cfg sc" "key_agreement cfg sc (wd_Keys (w_data rw))"
    and "j < length rs" "rc_ViewPubKey (rs ! j) = sk_ViewPubKey (wd_Keys (w_data rw))"
      "rc_SpendPubKey (rs ! j) = sk_SpendPubKey (wd_Keys (w_data rw))"
    and "blockToScanData C height txs = Some bd" "tx \<in> set txs" "distinct (map (TxID C) txs)"
    and "\<forall>out \<in> set (outputs rw). oo_TxID out \<noteq> tr_TxID res"
  shows "\<exists>out \<in> set (outputs (fst (ScanBlock C t sc bd rw))). oo_TxID out = tr_TxID res \<and> oo_OutputIndex out = int j
    \<and> oo_Amount out = rc_Amount (rs ! j) \<and> oo_Memo out = rc_Memo (rs ! j)"
proof -
  obtain tx' where t: "node_accepts C canon (tr_TxData res) (tr_TxID res) tx'" "pays C t cfg (te_pad env) rs tx'" "Inputs tx' \<noteq> []"
    using Transfer_ok [OF assms(1-4)] by blast
  have eq: "tx' = tx" and id: "TxID C tx = Some (tr_TxID res)" using t(1) assms(5) by (auto simp: node_accepts_def)
  obtain td where td: "tx_scan_data C tx = Some td" "td_TxID td = tr_TxID res" using id by (auto simp: tx_scan_data_def)
  have C: "sha3_32 C" using assms(1) by (simp add: transfer_ready_def laws_ok_def)
  obtain o1 where o1: "j < length (td_Outputs td)" "own_output C t sc (wd_Keys (w_data rw)) height td (td_Outputs td ! j) = Some (o1, False)"
      "oo_TxID o1 = td_TxID td" "oo_OutputIndex o1 = int j" "oo_Amount o1 = rc_Amount (rs ! j)" "oo_Memo o1 = rc_Memo (rs ! j)"
    using paid_output_recognised [OF C assms(6,7) t(2) [unfolded eq] t(3) [unfolded eq] td(1) assms(8,9,10)] by blast
  have "recorded o1 (outputs (fst (ScanBlock C t sc bd rw)))"
    by (rule ScanBlock_finds [OF assms(11-13) td(1) o1(1,2)]) (use assms(14) td(2) in auto)
  then show ?thesis using o1 td(2) by (auto simp: recorded_def outpoint_def)
qed

section \<open>The theorems applied\<close>

text \<open>A scanner for the sample callbacks, and a receiver whose view and spend keys are their own public keys.\<close>

definition toy_scanner :: ScannerConfig where
  "toy_scanner = \<lparr>sc_checkStealthOutput = (\<lambda>_ _ _ _. False), sc_deriveSpendKey = (\<lambda>_ _ _. None),
     sc_deriveOutputSecret = (\<lambda>_ viewPriv. Some viewPriv), sc_deriveOutputSecretIndexed = None, sc_GenerateKeyImage = Some,
     sc_CreateCommitment = Some (\<lambda>v _. Some (point_bytes v)), sc_ScalarToPoint = Some (\<lambda>s. Some (pad32 s)),
     sc_PointAdd = Some (\<lambda>p _. Some (pad32 p)), sc_BlindingAdd = Some (\<lambda>a _. Some a)\<rparr>"

definition toy_keys :: StealthKeys where
  "toy_keys = \<lparr>sk_SpendPrivKey = replicate 32 7, sk_SpendPubKey = replicate 32 7, sk_ViewPrivKey = replicate 32 8, sk_ViewPubKey = replicate 32 8\<rparr>"

definition toy_receiver :: Wallet where
  "toy_receiver = empty_wallet\<lparr>w_data := (w_data empty_wallet)\<lparr>wd_Keys := toy_keys\<rparr>\<rparr>"

lemma pad32_simps [simp]: "pad32 (pad32 bs) = pad32 bs" "pad32 (replicate 32 b) = replicate 32 b"
  by (simp_all add: pad32_def)

lemma toy_receiver_simps [simp]: "wd_Keys (w_data toy_receiver) = toy_keys" "outputs toy_receiver = []"
  by (simp_all add: toy_receiver_def empty_wallet_def init_wallet_def)

lemma toy_scanner_laws:
  "same_group toy_transfer toy_scanner" "scalar_hom toy_transfer" "keys_ok toy_transfer toy_keys"
  "key_agreement toy_transfer toy_scanner toy_keys"
  by (simp_all add: same_group_def scalar_hom_def keys_ok_def key_agreement_def toy_transfer_def toy_scanner_def toy_keys_def)


theorem paid_output_found_witness:
  "\<exists>w' res tx bd. Transfer toy_crypto False toy_transfer toy_env [toy_recipient] 0 100 (sample_wallet [toy_coin]) = (w', Inr res)
     \<and> DeserializeTx (tr_TxData res) = Inr tx \<and> blockToScanData toy_crypto 101 [tx] = Some bd
     \<and> (\<exists>out \<in> set (outputs (fst (ScanBlock toy_crypto False toy_scanner bd toy_receiver))).
          oo_TxID out = tr_TxID res \<and> oo_Amount out = 4000 \<and> oo_Memo out = [1, 2])"
proof -
  obtain w' res where t: "Transfer toy_crypto False toy_transfer toy_env [toy_recipient] 0 100 (sample_wallet [toy_coin]) = (w', Inr res)"
    using toy_transfer_succeeds by blast
  have len: "length [toy_recipient] \<le> 255" by simp
  obtain tx where tx: "DeserializeTx (tr_TxData res) = Inr tx" "TxID toy_crypto tx = Some (tr_TxID res)"
    using Transfer_ok [OF toy_ready toy_pedersen len t] by (auto simp: node_accepts_def)
  obtain bd where bd: "blockToScanData toy_crypto 101 [tx] = Some bd" using tx(2) by (auto simp: blockToScanData_def tx_scan_data_def)
  have "\<exists>out \<in> set (outputs (fst (ScanBlock toy_crypto False toy_scanner bd toy_receiver))). oo_TxID out = tr_TxID res
      \<and> oo_OutputIndex out = int 0 \<and> oo_Amount out = rc_Amount ([toy_recipient] ! 0) \<and> oo_Memo out = rc_Memo ([toy_recipient] ! 0)"
    by (rule paid_output_found [OF toy_ready toy_pedersen len t tx(1) toy_scanner_laws(1) _ _ _ _ bd])
      (simp_all add: toy_scanner_laws(4), simp_all add: toy_recipient_def toy_keys_def)
  then show ?thesis using t tx(1) bd by (auto simp: toy_recipient_def)
qed

end
