(* ===== verification/Daemon.thy ===== *)
theory Daemon
  imports Node MempoolProps
begin

text \<open>
  The daemon (\<open>src/daemon.go\<close>): what it does with blocks and transactions from peers, the miner and the wallet, how it
  keeps the mempool in step with the chain through extensions and reorganisations.  What it serves to syncing peers is in
  \<open>Sync\<close>.

  The result of a handler is \<^const>\<open>None\<close> when the code panics (a nil transaction in a decoded block, or the
  serialisation of a misaligned transaction) or does not return.  What a handler does outside the daemon (bans, relays,
  notifications) is returned as a list of effects in the order of the code.
\<close>

section \<open>State\<close>

type_synonym peer = string

datatype effect =
    BanPeer_call peer
  | PenalizePeer_call peer int
  | RewardPeer_call peer
  | RequestSyncCheck
  | RelayBlock peer bytes
  | BroadcastBlock Block
  | NotifyBlock Block
  | NotifyMinedBlock Block
  | NotifyMiner
  | BroadcastTx bytes

text \<open>A block as \<open>json.Unmarshal\<close> leaves it: a JSON \<open>null\<close> among the transactions is a nil pointer.\<close>

record JBlock =
  jb_Header :: BlockHeader
  jb_Transactions :: "Transaction option list"

record 'b daemon =
  dm_chain :: "'b chain"
  dm_mempool :: mempool
  dm_gossipBlockInFlight :: int
  dm_gossipBlockLastAttempt :: "(peer \<times> int) list"
  dm_saveCheckpoints :: bool
  dm_checkpointsFile :: string
  dm_lastCheckpointWritten :: u64
  dm_checkpointLines :: "(u64 \<times> hash) list"

text \<open>The clock readings, the order of map iteration and the outcome of file writes of one call.\<close>

record daemon_env =
  de_now :: "nat \<Rightarrow> i64"
  de_time :: int
  de_requeue :: "nat \<Rightarrow> nat \<Rightarrow> int"
  de_ord :: map_order
  de_write :: bool

datatype daemon_error =
    MalformedBlock | InvalidVersion | BlockTooLargeError nat | NoTransactions | FirstNotCoinbase | MultipleCoinbase
  | NilTransaction nat | ZeroMemo nat nat | RateLimited | ValidationBusy | RejectedBlock chain_error
  | ErrDuplicateBlock | ErrSideChainBlock | ErrStaleBlock u64 u64 | ErrStaleParent | MalformedTx | MempoolRejected mempool_error

section \<open>Prefilters\<close>

text \<open>\<open>block.Size()\<close>, \<open>IsCoinbase()\<close> on a nil transaction panic.\<close>

definition jblock_Size :: "JBlock \<Rightarrow> nat option" where
  "jblock_Size b = map_option (\<lambda>txs. blockHeaderSerializedSize + sum_list (map Size txs)) (those (jb_Transactions b))"

fun coinbase_after :: "Transaction option list \<Rightarrow> bool option" where
  "coinbase_after [] = Some False"
| "coinbase_after (tx # txs) =
     (case tx of None \<Rightarrow> None | Some t \<Rightarrow> if IsCoinbase t then Some True else coinbase_after txs)"

fun memo_check :: "nat \<Rightarrow> nat \<Rightarrow> TxOutput list \<Rightarrow> daemon_error + unit" where
  "memo_check ti oi [] = Inr ()"
| "memo_check ti oi (out # outs) =
     (if list_all (\<lambda>b. b = 0) (EncryptedMemo out) then Inl (ZeroMemo ti oi) else memo_check ti (Suc oi) outs)"

fun memo_checks :: "nat \<Rightarrow> Transaction option list \<Rightarrow> daemon_error + unit" where
  "memo_checks ti [] = Inr ()"
| "memo_checks ti (tx # txs) =
     (case tx of None \<Rightarrow> Inl (NilTransaction ti)
      | Some t \<Rightarrow> (case memo_check ti 0 (Outputs t) of Inl e \<Rightarrow> Inl e | Inr _ \<Rightarrow> memo_checks (Suc ti) txs))"

definition validateBlockCheapPrefilters :: "JBlock \<Rightarrow> (daemon_error + unit) option" where
  "validateBlockCheapPrefilters block =
     (if Version (jb_Header block) = 0 then Some (Inl InvalidVersion)
      else case jblock_Size block of None \<Rightarrow> None
      | Some sz \<Rightarrow>
          if MaxBlockSize < sz then Some (Inl (BlockTooLargeError sz))
          else case jb_Transactions block of
            [] \<Rightarrow> Some (Inl NoTransactions)
          | first # rest \<Rightarrow>
              (case first of None \<Rightarrow> None
               | Some tx \<Rightarrow>
                   if \<not> IsCoinbase tx then Some (Inl FirstNotCoinbase)
                   else (case coinbase_after rest of
                           None \<Rightarrow> None
                         | Some True \<Rightarrow> Some (Inl MultipleCoinbase)
                         | Some False \<Rightarrow> Some (memo_checks 0 (jb_Transactions block)))))"

text \<open>The block behind the pointers; \<^const>\<open>None\<close> is the panic of the first use of a nil transaction.\<close>

definition deref_block :: "JBlock \<Rightarrow> Block option" where
  "deref_block block = map_option (\<lambda>txs. \<lparr>Header = jb_Header block, Transactions = txs\<rparr>) (those (jb_Transactions block))"

section \<open>The mempool after a new tip\<close>

text \<open>\<open>collectReorgDiffBlocks\<close>: the walk down the new chain, with the number of blocks that may still be collected, ...\<close>

fun walk_new :: "'b bolt \<Rightarrow> hash \<Rightarrow> nat \<Rightarrow> hash \<Rightarrow> 'b chain \<Rightarrow> (hash list \<times> Block list) option \<times> 'b chain" where
  "walk_new B oldTip 0 hash c = (Some ([], []), c)"
| "walk_new B oldTip (Suc n) hash c =
     (if hash = oldTip then (Some ([hash], []), c)
      else case chain_GetBlock B c hash of
        (None, c) \<Rightarrow> (None, c)
      | (Some block, c) \<Rightarrow>
          if bheight block = 0 \<or> n = 0 then (Some ([hash], [block]), c)
          else (case walk_new B oldTip n (bprev block) c of
                  (None, c) \<Rightarrow> (None, c)
                | (Some (hs, bs), c) \<Rightarrow> (Some (hash # hs, block # bs), c)))"

definition maxReorgWalk :: nat where "maxReorgWalk = 1000"

text \<open>... the walk down the old chain to the common ancestor, ...\<close>

partial_function (option) walk_old :: "'b bolt \<Rightarrow> hash list \<Rightarrow> hash \<Rightarrow> (hash, Block) fmap \<Rightarrow> 'b chain
    \<Rightarrow> ((hash \<times> (hash, Block) fmap) option \<times> 'b chain) option" where
  "walk_old B newChainSet hash oldAncestors c =
     (if hash \<in> set newChainSet then Some (Some (hash, oldAncestors), c)
      else case chain_GetBlock B c hash of
        (None, c) \<Rightarrow> Some (None, c)
      | (Some block, c) \<Rightarrow>
          if bheight block = 0 \<or> maxReorgWalk \<le> fcard (fmdom (fmupd hash block oldAncestors)) then Some (None, c)
          else walk_old B newChainSet (bprev block) (fmupd hash block oldAncestors) c)"

text \<open>... and the blocks to disconnect, newest first.\<close>

partial_function (option) old_blocks :: "(hash, Block) fmap \<Rightarrow> hash \<Rightarrow> hash \<Rightarrow> Block list option option" where
  "old_blocks oldAncestors common hash =
     (if hash = common then Some (Some [])
      else case fmlookup oldAncestors hash of
        None \<Rightarrow> Some None
      | Some block \<Rightarrow> Option.bind (old_blocks oldAncestors common (bprev block)) (\<lambda>r. Some (map_option ((#) block) r)))"

definition collectReorgDiffBlocks :: "crypto \<Rightarrow> 'b bolt \<Rightarrow> hash \<Rightarrow> hash \<Rightarrow> 'b chain \<Rightarrow> ((Block list \<times> Block list) \<times> 'b chain) option" where
  "collectReorgDiffBlocks C B oldTip newTip c =
     (case walk_new B oldTip maxReorgWalk newTip c of
        (None, c) \<Rightarrow> Some (([], []), c)
      | (Some (newChainSet, reversed), c) \<Rightarrow>
     (case walk_old B newChainSet oldTip fmempty c of
        None \<Rightarrow> None
      | Some (None, c) \<Rightarrow> Some (([], []), c)
      | Some (Some (common, oldAncestors), c) \<Rightarrow>
     (case old_blocks oldAncestors common oldTip of
        None \<Rightarrow> None
      | Some None \<Rightarrow> Some (([], []), c)
      | Some (Some disconnected) \<Rightarrow>
          Some ((disconnected, rev (takeWhile (\<lambda>b. Hash C b \<noteq> common) reversed)), c))))"

fun txDataMapForBlock :: "crypto \<Rightarrow> Transaction list \<Rightarrow> (hash \<rightharpoonup> bytes) \<Rightarrow> (hash \<rightharpoonup> bytes) option" where
  "txDataMapForBlock C [] m = Some m"
| "txDataMapForBlock C (tx # txs) m =
     (case TxID C tx of None \<Rightarrow> None
      | Some txID \<Rightarrow> (case Serialize tx of None \<Rightarrow> None | Some d \<Rightarrow> txDataMapForBlock C txs (m(txID \<mapsto> d))))"

fun disconnect_all :: "crypto \<Rightarrow> KeyImageChecker \<Rightarrow> (nat \<Rightarrow> nat \<Rightarrow> int) \<Rightarrow> nat \<Rightarrow> Block list \<Rightarrow> mempool \<Rightarrow> mempool option" where
  "disconnect_all C isSpent now i [] m = Some m"
| "disconnect_all C isSpent now i (b # bs) m =
     (case txDataMapForBlock C (Transactions b) Map.empty of None \<Rightarrow> None
      | Some d \<Rightarrow> (case OnBlockDisconnected C isSpent (now i) b d m of None \<Rightarrow> None
                  | Some m \<Rightarrow> disconnect_all C isSpent now (Suc i) bs m))"

fun connect_all :: "crypto \<Rightarrow> Block list \<Rightarrow> mempool \<Rightarrow> mempool option" where
  "connect_all C [] m = Some m"
| "connect_all C (b # bs) m = (case OnBlockConnected C b m of None \<Rightarrow> None | Some m \<Rightarrow> connect_all C bs m)"

definition expire :: "daemon_env \<Rightarrow> mempool \<Rightarrow> mempool" where
  "expire env m = snd (RemoveExpired (de_ord env) (de_time env) m)"

definition updateMempoolForAcceptedMainChain :: "crypto \<Rightarrow> 'b bolt \<Rightarrow> daemon_env \<Rightarrow> Block \<Rightarrow> hash \<Rightarrow> 'b daemon \<Rightarrow> 'b daemon option" where
  "updateMempoolForAcceptedMainChain C B env block previousBest d =
     (if bprev block = previousBest
      then map_option (\<lambda>m. d\<lparr>dm_mempool := expire env m\<rparr>) (OnBlockConnected C block (dm_mempool d))
      else case collectReorgDiffBlocks C B previousBest (bestHash (dm_chain d)) (dm_chain d) of
        None \<Rightarrow> None
      | Some ((disconnected, connected), c) \<Rightarrow>
          if connected = []
          then map_option (\<lambda>m. d\<lparr>dm_chain := c, dm_mempool := expire env m\<rparr>) (OnBlockConnected C block (dm_mempool d))
          else case disconnect_all C (isKeyImageSpentLocked B c) (de_requeue env) 0 disconnected (dm_mempool d) of
            None \<Rightarrow> None
          | Some m \<Rightarrow> map_option (\<lambda>m. d\<lparr>dm_chain := c, dm_mempool := expire env m\<rparr>) (connect_all C connected m))"

definition maybeAppendCheckpointLocked :: "crypto \<Rightarrow> daemon_env \<Rightarrow> Block \<Rightarrow> 'b daemon \<Rightarrow> 'b daemon" where
  "maybeAppendCheckpointLocked C env block d =
     (let h = bheight block in
      if \<not> dm_saveCheckpoints d \<or> h = 0 \<or> h mod 100 \<noteq> 0 \<or> h \<le> dm_lastCheckpointWritten d \<or> dm_checkpointsFile d = [] \<or> \<not> de_write env
      then d
      else d\<lparr>dm_checkpointLines := dm_checkpointLines d @ [(h, Hash C block)], dm_lastCheckpointWritten := h\<rparr>)"

section \<open>Blocks\<close>

text \<open>What the three entry points share: process, and on a new tip update the mempool and the checkpoints file.\<close>

definition process_and_update :: "crypto \<Rightarrow> net_params \<Rightarrow> 'b bolt \<Rightarrow> daemon_env \<Rightarrow> Block \<Rightarrow> 'b daemon
    \<Rightarrow> ((chain_error + bool \<times> bool) \<times> 'b daemon) option" where
  "process_and_update C P B env block d =
     (let prevBest = bestHash (dm_chain d) in
      case ProcessBlock C P B (de_now env) block (dm_chain d) of (r, c) \<Rightarrow>
        let d = d\<lparr>dm_chain := c\<rparr> in
        if r = Inr (True, True)
        then map_option (\<lambda>d. (r, maybeAppendCheckpointLocked C env block d)) (updateMempoolForAcceptedMainChain C B env block prevBest d)
        else Some (r, d))"

definition processBlockData :: "crypto \<Rightarrow> net_params \<Rightarrow> 'b bolt \<Rightarrow> (bytes \<Rightarrow> JBlock option) \<Rightarrow> daemon_env \<Rightarrow> bytes \<Rightarrow> 'b daemon
    \<Rightarrow> ((daemon_error + unit) \<times> 'b daemon) option" where
  "processBlockData C P B unmarshal env data d =
     (case unmarshal data of None \<Rightarrow> Some (Inl MalformedBlock, d)
      | Some jb \<Rightarrow>
     (case validateBlockCheapPrefilters jb of None \<Rightarrow> None
      | Some (Inl e) \<Rightarrow> Some (Inl e, d)
      | Some (Inr _) \<Rightarrow>
     (case deref_block jb of None \<Rightarrow> None
      | Some block \<Rightarrow>
     (case process_and_update C P B env block d of None \<Rightarrow> None
      | Some (Inl e, d) \<Rightarrow> Some (Inl (RejectedBlock e), d)
      | Some (Inr (accepted, isMainChain), d) \<Rightarrow>
          Some (if \<not> accepted then Inl ErrDuplicateBlock else if \<not> isMainChain then Inl ErrSideChainBlock else Inr (), d)))))"

text \<open>The gate of gossip blocks: one validation at a time and one per peer every three seconds (times in nanoseconds).
  The list is the LRU list, most recent first; its index holds exactly the elements of the list.\<close>

definition gossip_second :: int where "gossip_second = 1000000000"

definition maxGossipBlockAttemptEntries :: nat where "maxGossipBlockAttemptEntries = 4096"

definition PurgeBefore :: "int \<Rightarrow> (peer \<times> int) list \<Rightarrow> (peer \<times> int) list" where
  "PurgeBefore cutoff lru = rev (dropWhile (\<lambda>(pid, lastAt). \<not> cutoff < lastAt) (rev lru))"

definition lru_Get :: "peer \<Rightarrow> (peer \<times> int) list \<Rightarrow> int option \<times> (peer \<times> int) list" where
  "lru_Get pid lru = (case map_of lru pid of None \<Rightarrow> (None, lru)
     | Some lastAt \<Rightarrow> (Some lastAt, (pid, lastAt) # filter (\<lambda>(p, _). p \<noteq> pid) lru))"

definition lru_Set :: "peer \<Rightarrow> int \<Rightarrow> (peer \<times> int) list \<Rightarrow> (peer \<times> int) list" where
  "lru_Set pid t lru = take maxGossipBlockAttemptEntries ((pid, t) # filter (\<lambda>(p, _). p \<noteq> pid) lru)"

definition acquireGossipBlockValidationSlot :: "int \<Rightarrow> peer \<Rightarrow> 'b daemon \<Rightarrow> (daemon_error + unit) \<times> 'b daemon" where
  "acquireGossipBlockValidationSlot now pid d =
     (case lru_Get pid (PurgeBefore (now - 30 * 60 * gossip_second) (dm_gossipBlockLastAttempt d)) of (lastAt, lru) \<Rightarrow>
        let d = d\<lparr>dm_gossipBlockLastAttempt := lru\<rparr> in
        if (case lastAt of Some t \<Rightarrow> now - t < 3 * gossip_second | None \<Rightarrow> False) then (Inl RateLimited, d)
        else if 1 \<le> dm_gossipBlockInFlight d then (Inl ValidationBusy, d)
        else (Inr (), d\<lparr>dm_gossipBlockLastAttempt := lru_Set pid now lru, dm_gossipBlockInFlight := dm_gossipBlockInFlight d + 1\<rparr>))"

definition releaseGossipBlockValidationSlot :: "'b daemon \<Rightarrow> 'b daemon" where
  "releaseGossipBlockValidationSlot d =
     (if 0 < dm_gossipBlockInFlight d then d\<lparr>dm_gossipBlockInFlight := dm_gossipBlockInFlight d - 1\<rparr> else d)"

definition gossipPenaltyMisbehave :: int where "gossipPenaltyMisbehave = -25"

definition penalizeInvalidGossipPeer :: "peer \<Rightarrow> int \<Rightarrow> effect list" where
  "penalizeInvalidGossipPeer pid penalty =
     (if pid = [] then [] else if penalty \<le> gossipPenaltyMisbehave then [BanPeer_call pid] else [PenalizePeer_call pid penalty])"

definition handleBlock :: "crypto \<Rightarrow> net_params \<Rightarrow> 'b bolt \<Rightarrow> (bytes \<Rightarrow> JBlock option) \<Rightarrow> daemon_env \<Rightarrow> peer \<Rightarrow> bytes \<Rightarrow> 'b daemon
    \<Rightarrow> (effect list \<times> 'b daemon) option" where
  "handleBlock C P B unmarshal env from data d =
     (let punish = penalizeInvalidGossipPeer from gossipPenaltyMisbehave in
      case unmarshal data of None \<Rightarrow> Some (punish, d)
      | Some jb \<Rightarrow>
     (case validateBlockCheapPrefilters jb of None \<Rightarrow> None
      | Some (Inl e) \<Rightarrow> Some (punish, d)
      | Some (Inr _) \<Rightarrow>
     (case acquireGossipBlockValidationSlot (de_time env) from d of
        (Inl e, d) \<Rightarrow> Some (punish, d)
      | (Inr _, d) \<Rightarrow>
     (case deref_block jb of None \<Rightarrow> None
      | Some block \<Rightarrow>
     (case process_and_update C P B env block d of None \<Rightarrow> None
      | Some (Inl e, d) \<Rightarrow> Some (punish, releaseGossipBlockValidationSlot d)
      | Some (Inr (accepted, isMainChain), d) \<Rightarrow>
          Some (if accepted \<and> isMainChain then [RelayBlock from data, NotifyBlock block, NotifyMiner] else [],
                releaseGossipBlockValidationSlot d))))))"

definition validateSubmitBlockStaleLocked :: "Block \<Rightarrow> 'b chain \<Rightarrow> daemon_error + unit" where
  "validateSubmitBlockStaleLocked block c =
     (if bheight block \<le> height c then Inl (ErrStaleBlock (height c + 1) (bheight block))
      else if bheight block = height c + 1 \<and> bprev block \<noteq> bestHash c then Inl ErrStaleParent
      else Inr ())"

definition SubmitBlock :: "crypto \<Rightarrow> net_params \<Rightarrow> 'b bolt \<Rightarrow> daemon_env \<Rightarrow> Block \<Rightarrow> 'b daemon
    \<Rightarrow> ((daemon_error + unit) \<times> effect list \<times> 'b daemon) option" where
  "SubmitBlock C P B env block d =
     (case validateSubmitBlockStaleLocked block (dm_chain d) of Inl e \<Rightarrow> Some (Inl e, [], d)
      | Inr _ \<Rightarrow>
     (case process_and_update C P B env block d of None \<Rightarrow> None
      | Some (Inl e, d) \<Rightarrow> Some (Inl (RejectedBlock e), [], d)
      | Some (Inr (accepted, isMainChain), d) \<Rightarrow>
          if \<not> accepted then Some (Inl ErrDuplicateBlock, [], d)
          else Some (Inr (), (if isMainChain then [NotifyMiner] else []) @ [BroadcastBlock block, NotifyBlock block, NotifyMinedBlock block], d)))"

section \<open>Transactions\<close>

definition add_to_mempool :: "crypto \<Rightarrow> 'b bolt \<Rightarrow> daemon_env \<Rightarrow> Transaction \<Rightarrow> bytes \<Rightarrow> 'b daemon
    \<Rightarrow> ((mempool_error + unit) \<times> 'b daemon) option" where
  "add_to_mempool C B env tx data d =
     map_option (\<lambda>(r, m, c). (r, d\<lparr>dm_chain := c, dm_mempool := m\<rparr>))
       (AddTransaction C (isKeyImageSpentLocked B (dm_chain d)) (isCanonicalRingMemberLocked B) (de_ord env) (de_time env) tx data
          (dm_mempool d) (dm_chain d))"

fun shouldPenalizeTxGossipRejection :: "mempool_error \<Rightarrow> bool" where
  "shouldPenalizeTxGossipRejection (ValidationFailed e) = True"
| "shouldPenalizeTxGossipRejection CoinbaseInMempool = True"
| "shouldPenalizeTxGossipRejection (MempoolDoubleSpend k) = True"
| "shouldPenalizeTxGossipRejection e = False"

definition handleTx :: "crypto \<Rightarrow> 'b bolt \<Rightarrow> daemon_env \<Rightarrow> peer \<Rightarrow> bytes \<Rightarrow> 'b daemon \<Rightarrow> (effect list \<times> 'b daemon) option" where
  "handleTx C B env from data d =
     (let punish = penalizeInvalidGossipPeer from gossipPenaltyMisbehave in
      case DeserializeTx data of Inl e \<Rightarrow> Some (punish, d)
      | Inr tx \<Rightarrow>
     (case TxID C tx of None \<Rightarrow> None
      | Some txID \<Rightarrow>
          if HasTransaction txID (dm_mempool d) then Some ([], d)
          else (case add_to_mempool C B env tx data d of None \<Rightarrow> None
                | Some (Inl e, d) \<Rightarrow> Some (if shouldPenalizeTxGossipRejection e then punish else [], d)
                | Some (Inr _, d) \<Rightarrow> Some ([], d))))"

definition processTxData :: "crypto \<Rightarrow> 'b bolt \<Rightarrow> daemon_env \<Rightarrow> bytes \<Rightarrow> 'b daemon \<Rightarrow> ((daemon_error + unit) \<times> 'b daemon) option" where
  "processTxData C B env data d =
     (case DeserializeTx data of Inl e \<Rightarrow> Some (Inl MalformedTx, d)
      | Inr tx \<Rightarrow> map_option (\<lambda>(r, d). (Inr (), d)) (add_to_mempool C B env tx data d))"

definition SubmitTransaction :: "crypto \<Rightarrow> 'b bolt \<Rightarrow> daemon_env \<Rightarrow> bytes \<Rightarrow> 'b daemon
    \<Rightarrow> ((daemon_error + unit) \<times> effect list \<times> 'b daemon) option" where
  "SubmitTransaction C B env data d =
     (case DeserializeTx data of Inl e \<Rightarrow> Some (Inl MalformedTx, [], d)
      | Inr tx \<Rightarrow>
          map_option (\<lambda>(r, d). case r of Inl e \<Rightarrow> (Inl (MempoolRejected e), [], d) | Inr _ \<Rightarrow> (Inr (), [BroadcastTx data], d))
            (add_to_mempool C B env tx data d))"

end
