(* ===== verification/Framing.thy ===== *)
theory Framing
  imports Prelude
begin

text \<open>
  Message framing of the peer-to-peer streams (\<open>src/p2p/util.go\<close>) and the size caps of the sync protocol
  (\<open>src/p2p/sync.go\<close>).

  A stream is the list of the bytes that will still arrive; it ends where the peer closes it.  A writer returns the bytes
  it has put on the stream next to its result, since an error may come after a part was written.  A write that the
  transport refuses is not modelled: the peer then sees a prefix of these bytes.
\<close>

section \<open>Reading and writing\<close>

datatype frame_error = FrameTooLarge nat nat | FrameEOF | FrameUnexpectedEOF | UnknownMessageType byte

definition MaxMessageSize :: nat where "MaxMessageSize = 16 * 1024 * 1024"

definition BE_Uint32 :: "bytes \<Rightarrow> u32" where
  "BE_Uint32 bs = Uint32 (rev (take 4 bs))"

definition ReadFull :: "nat \<Rightarrow> bytes \<Rightarrow> frame_error + bytes \<times> bytes" where
  "ReadFull n r =
     (if n \<le> length r then Inr (take n r, drop n r) else if r = [] then Inl FrameEOF else Inl FrameUnexpectedEOF)"

definition writeLengthPrefixed :: "bytes \<Rightarrow> bytes \<times> (frame_error + unit)" where
  "writeLengthPrefixed data =
     (if MaxMessageSize < length data then ([], Inl (FrameTooLarge (length data) MaxMessageSize))
      else (BE_PutUint32 (word_of_nat (length data)) @ data, Inr ()))"

definition readLengthPrefixedWithLimit :: "u32 \<Rightarrow> bytes \<Rightarrow> frame_error + bytes \<times> bytes" where
  "readLengthPrefixedWithLimit maxSize r =
     (case ReadFull 4 r of Inl e \<Rightarrow> Inl e
      | Inr (lenBuf, r) \<Rightarrow>
          let len = BE_Uint32 lenBuf in
          if maxSize < len then Inl (FrameTooLarge (unat len) (unat maxSize)) else ReadFull (unat len) r)"

definition writeMessage :: "byte \<Rightarrow> bytes \<Rightarrow> bytes \<times> (frame_error + unit)" where
  "writeMessage msgType data = (case writeLengthPrefixed data of (written, r) \<Rightarrow> (msgType # written, r))"

definition readMessageWithLimit :: "(byte \<Rightarrow> frame_error + u32) \<Rightarrow> bytes \<Rightarrow> frame_error + (byte \<times> bytes) \<times> bytes" where
  "readMessageWithLimit maxForType r =
     (case ReadFull 1 r of Inl e \<Rightarrow> Inl e
      | Inr (typeBuf, r) \<Rightarrow>
     (case maxForType (hd typeBuf) of Inl e \<Rightarrow> Inl e
      | Inr maxSize \<Rightarrow>
     (case readLengthPrefixedWithLimit maxSize r of Inl e \<Rightarrow> Inl e
      | Inr (data, r) \<Rightarrow> Inr ((hd typeBuf, data), r))))"

section \<open>Sync messages\<close>

abbreviation SyncMsgGetHeaders :: byte where "SyncMsgGetHeaders \<equiv> 1"
abbreviation SyncMsgHeaders :: byte where "SyncMsgHeaders \<equiv> 2"
abbreviation SyncMsgGetBlocks :: byte where "SyncMsgGetBlocks \<equiv> 3"
abbreviation SyncMsgBlocks :: byte where "SyncMsgBlocks \<equiv> 4"
abbreviation SyncMsgStatus :: byte where "SyncMsgStatus \<equiv> 5"
abbreviation SyncMsgNewBlock :: byte where "SyncMsgNewBlock \<equiv> 6"
abbreviation SyncMsgGetMempool :: byte where "SyncMsgGetMempool \<equiv> 7"
abbreviation SyncMsgMempool :: byte where "SyncMsgMempool \<equiv> 8"
abbreviation SyncMsgGetBlocksByHeight :: byte where "SyncMsgGetBlocksByHeight \<equiv> 9"

definition syncMessageMaxSize :: "byte \<Rightarrow> frame_error + u32" where
  "syncMessageMaxSize msgType =
     (if msgType = SyncMsgStatus then Inr (32 * 1024)
      else if msgType = SyncMsgGetHeaders then Inr (32 * 1024)
      else if msgType = SyncMsgHeaders then Inr (3 * 1024 * 1024)
      else if msgType = SyncMsgGetBlocks then Inr (64 * 1024)
      else if msgType = SyncMsgBlocks then Inr (12 * 1024 * 1024)
      else if msgType = SyncMsgNewBlock then Inr (2 * 1024 * 1024)
      else if msgType = SyncMsgGetMempool then Inr (4 * 1024)
      else if msgType = SyncMsgMempool then Inr (6 * 1024 * 1024)
      else if msgType = SyncMsgGetBlocksByHeight then Inr (32 * 1024)
      else Inl (UnknownMessageType msgType))"

definition readSyncMessage :: "bytes \<Rightarrow> frame_error + (byte \<times> bytes) \<times> bytes" where
  "readSyncMessage = readMessageWithLimit syncMessageMaxSize"

section \<open>Frames are exact\<close>

lemma BE_Uint32_Put [simp, codec_simps]: "BE_Uint32 (BE_PutUint32 w) = w"
  by (simp add: BE_Uint32_def BE_PutUint32_def len_simps)

lemma BE_Put_Uint32: "length bs = 4 \<Longrightarrow> BE_PutUint32 (BE_Uint32 bs) = bs"
  by (simp add: BE_PutUint32_def BE_Uint32_def Put_Uint32)

lemma ReadFull_Inr: "ReadFull n r = Inr (a, b) \<longleftrightarrow> r = a @ b \<and> length a = n"
  by (auto simp: ReadFull_def)

lemma read_length_prefixed:
  "readLengthPrefixedWithLimit cap r = Inr (data, rest) \<longleftrightarrow>
     length data \<le> unat cap \<and> r = BE_PutUint32 (word_of_nat (length data)) @ data @ rest"
proof
  assume "readLengthPrefixedWithLimit cap r = Inr (data, rest)"
  then obtain lenBuf r' where l: "ReadFull 4 r = Inr (lenBuf, r')" "\<not> cap < BE_Uint32 lenBuf"
    "ReadFull (unat (BE_Uint32 lenBuf)) r' = Inr (data, rest)"
    by (auto simp: readLengthPrefixedWithLimit_def Let_def split: sum.splits if_splits)
  then show "length data \<le> unat cap \<and> r = BE_PutUint32 (word_of_nat (length data)) @ data @ rest"
    by (auto simp: ReadFull_Inr BE_Put_Uint32 word_less_nat_alt)
next
  assume r: "length data \<le> unat cap \<and> r = BE_PutUint32 (word_of_nat (length data)) @ data @ rest"
  have "ReadFull 4 r = Inr (BE_PutUint32 (word_of_nat (length data)), data @ rest)"
    using r by (simp add: ReadFull_Inr len_simps)
  moreover have u: "unat (word_of_nat (length data) :: u32) = length data"
    using r unat_bound [of cap] by (simp add: unat_of_nat)
  moreover have "ReadFull (length data) (data @ rest) = Inr (data, rest)" by (simp add: ReadFull_Inr)
  ultimately show "readLengthPrefixedWithLimit cap r = Inr (data, rest)"
    using r by (simp add: readLengthPrefixedWithLimit_def word_less_nat_alt)
qed

lemma read_message:
  "readMessageWithLimit maxForType r = Inr ((t, data), rest) \<longleftrightarrow>
     (\<exists>cap. maxForType t = Inr cap \<and> length data \<le> unat cap \<and> r = t # BE_PutUint32 (word_of_nat (length data)) @ data @ rest)"
proof (cases r)
  case Nil
  then show ?thesis by (simp add: readMessageWithLimit_def ReadFull_def)
next
  case (Cons b bs)
  then have "ReadFull 1 r = Inr ([b], bs)" by (simp add: ReadFull_def)
  then have "readMessageWithLimit maxForType r = Inr ((t, data), rest) \<longleftrightarrow>
      t = b \<and> (\<exists>cap. maxForType b = Inr cap \<and> readLengthPrefixedWithLimit cap bs = Inr (data, rest))"
    by (auto simp: readMessageWithLimit_def split: sum.splits)
  then show ?thesis by (auto simp: Cons read_length_prefixed)
qed

lemma sync_caps: "syncMessageMaxSize t = Inr cap \<Longrightarrow> unat cap \<le> MaxMessageSize"
  by (auto simp: syncMessageMaxSize_def MaxMessageSize_def split: if_splits)

text \<open>C40. Frames of the sync protocol.  A reader gets a message exactly when the stream starts with its type, its length in
  four bytes and its payload, and the payload is within the cap of the type: it never accepts a longer one, leaves the rest
  of the stream untouched and reads no other encoding.  Every message within the cap of its type is written without error
  and read back as it was.\<close>

theorem sync_frames_exact:
  "(readSyncMessage stream = Inr ((t, data), rest) \<longleftrightarrow>
      (\<exists>cap. syncMessageMaxSize t = Inr cap \<and> length data \<le> unat cap
        \<and> stream = t # BE_PutUint32 (word_of_nat (length data)) @ data @ rest))
   \<and> (syncMessageMaxSize t = Inr cap \<and> length data \<le> unat cap \<longrightarrow>
      (\<exists>wire. writeMessage t data = (wire, Inr ()) \<and> readSyncMessage (wire @ rest) = Inr ((t, data), rest)))"
proof -
  have "\<exists>wire. writeMessage t data = (wire, Inr ()) \<and> readSyncMessage (wire @ rest) = Inr ((t, data), rest)"
    if "syncMessageMaxSize t = Inr cap" "length data \<le> unat cap"
    using that sync_caps [OF that(1)] by (auto simp: writeMessage_def writeLengthPrefixed_def readSyncMessage_def read_message)
  then show ?thesis by (simp add: readSyncMessage_def read_message)
qed

theorem sync_frames_exact_witness:
  "syncMessageMaxSize SyncMsgGetMempool = Inr (4 * 1024)
   \<and> writeMessage SyncMsgGetMempool [1, 2] = ([7, 0, 0, 0, 2, 1, 2], Inr ())
   \<and> readSyncMessage [7, 0, 0, 0, 2, 1, 2, 9] = Inr ((SyncMsgGetMempool, [1, 2]), [9])"
proof -
  have cap: "syncMessageMaxSize SyncMsgGetMempool = Inr (4 * 1024)" by (simp add: syncMessageMaxSize_def)
  have "length [1, 2 :: byte] \<le> unat (4 * 1024 :: u32)" by simp
  then obtain wire where wire: "writeMessage SyncMsgGetMempool [1, 2] = (wire, Inr ())"
    "readSyncMessage (wire @ [9]) = Inr ((SyncMsgGetMempool, [1, 2]), [9])"
    using sync_frames_exact [of "[]" SyncMsgGetMempool "[1, 2]" "[9]" "4 * 1024"] cap by blast
  have four: "(4 :: nat) = Suc (Suc (Suc (Suc 0)))" by simp
  have "BE_PutUint32 2 = [0, 0, 0, 2]" unfolding BE_PutUint32_def PutUint32_def four by simp
  then have "writeMessage SyncMsgGetMempool [1, 2] = ([7, 0, 0, 0, 2, 1, 2], Inr ())"
    by (simp add: writeMessage_def writeLengthPrefixed_def MaxMessageSize_def)
  then show ?thesis using wire cap by simp
qed

end
