(* ===== verification/Sync.thy ===== *)
theory Sync
  imports Daemon Framing
begin

text \<open>
  Chain synchronisation (\<open>src/p2p/sync.go\<close>) with the callbacks the daemon gives it (\<open>src/daemon.go\<close>): the requests a
  node answers, the choice of peers and ranges, the loop that processes downloaded blocks in order, the recovery of a block
  whose parents are missing, and the transfer of the mempool.

  The network is a parameter: what a peer answers and in which order answers arrive.  Blocks, requests and statuses travel
  as JSON; their decoders are fields of the record \<open>sync_json\<close>.  A batch of byte strings (\<open>[][]byte\<close>) is encoded as Go does,
  a JSON array of base64 strings, and a nil slice as \<open>null\<close>.  The read lock is released between the two reads of
  \<open>handleGetBlocksByHeight\<close>; here nothing runs in between.
\<close>

section \<open>Data\<close>

record ChainStatus =
  cs_BestHash :: hash
  cs_Height :: u64
  cs_TotalWork :: u64
  cs_Version :: u32
  cs_NetworkID :: string
  cs_ChainID :: u32

record HeadersRequest =
  hr_StartHeight :: u64
  hr_MaxHeaders :: int

record BlocksByHeightRequest =
  br_StartHeight :: u64
  br_MaxBlocks :: int

record PeerStatus =
  ps_Peer :: peer
  ps_Status :: ChainStatus

record SyncWork =
  sw_Start :: u64
  sw_End :: u64

record DownloadedBlock =
  db_Height :: u64
  db_Data :: bytes
  db_Peer :: peer

definition MaxHeadersPerRequest :: nat where "MaxHeadersPerRequest = 500"
definition MaxBlocksPerRequest :: nat where "MaxBlocksPerRequest = 100"
definition MaxSyncMempoolTxCount :: nat where "MaxSyncMempoolTxCount = 5000"
definition SyncHeadersResponseByteBudget :: nat where "SyncHeadersResponseByteBudget = 2 * 1024 * 1024"
definition SyncBlocksResponseByteBudget :: nat where "SyncBlocksResponseByteBudget = 8 * 1024 * 1024"
definition SyncMempoolResponseByteBudget :: nat where "SyncMempoolResponseByteBudget = 4 * 1024 * 1024"

definition ScorePenaltyInvalid :: int where "ScorePenaltyInvalid = -10"
definition ScorePenaltyTimeout :: int where "ScorePenaltyTimeout = -5"

section \<open>Batches of byte strings\<close>

definition b64_char :: "nat \<Rightarrow> byte" where
  "b64_char n = go_string ''ABCDEFGHIJKLMNOPQRSTUVWXYZabcdefghijklmnopqrstuvwxyz0123456789+/'' ! n"

fun base64 :: "bytes \<Rightarrow> bytes" where
  "base64 [] = []"
| "base64 [a] = [b64_char (unat a div 4), b64_char (unat a mod 4 * 16), 61, 61]"
| "base64 [a, b] =
     [b64_char (unat a div 4), b64_char (unat a mod 4 * 16 + unat b div 16), b64_char (unat b mod 16 * 4), 61]"
| "base64 (a # b # c # rest) =
     b64_char (unat a div 4) # b64_char (unat a mod 4 * 16 + unat b div 16)
     # b64_char (unat b mod 16 * 4 + unat c div 64) # b64_char (unat c mod 64) # base64 rest"

fun json_items :: "bytes list \<Rightarrow> bytes" where
  "json_items [] = []"
| "json_items [x] = 34 # base64 x @ [34]"
| "json_items (x # xs) = 34 # base64 x @ 34 # 44 # json_items xs"

definition json_batch :: "bytes list option \<Rightarrow> bytes" where
  "json_batch batch = (case batch of None \<Rightarrow> [110, 117, 108, 108] | Some items \<Rightarrow> 91 # json_items items @ [93])"

fun keep_within :: "nat \<Rightarrow> nat \<Rightarrow> bytes list \<Rightarrow> nat" where
  "keep_within byteBudget used [] = 0"
| "keep_within byteBudget used (item # items) =
     (if byteBudget < used + length item then 0 else Suc (keep_within byteBudget (used + length item) items))"

text \<open>All callers pass positive limits.\<close>

definition trimByteSliceBatch :: "bytes list \<Rightarrow> nat \<Rightarrow> nat \<Rightarrow> bytes list option" where
  "trimByteSliceBatch items maxItems byteBudget =
     (let items = take maxItems items in
      if byteBudget = 0 \<or> items = [] then None else Some (take (keep_within byteBudget 0 items) items))"

text \<open>The decoders; \<open>sj_count\<close> counts the elements of a JSON array and is \<^const>\<open>None\<close> for anything else.\<close>

record sync_json =
  sj_status :: "bytes \<Rightarrow> ChainStatus option"
  sj_headersRequest :: "bytes \<Rightarrow> HeadersRequest option"
  sj_blocksRequest :: "bytes \<Rightarrow> hash list option"
  sj_byHeightRequest :: "bytes \<Rightarrow> BlocksByHeightRequest option"
  sj_block :: "bytes \<Rightarrow> JBlock option"
  sj_marshalStatus :: "ChainStatus \<Rightarrow> bytes"
  sj_marshalHeader :: "BlockHeader \<Rightarrow> bytes"
  sj_marshalBlock :: "Block \<Rightarrow> bytes"
  sj_null :: "bytes \<Rightarrow> bool"
  sj_count :: "bytes \<Rightarrow> nat option"
  sj_batch :: "bytes \<Rightarrow> bytes list option"

definition ensureJSONArrayMaxItems :: "sync_json \<Rightarrow> bytes \<Rightarrow> nat \<Rightarrow> bool" where
  "ensureJSONArrayMaxItems J data maxItems = (case sj_count J data of None \<Rightarrow> False | Some n \<Rightarrow> n \<le> maxItems)"

section \<open>What a node serves\<close>

definition getChainStatus :: "string \<Rightarrow> u32 \<Rightarrow> 'b daemon \<Rightarrow> ChainStatus" where
  "getChainStatus networkID chainID d =
     \<lparr>cs_BestHash = bestHash (dm_chain d), cs_Height = height (dm_chain d), cs_TotalWork = totalWork (dm_chain d),
      cs_Version = 1, cs_NetworkID = networkID, cs_ChainID = chainID\<rparr>"

fun headers_loop :: "sync_json \<Rightarrow> 'b bolt \<Rightarrow> 'b chain \<Rightarrow> nat \<Rightarrow> u64 \<Rightarrow> bytes list" where
  "headers_loop J B c 0 h = []"
| "headers_loop J B c (Suc n) h =
     (if height c < h then []
      else case getBlockByHeightLocked B c h of None \<Rightarrow> []
      | Some block \<Rightarrow> sj_marshalHeader J (Header block) # headers_loop J B c n (h + 1))"

definition getHeaders :: "sync_json \<Rightarrow> 'b bolt \<Rightarrow> u64 \<Rightarrow> int \<Rightarrow> 'b daemon \<Rightarrow> bytes list" where
  "getHeaders J B startHeight maxCount d = headers_loop J B (dm_chain d) (nat maxCount) startHeight"

fun blocks_loop :: "sync_json \<Rightarrow> 'b bolt \<Rightarrow> hash list \<Rightarrow> 'b chain \<Rightarrow> bytes list \<times> 'b chain" where
  "blocks_loop J B [] c = ([], c)"
| "blocks_loop J B (h # hs) c =
     (case chain_GetBlock B c h of (block, c) \<Rightarrow>
      case blocks_loop J B hs c of (found, c) \<Rightarrow>
        ((case block of None \<Rightarrow> found | Some b \<Rightarrow> sj_marshalBlock J b # found), c))"

definition getBlocks :: "sync_json \<Rightarrow> 'b bolt \<Rightarrow> hash list \<Rightarrow> 'b daemon \<Rightarrow> bytes list \<times> 'b daemon" where
  "getBlocks J B hashes d = (case blocks_loop J B hashes (dm_chain d) of (found, c) \<Rightarrow> (found, d\<lparr>dm_chain := c\<rparr>))"

fun by_height_loop :: "sync_json \<Rightarrow> 'b bolt \<Rightarrow> 'b chain \<Rightarrow> nat \<Rightarrow> u64 \<Rightarrow> bytes list" where
  "by_height_loop J B c 0 h = []"
| "by_height_loop J B c (Suc n) h =
     (case getBlockByHeightLocked B c h of None \<Rightarrow> []
      | Some block \<Rightarrow> sj_marshalBlock J block # by_height_loop J B c n (h + 1))"

definition getBlocksByHeight :: "sync_json \<Rightarrow> 'b bolt \<Rightarrow> u64 \<Rightarrow> int \<Rightarrow> 'b daemon \<Rightarrow> bytes list" where
  "getBlocksByHeight J B startHeight maxCount d = by_height_loop J B (dm_chain d) (nat maxCount) startHeight"

definition getMempoolTxs :: "map_order \<Rightarrow> 'b daemon \<Rightarrow> bytes list" where
  "getMempoolTxs ord d = GetAllTransactionData ord (dm_mempool d)"

text \<open>A handler returns the bytes it writes to the stream.\<close>

definition handleStatus :: "sync_json \<Rightarrow> string \<Rightarrow> u32 \<Rightarrow> peer \<Rightarrow> bytes \<Rightarrow> 'b daemon \<Rightarrow> bytes \<times> effect list" where
  "handleStatus J networkID chainID from data d =
     (case sj_status J data of None \<Rightarrow> ([], [])
      | Some status \<Rightarrow>
          if cs_NetworkID status \<noteq> networkID \<or> cs_ChainID status \<noteq> chainID
          then ([], [PenalizePeer_call from ScorePenaltyInvalid])
          else let ourStatus = getChainStatus networkID chainID d in
            case writeMessage SyncMsgStatus (sj_marshalStatus J ourStatus) of
              (written, Inl e) \<Rightarrow> (written, [])
            | (written, Inr _) \<Rightarrow> (written, if cs_TotalWork ourStatus < cs_TotalWork status then [RequestSyncCheck] else []))"

definition handleGetHeaders :: "sync_json \<Rightarrow> 'b bolt \<Rightarrow> bytes \<Rightarrow> 'b daemon \<Rightarrow> bytes" where
  "handleGetHeaders J B data d =
     (case sj_headersRequest J data of None \<Rightarrow> []
      | Some req \<Rightarrow>
          let headers = getHeaders J B (hr_StartHeight req) (min (hr_MaxHeaders req) (int MaxHeadersPerRequest)) d
          in fst (writeMessage SyncMsgHeaders
               (json_batch (trimByteSliceBatch headers MaxHeadersPerRequest SyncHeadersResponseByteBudget))))"

definition handleGetBlocks :: "sync_json \<Rightarrow> 'b bolt \<Rightarrow> bytes \<Rightarrow> 'b daemon \<Rightarrow> bytes \<times> 'b daemon" where
  "handleGetBlocks J B data d =
     (case sj_blocksRequest J data of None \<Rightarrow> ([], d)
      | Some hashes \<Rightarrow>
     (case getBlocks J B (take MaxBlocksPerRequest hashes) d of (found, d) \<Rightarrow>
        (fst (writeMessage SyncMsgBlocks (json_batch (trimByteSliceBatch found MaxBlocksPerRequest SyncBlocksResponseByteBudget))), d)))"

definition handleGetBlocksByHeight :: "sync_json \<Rightarrow> 'b bolt \<Rightarrow> bytes \<Rightarrow> 'b daemon \<Rightarrow> bytes" where
  "handleGetBlocksByHeight J B data d =
     (case sj_byHeightRequest J data of None \<Rightarrow> []
      | Some req \<Rightarrow>
          if br_MaxBlocks req \<le> 0 then fst (writeMessage SyncMsgBlocks (json_batch (Some [])))
          else
            let maxBlocks = min (br_MaxBlocks req) (int MaxBlocksPerRequest);
                localTip = height (dm_chain d)
            in if localTip < br_StartHeight req then fst (writeMessage SyncMsgBlocks (json_batch (Some [])))
               else
                 let available = localTip - br_StartHeight req + 1;
                     maxBlocks = (if available < word_of_int maxBlocks then sint available else maxBlocks);
                     found = getBlocksByHeight J B (br_StartHeight req) maxBlocks d
                 in fst (writeMessage SyncMsgBlocks
                      (json_batch (trimByteSliceBatch found MaxBlocksPerRequest SyncBlocksResponseByteBudget))))"

definition handleGetMempool :: "map_order \<Rightarrow> 'b daemon \<Rightarrow> bytes" where
  "handleGetMempool ord d =
     (let txs = trimByteSliceBatch (getMempoolTxs ord d) MaxSyncMempoolTxCount SyncMempoolResponseByteBudget
      in fst (writeMessage SyncMsgMempool (json_batch (Some (case txs of None \<Rightarrow> [] | Some xs \<Rightarrow> xs)))))"

section \<open>Requests to a peer\<close>

text \<open>What the requester makes of the peer's answer.\<close>

definition read_blocks :: "sync_json \<Rightarrow> bytes \<Rightarrow> bytes list option" where
  "read_blocks J stream =
     (case readSyncMessage stream of Inl e \<Rightarrow> None
      | Inr ((msgType, data), _) \<Rightarrow>
          if msgType \<noteq> SyncMsgBlocks then None
          else if \<not> ensureJSONArrayMaxItems J data MaxBlocksPerRequest then None
          else sj_batch J data)"

definition getStatusFrom :: "sync_json \<Rightarrow> string \<Rightarrow> u32 \<Rightarrow> peer \<Rightarrow> bytes \<Rightarrow> ChainStatus option \<times> effect list" where
  "getStatusFrom J networkID chainID p stream =
     (case readSyncMessage stream of Inl e \<Rightarrow> (None, [])
      | Inr ((msgType, data), _) \<Rightarrow>
          if msgType \<noteq> SyncMsgStatus then (None, [])
          else case sj_status J data of None \<Rightarrow> (None, [])
          | Some status \<Rightarrow>
              if cs_NetworkID status \<noteq> networkID \<or> cs_ChainID status \<noteq> chainID
              then (None, [PenalizePeer_call p ScorePenaltyInvalid])
              else (Some status, []))"

section \<open>Choosing peers and ranges\<close>

text \<open>\<open>checkSync\<close> after the statuses have been collected: the peers to sync from and the target height.\<close>

definition max_work :: "PeerStatus list \<Rightarrow> u64" where
  "max_work pss = fold (\<lambda>ps m. if m < cs_TotalWork (ps_Status ps) then cs_TotalWork (ps_Status ps) else m) pss 0"

definition max_height :: "PeerStatus list \<Rightarrow> u64" where
  "max_height pss = fold (\<lambda>ps m. if m < cs_Height (ps_Status ps) then cs_Height (ps_Status ps) else m) pss
     (cs_Height (ps_Status (hd pss)))"

definition checkSync :: "ChainStatus \<Rightarrow> PeerStatus list \<Rightarrow> (PeerStatus list \<times> u64) option" where
  "checkSync ourStatus peerStatuses =
     (if peerStatuses = [] then None
      else
        let maxWork = max_work peerStatuses;
            syncPeers = filter (\<lambda>ps. maxWork \<le> cs_TotalWork (ps_Status ps)) peerStatuses
        in if syncPeers = [] then None
           else if maxWork \<le> cs_TotalWork ourStatus then None
           else Some (syncPeers, max_height syncPeers))"

definition computeSyncStartHeight :: "u64 \<Rightarrow> u64 \<Rightarrow> u64" where
  "computeSyncStartHeight ourHeight targetHeight =
     (if targetHeight - ourHeight \<le> 50 \<and> 10 < ourHeight then ourHeight - 10 else ourHeight + 1)"

text \<open>One round of the work distributor; and one of a downloader: its effects, the blocks it hands on for a piece of work, and
  whether it goes on.\<close>

definition next_work :: "u64 \<Rightarrow> u64 \<Rightarrow> SyncWork \<times> u64" where
  "next_work currentHeight targetHeight =
     (let batchSize = (if targetHeight < currentHeight + word_of_nat MaxBlocksPerRequest - 1
                       then targetHeight - currentHeight + 1 else word_of_nat MaxBlocksPerRequest)
      in (\<lparr>sw_Start = currentHeight, sw_End = currentHeight + batchSize - 1\<rparr>, currentHeight + batchSize))"

definition downloader :: "SyncWork \<Rightarrow> peer \<Rightarrow> bytes list option \<Rightarrow> effect list \<times> DownloadedBlock list \<times> bool" where
  "downloader work p fetched =
     (case fetched of
        None \<Rightarrow> ([PenalizePeer_call p ScorePenaltyTimeout], [], False)
      | Some found \<Rightarrow>
          ([], map (\<lambda>(i, data). \<lparr>db_Height = sw_Start work + word_of_nat i, db_Data = data, db_Peer = p\<rparr>) (List.enumerate 0 found),
           found \<noteq> []))"

section \<open>Recovering missing parents\<close>

text \<open>The callbacks of the daemon; \<^const>\<open>None\<close> from \<open>sy_processBlock\<close> is a panic.\<close>

record ('e, 's) sync_cfg =
  sy_processBlock :: "bytes \<Rightarrow> 's \<Rightarrow> (('e + unit) \<times> 's) option"
  sy_isOrphanErr :: "'e \<Rightarrow> bool"
  sy_isDuplicateErr :: "'e \<Rightarrow> bool"
  sy_getBlockMeta :: "bytes \<Rightarrow> (u64 \<times> hash) option"
  sy_getBlockHash :: "bytes \<Rightarrow> hash option"

text \<open>One round of requests to all peers: each peer's answer, the order in which the requests finish, how many of the
  finished ones the caller sees before its context ends, and whether the context has ended before the round.\<close>

record net_answer =
  na_blocks :: "peer \<Rightarrow> bytes list option"
  na_order :: "peer list"
  na_seen :: nat
  na_expired :: bool

datatype 'e recovery_error =
    Rejected 'e | NoPeers | RecoveryTimeout nat | BadMetadata | ReachedGenesis | ParentCycle hash | ParentFetch hash u64
  | ParentInvalid hash nat 'e | NoPeersLeft hash | ReplayFailed 'e | TooDeep

definition banInvalidBlockPeer :: "peer \<Rightarrow> effect list" where
  "banInvalidBlockPeer pid = (if pid = [] then [] else [BanPeer_call pid])"

definition penalizeInvalidBlockPeer :: "peer \<Rightarrow> effect list" where
  "penalizeInvalidBlockPeer pid = (if pid = [] then [] else [PenalizePeer_call pid gossipPenaltyMisbehave])"

definition request_block :: "('e, 's) sync_cfg \<Rightarrow> net_answer \<Rightarrow> hash \<Rightarrow> peer \<Rightarrow> effect list \<times> bytes option" where
  "request_block cfg ans hash p =
     (case na_blocks ans p of
        None \<Rightarrow> ([], None)
      | Some found \<Rightarrow>
          if found = [] \<or> hd found = [] then (banInvalidBlockPeer p, None)
          else case sy_getBlockHash cfg (hd found) of
            None \<Rightarrow> (banInvalidBlockPeer p, None)
          | Some blockHash \<Rightarrow> if blockHash \<noteq> hash then (banInvalidBlockPeer p, None) else ([], Some (hd found)))"

fun first_block :: "('e, 's) sync_cfg \<Rightarrow> net_answer \<Rightarrow> hash \<Rightarrow> peer list \<Rightarrow> (bytes \<times> peer) option" where
  "first_block cfg ans hash [] = None"
| "first_block cfg ans hash (p # ps) =
     (case snd (request_block cfg ans hash p) of None \<Rightarrow> first_block cfg ans hash ps | Some data \<Rightarrow> Some (data, p))"

definition fetchBlockByHashFromAnyPeer :: "('e, 's) sync_cfg \<Rightarrow> net_answer \<Rightarrow> peer list \<Rightarrow> hash \<Rightarrow> peer list
    \<Rightarrow> effect list \<times> (bytes \<times> peer) option" where
  "fetchBlockByHashFromAnyPeer cfg ans peers hash exclude =
     (let activePeers = filter (\<lambda>p. p \<notin> set exclude) peers;
          finished = filter (\<lambda>p. p \<in> set activePeers) (na_order ans)
      in if activePeers = [] then ([], None)
         else (concat (map (\<lambda>p. fst (request_block cfg ans hash p)) finished),
               first_block cfg ans hash (take (na_seen ans) finished)))"

datatype 'e parent_outcome = ParentFails "'e recovery_error" | ParentIsOrphan bytes | ParentConnected

text \<open>The attempts for one parent.  Each failed one excludes a peer that was not excluded before, so the loop condition
  \<open>len(invalidPeers) < len(peers)\<close> lets it run \<open>len(peers)\<close> times.\<close>

fun try_parent :: "('e, 's) sync_cfg \<Rightarrow> (nat \<Rightarrow> net_answer) \<Rightarrow> peer list \<Rightarrow> hash \<Rightarrow> u64 \<Rightarrow> nat \<Rightarrow> peer list \<Rightarrow> 'e option \<Rightarrow> nat \<Rightarrow> 's
    \<Rightarrow> ('e parent_outcome \<times> effect list \<times> nat \<times> 's) option" where
  "try_parent cfg net peers parentHash childHeight 0 invalidPeers lastProcessErr k s =
     Some (ParentFails (case lastProcessErr of Some e \<Rightarrow> ParentInvalid parentHash (length invalidPeers) e | None \<Rightarrow> NoPeersLeft parentHash),
           [], k, s)"
| "try_parent cfg net peers parentHash childHeight (Suc n) invalidPeers lastProcessErr k s =
     (case fetchBlockByHashFromAnyPeer cfg (net k) peers parentHash invalidPeers of
        (es, None) \<Rightarrow>
          Some (ParentFails (case lastProcessErr of Some e \<Rightarrow> ParentInvalid parentHash (length invalidPeers) e
                             | None \<Rightarrow> ParentFetch parentHash childHeight), es, Suc k, s)
      | (es, Some (parentData, sourcePeer)) \<Rightarrow>
     (case sy_processBlock cfg parentData s of
        None \<Rightarrow> None
      | Some (Inr _, s) \<Rightarrow> Some (ParentConnected, es, Suc k, s)
      | Some (Inl e, s) \<Rightarrow>
          if sy_isDuplicateErr cfg e then Some (ParentConnected, es, Suc k, s)
          else if sy_isOrphanErr cfg e then Some (ParentIsOrphan parentData, es, Suc k, s)
          else (case try_parent cfg net peers parentHash childHeight n (sourcePeer # invalidPeers) (Some e) (Suc k) s of
                  None \<Rightarrow> None
                | Some (r, es', k, s) \<Rightarrow> Some (r, es @ banInvalidBlockPeer sourcePeer @ es', k, s))))"

text \<open>The queue of children is replayed from the oldest; \<open>pending\<close> has the last one appended first.\<close>

fun replay :: "('e, 's) sync_cfg \<Rightarrow> bytes list \<Rightarrow> 's \<Rightarrow> (('e recovery_error + unit) \<times> 's) option" where
  "replay cfg [] s = Some (Inr (), s)"
| "replay cfg (data # pending) s =
     (case sy_processBlock cfg data s of
        None \<Rightarrow> None
      | Some (Inl e, s) \<Rightarrow> if sy_isDuplicateErr cfg e then replay cfg pending s else Some (Inl (ReplayFailed e), s)
      | Some (Inr _, s) \<Rightarrow> replay cfg pending s)"

definition maxRecoveryDepth :: nat where "maxRecoveryDepth = 512"

fun recover_loop :: "('e, 's) sync_cfg \<Rightarrow> (nat \<Rightarrow> net_answer) \<Rightarrow> peer list \<Rightarrow> nat \<Rightarrow> nat \<Rightarrow> bytes list \<Rightarrow> bytes \<Rightarrow> hash list \<Rightarrow> nat \<Rightarrow> 's
    \<Rightarrow> (('e recovery_error + unit) \<times> effect list \<times> nat \<times> 's) option" where
  "recover_loop cfg net peers 0 depth pending current seenParents k s = Some (Inl TooDeep, [], k, s)"
| "recover_loop cfg net peers (Suc n) depth pending current seenParents k s =
     (if na_expired (net k) then Some (Inl (RecoveryTimeout depth), [], k, s)
      else case sy_getBlockMeta cfg current of
        None \<Rightarrow> Some (Inl BadMetadata, [], k, s)
      | Some (childHeight, parentHash) \<Rightarrow>
          if childHeight = 0 then Some (Inl ReachedGenesis, [], k, s)
          else if parentHash \<in> set seenParents then Some (Inl (ParentCycle parentHash), [], k, s)
          else (case try_parent cfg net peers parentHash childHeight (length peers) [] None k s of
                  None \<Rightarrow> None
                | Some (ParentFails e, es, k, s) \<Rightarrow> Some (Inl e, es, k, s)
                | Some (ParentIsOrphan parentData, es, k, s) \<Rightarrow>
                    (case recover_loop cfg net peers n (Suc depth) (parentData # pending) parentData (parentHash # seenParents) k s of
                       None \<Rightarrow> None
                     | Some (r, es', k, s) \<Rightarrow> Some (r, es @ es', k, s))
                | Some (ParentConnected, es, k, s) \<Rightarrow>
                    (case replay cfg pending s of None \<Rightarrow> None | Some (r, s) \<Rightarrow> Some (r, es, k, s))))"

definition recoverOrphanChain :: "('e, 's) sync_cfg \<Rightarrow> (nat \<Rightarrow> net_answer) \<Rightarrow> bytes \<Rightarrow> peer list \<Rightarrow> nat \<Rightarrow> 's
    \<Rightarrow> (('e recovery_error + unit) \<times> effect list \<times> nat \<times> 's) option" where
  "recoverOrphanChain cfg net blockData peers k s =
     (if peers = [] then Some (Inl NoPeers, [], k, s)
      else recover_loop cfg net peers maxRecoveryDepth 0 [blockData] blockData [] k s)"

definition ProcessBlockWithRecoveryCtx :: "('e, 's) sync_cfg \<Rightarrow> (nat \<Rightarrow> net_answer) \<Rightarrow> bytes \<Rightarrow> peer list \<Rightarrow> nat \<Rightarrow> 's
    \<Rightarrow> (('e recovery_error + bool) \<times> effect list \<times> nat \<times> 's) option" where
  "ProcessBlockWithRecoveryCtx cfg net blockData peers k s =
     (case sy_processBlock cfg blockData s of
        None \<Rightarrow> None
      | Some (Inr _, s) \<Rightarrow> Some (Inr True, [], k, s)
      | Some (Inl e, s) \<Rightarrow>
          if sy_isDuplicateErr cfg e then Some (Inr False, [], k, s)
          else if \<not> sy_isOrphanErr cfg e then Some (Inl (Rejected e), [], k, s)
          else (case recoverOrphanChain cfg net blockData peers k s of
                  None \<Rightarrow> None
                | Some (Inl e, es, k, s) \<Rightarrow> Some (Inl e, es, k, s)
                | Some (Inr _, es, k, s) \<Rightarrow> Some (Inr True, es, k, s)))"

section \<open>Processing downloaded blocks in order\<close>

text \<open>The goroutine of \<open>parallelSyncFrom\<close> that processes blocks: the next height, the buffer of blocks that came early, the
  progress shown to the user, the number of network rounds so far and the state behind the callbacks.\<close>

record 's sync_state =
  sp_next :: u64
  sp_buffer :: "u64 \<rightharpoonup> DownloadedBlock"
  sp_progress :: u64
  sp_rounds :: nat
  sp_chain :: 's

text \<open>What the loop waits for when the buffer has no block for the next height: a downloaded block, the outcome of asking
  all peers after thirty seconds, or the end of the context.\<close>

datatype sync_event = Arrive DownloadedBlock | Rescue "bytes list" peer | Cancelled

datatype 'e sync_outcome = Continue | Finished | Stopped | BlockFailed "'e recovery_error"

fun recovery_isOrphan :: "('e, 's) sync_cfg \<Rightarrow> 'e recovery_error \<Rightarrow> bool" where
  "recovery_isOrphan cfg (Rejected e) = sy_isOrphanErr cfg e"
| "recovery_isOrphan cfg (ParentInvalid h n e) = sy_isOrphanErr cfg e"
| "recovery_isOrphan cfg (ReplayFailed e) = sy_isOrphanErr cfg e"
| "recovery_isOrphan cfg _ = False"

fun recovery_isDuplicate :: "('e, 's) sync_cfg \<Rightarrow> 'e recovery_error \<Rightarrow> bool" where
  "recovery_isDuplicate cfg (Rejected e) = sy_isDuplicateErr cfg e"
| "recovery_isDuplicate cfg (ParentInvalid h n e) = sy_isDuplicateErr cfg e"
| "recovery_isDuplicate cfg (ReplayFailed e) = sy_isDuplicateErr cfg e"
| "recovery_isDuplicate cfg _ = False"

definition process_next :: "('e, 's) sync_cfg \<Rightarrow> (nat \<Rightarrow> net_answer) \<Rightarrow> peer list \<Rightarrow> bytes \<Rightarrow> peer \<Rightarrow> 's sync_state
    \<Rightarrow> ('e sync_outcome \<times> effect list \<times> 's sync_state) option" where
  "process_next cfg net peers blockData sourcePeer st =
     (case ProcessBlockWithRecoveryCtx cfg net blockData peers (sp_rounds st) (sp_chain st) of
        None \<Rightarrow> None
      | Some (Inl e, es, k, s) \<Rightarrow>
          Some (BlockFailed e,
            es @ (if sourcePeer \<noteq> [] \<and> \<not> recovery_isOrphan cfg e \<and> \<not> recovery_isDuplicate cfg e
                  then penalizeInvalidBlockPeer sourcePeer else []),
            st\<lparr>sp_rounds := k, sp_chain := s\<rparr>)
      | Some (Inr accepted, es, k, s) \<Rightarrow>
          Some (Continue, es @ (if accepted \<and> sourcePeer \<noteq> [] then [RewardPeer_call sourcePeer] else []),
            st\<lparr>sp_rounds := k, sp_chain := s, sp_progress := sp_next st, sp_next := sp_next st + 1\<rparr>))"

definition buffer_rest :: "u64 \<Rightarrow> peer \<Rightarrow> bytes list \<Rightarrow> (u64 \<rightharpoonup> DownloadedBlock) \<Rightarrow> (u64 \<rightharpoonup> DownloadedBlock)" where
  "buffer_rest next p rest m =
     fold (\<lambda>(i, data) m. m(next + word_of_nat i \<mapsto> \<lparr>db_Height = next + word_of_nat i, db_Data = data, db_Peer = p\<rparr>))
       (List.enumerate 1 rest) m"

definition sync_iteration :: "('e, 's) sync_cfg \<Rightarrow> (nat \<Rightarrow> net_answer) \<Rightarrow> peer list \<Rightarrow> u64 \<Rightarrow> sync_event \<Rightarrow> 's sync_state
    \<Rightarrow> ('e sync_outcome \<times> effect list \<times> 's sync_state) option" where
  "sync_iteration cfg net peers targetHeight ev st =
     (if targetHeight < sp_next st then Some (Finished, [], st)
      else case sp_buffer st (sp_next st) of
        Some block \<Rightarrow>
          process_next cfg net peers (db_Data block) (db_Peer block) (st\<lparr>sp_buffer := (sp_buffer st)(sp_next st := None)\<rparr>)
      | None \<Rightarrow>
          (case ev of
             Arrive block \<Rightarrow>
               if db_Height block = sp_next st then process_next cfg net peers (db_Data block) (db_Peer block) st
               else Some (Continue, [], st\<lparr>sp_buffer := (sp_buffer st)(db_Height block \<mapsto> block)\<rparr>)
           | Rescue found p \<Rightarrow>
               (case found of
                  [] \<Rightarrow> Some (Stopped, [], st)
                | blockData # rest \<Rightarrow>
                    process_next cfg net peers blockData p (st\<lparr>sp_buffer := buffer_rest (sp_next st) p rest (sp_buffer st)\<rparr>))
           | Cancelled \<Rightarrow> Some (Stopped, [], st)))"

text \<open>The state in which the loop starts.\<close>

definition start_sync :: "u64 \<Rightarrow> u64 \<Rightarrow> 's \<Rightarrow> 's sync_state" where
  "start_sync ourHeight targetHeight s =
     \<lparr>sp_next = computeSyncStartHeight ourHeight targetHeight, sp_buffer = Map.empty, sp_progress = ourHeight, sp_rounds = 0,
      sp_chain = s\<rparr>"

section \<open>The mempool\<close>

definition mempoolInvalidPenalty :: "int \<Rightarrow> int \<Rightarrow> int option" where
  "mempoolInvalidPenalty attempted invalid =
     (if attempted \<le> 0 \<or> invalid \<le> 0 then None
      else if attempted < 20 \<or> invalid < 5 then None
      else
        let ratioBp = invalid * 10000 div attempted in
        if 8000 \<le> ratioBp then Some gossipPenaltyMisbehave
        else if 3000 \<le> ratioBp then Some ScorePenaltyInvalid
        else None)"

fun isBenignMempoolProcessErr :: "daemon_error \<Rightarrow> bool" where
  "isBenignMempoolProcessErr (MempoolRejected MempoolFull) = True"
| "isBenignMempoolProcessErr (MempoolRejected MempoolSizeLimit) = True"
| "isBenignMempoolProcessErr e = False"

fun process_txs :: "(bytes \<Rightarrow> 's \<Rightarrow> ((daemon_error + unit) \<times> 's) option) \<Rightarrow> bytes list \<Rightarrow> 's \<Rightarrow> (int \<times> int \<times> 's) option" where
  "process_txs processTx [] s = Some (0, 0, s)"
| "process_txs processTx (txData # txs) s =
     (case processTx txData s of None \<Rightarrow> None
      | Some (r, s) \<Rightarrow>
     (case process_txs processTx txs s of None \<Rightarrow> None
      | Some (attempted, invalid, s) \<Rightarrow>
          Some (attempted + 1,
            (case r of Inr _ \<Rightarrow> invalid | Inl e \<Rightarrow> if isBenignMempoolProcessErr e then invalid else invalid + 1), s)))"

definition fetchAndProcessMempool :: "sync_json \<Rightarrow> (bytes \<Rightarrow> 's \<Rightarrow> ((daemon_error + unit) \<times> 's) option) \<Rightarrow> peer \<Rightarrow> bytes \<Rightarrow> 's
    \<Rightarrow> (bool \<times> effect list \<times> 's) option" where
  "fetchAndProcessMempool J processTx p stream s =
     (case readSyncMessage stream of Inl e \<Rightarrow> Some (False, [], s)
      | Inr ((msgType, data), _) \<Rightarrow>
          if msgType \<noteq> SyncMsgMempool then Some (False, [], s)
          else if sj_null J data then Some (True, [], s)
          else if \<not> ensureJSONArrayMaxItems J data MaxSyncMempoolTxCount then Some (False, [], s)
          else case sj_batch J data of None \<Rightarrow> Some (False, [], s)
          | Some txs \<Rightarrow>
              let txs = (case trimByteSliceBatch txs MaxSyncMempoolTxCount SyncMempoolResponseByteBudget of None \<Rightarrow> [] | Some xs \<Rightarrow> xs)
              in (case process_txs processTx txs s of None \<Rightarrow> None
                  | Some (attempted, invalid, s) \<Rightarrow>
                      Some (True,
                        (if 0 < attempted
                         then (case mempoolInvalidPenalty attempted invalid of None \<Rightarrow> [] | Some penalty \<Rightarrow> [PenalizePeer_call p penalty])
                         else []), s)))"

section \<open>The callbacks of the daemon\<close>

fun orphan_chain_error :: "chain_error \<Rightarrow> bool" where
  "orphan_chain_error (Invalid OrphanBlock) = True"
| "orphan_chain_error IncompleteChain = True"
| "orphan_chain_error (ReorgFailed e) = orphan_chain_error e"
| "orphan_chain_error (ParentWork e) = orphan_chain_error e"
| "orphan_chain_error e = False"

fun IsOrphanError :: "daemon_error \<Rightarrow> bool" where
  "IsOrphanError (RejectedBlock e) = orphan_chain_error e"
| "IsOrphanError e = False"

fun IsDuplicateError :: "daemon_error \<Rightarrow> bool" where
  "IsDuplicateError ErrDuplicateBlock = True"
| "IsDuplicateError ErrSideChainBlock = True"
| "IsDuplicateError e = False"

definition GetBlockMeta :: "(bytes \<Rightarrow> JBlock option) \<Rightarrow> bytes \<Rightarrow> (u64 \<times> hash) option" where
  "GetBlockMeta unmarshal data = map_option (\<lambda>jb. (Height (jb_Header jb), PrevHash (jb_Header jb))) (unmarshal data)"

definition GetBlockHash :: "crypto \<Rightarrow> (bytes \<Rightarrow> JBlock option) \<Rightarrow> bytes \<Rightarrow> hash option" where
  "GetBlockHash C unmarshal data = map_option (\<lambda>jb. header_Hash C (jb_Header jb)) (unmarshal data)"

text \<open>The state is the daemon and the number of the call, which selects the clock readings of that call.\<close>

definition process_callback :: "crypto \<Rightarrow> net_params \<Rightarrow> 'b bolt \<Rightarrow> (bytes \<Rightarrow> JBlock option) \<Rightarrow> (nat \<Rightarrow> daemon_env) \<Rightarrow> bytes
    \<Rightarrow> nat \<times> 'b daemon \<Rightarrow> ((daemon_error + unit) \<times> nat \<times> 'b daemon) option" where
  "process_callback C P B unmarshal env data s =
     map_option (\<lambda>(r, d). (r, Suc (fst s), d)) (processBlockData C P B unmarshal (env (fst s)) data (snd s))"

definition daemon_sync :: "crypto \<Rightarrow> net_params \<Rightarrow> 'b bolt \<Rightarrow> (bytes \<Rightarrow> JBlock option) \<Rightarrow> (nat \<Rightarrow> daemon_env)
    \<Rightarrow> (daemon_error, nat \<times> 'b daemon) sync_cfg" where
  "daemon_sync C P B unmarshal env =
     \<lparr>sy_processBlock = process_callback C P B unmarshal env, sy_isOrphanErr = IsOrphanError, sy_isDuplicateErr = IsDuplicateError,
      sy_getBlockMeta = GetBlockMeta unmarshal, sy_getBlockHash = GetBlockHash C unmarshal\<rparr>"

definition handleNewBlock :: "crypto \<Rightarrow> net_params \<Rightarrow> 'b bolt \<Rightarrow> (bytes \<Rightarrow> JBlock option) \<Rightarrow> daemon_env \<Rightarrow> peer \<Rightarrow> bytes \<Rightarrow> 'b daemon
    \<Rightarrow> (effect list \<times> 'b daemon) option" where
  "handleNewBlock C P B unmarshal env sender data d =
     (case processBlockData C P B unmarshal env data d of
        None \<Rightarrow> None
      | Some (Inl e, d) \<Rightarrow> Some (if \<not> IsDuplicateError e \<and> \<not> IsOrphanError e then banInvalidBlockPeer sender else [], d)
      | Some (Inr _, d) \<Rightarrow>
          Some (NotifyMiner # (case Option.bind (unmarshal data) deref_block of None \<Rightarrow> [] | Some block \<Rightarrow> [NotifyBlock block])
                @ [RelayBlock sender data], d))"

text \<open>An incoming stream: the bytes written back, the effects and the new state.\<close>

definition HandleStream :: "crypto \<Rightarrow> net_params \<Rightarrow> 'b bolt \<Rightarrow> sync_json \<Rightarrow> string \<Rightarrow> u32 \<Rightarrow> daemon_env \<Rightarrow> peer \<Rightarrow> bytes \<Rightarrow> 'b daemon
    \<Rightarrow> (bytes \<times> effect list \<times> 'b daemon) option" where
  "HandleStream C P B J networkID chainID env sender stream d =
     (case readSyncMessage stream of Inl e \<Rightarrow> Some ([], [], d)
      | Inr ((msgType, data), _) \<Rightarrow>
          if msgType = SyncMsgStatus
          then (case handleStatus J networkID chainID sender data d of (written, es) \<Rightarrow> Some (written, es, d))
          else if msgType = SyncMsgGetHeaders then Some (handleGetHeaders J B data d, [], d)
          else if msgType = SyncMsgGetBlocks
          then (case handleGetBlocks J B data d of (written, d) \<Rightarrow> Some (written, [], d))
          else if msgType = SyncMsgGetBlocksByHeight then Some (handleGetBlocksByHeight J B data d, [], d)
          else if msgType = SyncMsgNewBlock
          then map_option (\<lambda>(es, d). ([], es, d)) (handleNewBlock C P B (sj_block J) env sender data d)
          else if msgType = SyncMsgGetMempool then Some (handleGetMempool (de_ord env) d, [], d)
          else Some ([], [], d))"

end
