(* ===== verification/DaemonProps.thy ===== *)
theory DaemonProps
  imports Daemon Liveness
begin

text \<open>
  What the daemon guarantees: the prefilter decides exactly as specified and panics exactly on nil transactions, the
  difference of two chains is found, and in every state the daemon reaches the mempool holds no transaction whose key
  images are spent on the main chain.
\<close>

section \<open>Prefilters\<close>

lemma those_None: "those xs = None \<longleftrightarrow> None \<in> set xs"
  by (induction xs) (auto split: option.splits)

lemma those_map: "those xs = Some ys \<Longrightarrow> xs = map Some ys"
  by (induction xs arbitrary: ys) (auto split: option.splits)

lemma those_Some [simp]: "those (map Some ys) = Some ys"
  by (induction ys) auto

lemma coinbase_after_map [simp]: "coinbase_after (map Some txs) = Some (\<exists>tx \<in> set txs. IsCoinbase tx)"
  by (induction txs) auto

lemma memo_check_ok: "memo_check ti oi outs = Inr () \<longleftrightarrow> (\<forall>out \<in> set outs. \<exists>b \<in> set (EncryptedMemo out). b \<noteq> 0)"
  by (induction ti oi outs rule: memo_check.induct) (auto simp: list_all_iff)

lemma memo_checks_ok:
  "memo_checks ti (map Some txs) = Inr () \<longleftrightarrow> (\<forall>tx \<in> set txs. \<forall>out \<in> set (Outputs tx). \<exists>b \<in> set (EncryptedMemo out). b \<noteq> 0)"
  "memo_checks ti (map Some txs) \<noteq> Inl (NilTransaction i)"
proof -
  have "memo_check ti oi outs \<noteq> Inl (NilTransaction i)" for ti oi outs
    by (induction ti oi outs rule: memo_check.induct) auto
  then show "memo_checks ti (map Some txs) \<noteq> Inl (NilTransaction i)"
    by (induction txs arbitrary: ti) (auto split: sum.split)
  show "memo_checks ti (map Some txs) = Inr () \<longleftrightarrow> (\<forall>tx \<in> set txs. \<forall>out \<in> set (Outputs tx). \<exists>b \<in> set (EncryptedMemo out). b \<noteq> 0)"
  proof (induction txs arbitrary: ti)
    case (Cons tx txs)
    then show ?case using memo_check_ok [of ti 0 "Outputs tx"] by (cases "memo_check ti 0 (Outputs tx)") auto
  qed simp
qed

lemma prefilter_spec:
  "(validateBlockCheapPrefilters jb = Some (Inr ()) \<longleftrightarrow>
      Version (jb_Header jb) \<noteq> 0 \<and> (\<exists>coinbase others. jb_Transactions jb = map Some (coinbase # others)
        \<and> IsCoinbase coinbase \<and> (\<forall>tx \<in> set others. \<not> IsCoinbase tx)
        \<and> block_Size \<lparr>Header = jb_Header jb, Transactions = coinbase # others\<rparr> \<le> MaxBlockSize
        \<and> (\<forall>tx \<in> set (coinbase # others). \<forall>out \<in> set (Outputs tx). \<exists>b \<in> set (EncryptedMemo out). b \<noteq> 0)))
   \<and> (validateBlockCheapPrefilters jb = None \<longleftrightarrow> Version (jb_Header jb) \<noteq> 0 \<and> None \<in> set (jb_Transactions jb))
   \<and> validateBlockCheapPrefilters jb \<noteq> Some (Inl (NilTransaction i))"
proof (cases "those (jb_Transactions jb)")
  case None
  then have "None \<in> set (jb_Transactions jb)" by (simp add: those_None)
  then show ?thesis using None by (auto simp: validateBlockCheapPrefilters_def jblock_Size_def)
next
  case (Some txs)
  then have txs: "jb_Transactions jb = map Some txs" by (rule those_map)
  show ?thesis
  proof (cases txs)
    case Nil
    then show ?thesis by (simp add: validateBlockCheapPrefilters_def jblock_Size_def txs)
  next
    case (Cons cb rest)
    have size: "jblock_Size jb = Some (block_Size \<lparr>Header = jb_Header jb, Transactions = cb # rest\<rparr>)"
      unfolding jblock_Size_def txs Cons those_Some by (simp add: block_Size_def)
    have eq: "(\<exists>coinbase others. jb_Transactions jb = map Some (coinbase # others) \<and> Q coinbase others) \<longleftrightarrow> Q cb rest" for Q
      by (auto simp: txs Cons dest: map_injective)
    have none: "None \<notin> set (jb_Transactions jb)" by (auto simp: txs)
    show ?thesis
      unfolding eq using none memo_checks_ok [of 0 "cb # rest"]
      by (auto simp: validateBlockCheapPrefilters_def size txs Cons simp del: memo_checks.simps split: bool.splits)
  qed
qed

text \<open>C36. The cheap prefilter of gossip and sync blocks.  It lets a decoded block pass exactly when its version is not zero, no
  transaction is nil, it fits the block size, the first transaction and no other is a coinbase, and no encrypted memo is
  all zeroes; it panics exactly when the version is not zero and some transaction is nil, so the error for a nil
  transaction that its last loop provides is never returned.\<close>

theorem prefilter_exact:
  "(validateBlockCheapPrefilters jb = Some (Inr ()) \<longleftrightarrow>
      Version (jb_Header jb) \<noteq> 0 \<and> (\<exists>coinbase others. jb_Transactions jb = map Some (coinbase # others)
        \<and> IsCoinbase coinbase \<and> (\<forall>tx \<in> set others. \<not> IsCoinbase tx)
        \<and> block_Size \<lparr>Header = jb_Header jb, Transactions = coinbase # others\<rparr> \<le> MaxBlockSize
        \<and> (\<forall>tx \<in> set (coinbase # others). \<forall>out \<in> set (Outputs tx). \<exists>b \<in> set (EncryptedMemo out). b \<noteq> 0)))
   \<and> (validateBlockCheapPrefilters jb = None \<longleftrightarrow> Version (jb_Header jb) \<noteq> 0 \<and> None \<in> set (jb_Transactions jb))
   \<and> validateBlockCheapPrefilters jb \<noteq> Some (Inl (NilTransaction i))"
  by (rule prefilter_spec)

section \<open>The difference of two chains\<close>

lemma view_get:
  assumes "view_inv C B L c" "chain_GetBlock B c h = (r, c')"
  shows "r = lblocks L h \<and> view_inv C B L c'"
  using view.get_eq [OF assms(1), of h] view.get_keeps [OF assms(1), of h] assms(2) unfolding chain_GetBlock_same by simp

lemma view_tree: "view_inv C B L c \<Longrightarrow> block_tree C (lblocks L)"
  by (simp add: view_inv_def ledger_ok_def tree_ok_def)

lemma walk_new_ok:
  assumes "view_inv C B L c" "branch (lblocks L) h bs" "walk_new B oldTip (Suc n) h c = (r, c')"
  shows "view_inv C B L c' \<and> (\<exists>hs. r = Some (hs, takeWhile (\<lambda>b. Hash C b \<noteq> oldTip) (take (Suc n) bs))
    \<and> set hs = Hash C ` set (takeWhile (\<lambda>b. Hash C b \<noteq> oldTip) (take (Suc n) bs))
        \<union> (if oldTip \<in> Hash C ` set (take (Suc n) bs) then {oldTip} else {}))"
  using assms
proof (induction n arbitrary: h bs c r c')
  case 0
  obtain g c1 where g: "chain_GetBlock B c h = (g, c1)" by fastforce
  obtain b rest where bs: "bs = b # rest" "lblocks L h = Some b" using 0(2) by (auto elim: branch_cases)
  have hb: "Hash C b = h" using tree_hash [OF view_tree [OF 0(1)] bs(2)] .
  show ?case using 0 view_get [OF 0(1) g] g bs hb by (auto split: if_splits)
next
  case (Suc n)
  obtain g c1 where g: "chain_GetBlock B c h = (g, c1)" by fastforce
  note vg = view_get [OF Suc.prems(1) g]
  from Suc.prems(2) show ?case
  proof (cases rule: branch_cases)
    case (root b)
    have hb: "Hash C b = h" using tree_hash [OF view_tree [OF Suc.prems(1)] root(2)] .
    then show ?thesis using Suc.prems(1,3) vg g root by (auto simp del: walk_new.simps(2) simp: walk_new.simps(2) [of B oldTip "Suc n"] split: if_splits)
  next
    case (child b bs')
    have hb: "Hash C b = h" using tree_hash [OF view_tree [OF Suc.prems(1)] child(2)] .
    obtain r2 c2 where w: "walk_new B oldTip (Suc n) (bprev b) c1 = (r2, c2)" by fastforce
    have v1: "view_inv C B L c1" using vg by simp
    note IH = Suc.IH [OF v1 child(4) w]
    show ?thesis
    proof (cases "h = oldTip")
      case True
      then show ?thesis using Suc.prems(1,3) child(1) hb by auto
    next
      case False
      have r: "(r, c') = (case r2 of None \<Rightarrow> (None, c2) | Some (hs, bs) \<Rightarrow> (Some (h # hs, b # bs), c2))"
        using Suc.prems(3) False vg g child(2,3) w
        by (simp del: walk_new.simps(2) add: walk_new.simps(2) [of B oldTip "Suc n"] split: option.splits prod.splits)
      obtain hs where "r2 = Some (hs, takeWhile (\<lambda>b. Hash C b \<noteq> oldTip) (take (Suc n) bs'))"
        "set hs = Hash C ` set (takeWhile (\<lambda>b. Hash C b \<noteq> oldTip) (take (Suc n) bs'))
          \<union> (if oldTip \<in> Hash C ` set (take (Suc n) bs') then {oldTip} else {})" "view_inv C B L c2"
        using IH by blast
      then show ?thesis using r child(1) hb False by (simp split: if_splits)
    qed
  qed
qed

definition add_block :: "crypto \<Rightarrow> Block \<Rightarrow> (hash, Block) fmap \<Rightarrow> (hash, Block) fmap" where
  "add_block C b m = fmupd (Hash C b) b m"

lemma add_blocks_lookup:
  "\<forall>x \<in> set xs. K (Hash C x) = Some x \<Longrightarrow>
   fmlookup (fold (add_block C) xs m) k = (if k \<in> Hash C ` set xs then K k else fmlookup m k)"
proof (induction xs arbitrary: m)
  case (Cons x xs)
  then show ?case using Cons.IH [of "add_block C x m"] by (cases "k = Hash C x") (simp_all add: add_block_def)
qed simp

lemma fcard_upd: "fcard (fmdom (fmupd k v m)) \<le> Suc (fcard (fmdom m))"
  by (simp add: fcard_finsert_if)

text \<open>The walk down the old chain ends, either at the first block of the set or without a result; it finds one if there is
  one near enough.\<close>

lemma walk_old_ok:
  assumes "branch (lblocks L) h bs" "view_inv C B L c"
  shows "\<exists>r c'. walk_old B S h anc c = Some (r, c') \<and> view_inv C B L c'
    \<and> (\<forall>common anc'. r = Some (common, anc') \<longrightarrow> (\<exists>pre b post. bs = pre @ b # post \<and> Hash C b = common \<and> common \<in> set S
        \<and> (\<forall>x \<in> set pre. Hash C x \<notin> set S) \<and> anc' = fold (add_block C) pre anc))
    \<and> ((\<exists>i < length bs. Hash C (bs ! i) \<in> set S \<and> fcard (fmdom anc) + i < maxReorgWalk) \<longrightarrow> r \<noteq> None)"
  using assms
proof (induction arbitrary: anc c rule: branch.induct)
  case (root h b)
  have hb: "Hash C b = h" using tree_hash [OF view_tree [OF root(3)] root(1)] .
  obtain g c1 where g: "chain_GetBlock B c h = (g, c1)" by fastforce
  note vg = view_get [OF root(3) g]
  show ?case
  proof (cases "h \<in> set S")
    case True
    then show ?thesis using root(3) hb by (subst walk_old.simps) (auto intro!: exI [of _ "[]"])
  next
    case False
    then show ?thesis using vg g root(1,2) hb by (subst walk_old.simps) auto
  qed
next
  case (child h b bs)
  have hb: "Hash C b = h" using tree_hash [OF view_tree [OF child(5)] child(1)] .
  obtain g c1 where g: "chain_GetBlock B c h = (g, c1)" by fastforce
  note vg = view_get [OF child(5) g]
  let ?anc = "fmupd h b anc"
  show ?case
  proof (cases "h \<in> set S")
    case True
    then show ?thesis using child(5) hb by (subst walk_old.simps) (auto intro!: exI [of _ "[]"])
  next
    case False
    show ?thesis
    proof (cases "maxReorgWalk \<le> fcard (fmdom ?anc)")
      case big: True
      have "\<not> fcard (fmdom anc) + i < maxReorgWalk" if "i < length (b # bs)" "Hash C ((b # bs) ! i) \<in> set S" for i
      proof -
        have "0 < i" using that False hb by (cases i) auto
        then show ?thesis using big fcard_upd [of h b anc] by simp
      qed
      then show ?thesis using False vg g child(1) big by (subst walk_old.simps) auto
    next
      case small: False
      have v1: "view_inv C B L c1" using vg by simp
      obtain r c' where IH: "walk_old B S (bprev b) ?anc c1 = Some (r, c')" "view_inv C B L c'"
        "\<And>common anc'. r = Some (common, anc') \<Longrightarrow> \<exists>pre b' post. bs = pre @ b' # post \<and> Hash C b' = common \<and> common \<in> set S
          \<and> (\<forall>x \<in> set pre. Hash C x \<notin> set S) \<and> anc' = fold (add_block C) pre ?anc"
        "(\<exists>i < length bs. Hash C (bs ! i) \<in> set S \<and> fcard (fmdom ?anc) + i < maxReorgWalk) \<longrightarrow> r \<noteq> None"
        using child.IH [OF v1, of ?anc] by blast
      have run: "walk_old B S h anc c = Some (r, c')"
        using False vg g child(1,2) small IH(1) by (subst walk_old.simps) simp
      have "r \<noteq> None" if i: "i < length (b # bs)" "Hash C ((b # bs) ! i) \<in> set S" "fcard (fmdom anc) + i < maxReorgWalk" for i
      proof -
        obtain k where "i = Suc k" using i False hb by (cases i) auto
        then have "k < length bs \<and> Hash C (bs ! k) \<in> set S \<and> fcard (fmdom ?anc) + k < maxReorgWalk"
          using i fcard_upd [of h b anc] by simp
        then show ?thesis using IH(4) by blast
      qed
      moreover have "\<exists>pre b' post. b # bs = pre @ b' # post \<and> Hash C b' = common \<and> common \<in> set S
          \<and> (\<forall>x \<in> set pre. Hash C x \<notin> set S) \<and> anc' = fold (add_block C) pre anc" if rr: "r = Some (common, anc')" for common anc'
      proof -
        obtain pre b' post where "bs = pre @ b' # post" "Hash C b' = common" "common \<in> set S" "\<forall>x \<in> set pre. Hash C x \<notin> set S"
          "anc' = fold (add_block C) pre ?anc" using IH(3) [OF rr] by blast
        then show ?thesis using False hb by (intro exI [of _ "b # pre"]) (auto simp: add_block_def)
      qed
      ultimately show ?thesis using run IH(2) by (intro exI [of _ r] exI [of _ c'] conjI allI impI) blast+
    qed
  qed
qed

lemma old_blocks_ok:
  assumes "branch K h (pre @ b # post)" "\<forall>x \<in> set (pre @ [b]). K (Hash C x) = Some x" "block_tree C K"
    and "\<forall>x \<in> set pre. Hash C x \<noteq> Hash C b \<and> fmlookup anc (Hash C x) = Some x"
  shows "old_blocks anc (Hash C b) h = Some (Some pre)"
  using assms
proof (induction pre arbitrary: h)
  case Nil
  have "K h = Some b" using branch_hd [OF Nil.prems(1)] by simp
  from tree_hash [OF Nil.prems(3) this] show ?case by (subst old_blocks.simps) simp
next
  case (Cons x pre)
  have kx: "K h = Some x" "branch K (bprev x) (pre @ b # post)" using Cons.prems(1) by (auto elim: branch_cases)
  note hx = tree_hash [OF Cons.prems(3) kx(1)] kx(2)
  have "old_blocks anc (Hash C b) (bprev x) = Some (Some pre)" using Cons.IH [OF hx(2)] Cons.prems by simp
  moreover have "h \<noteq> Hash C b" "fmlookup anc h = Some x" using Cons.prems(4) hx by auto
  ultimately show ?case by (subst old_blocks.simps) simp
qed

lemma branch_hashes:
  assumes "block_tree C K" "branch K h bs" "x \<in> set bs"
  shows "K (Hash C x) = Some x"
proof -
  obtain h' where "K h' = Some x" using branch_stored [OF assms(2,3)] by blast
  then show ?thesis using tree_hash [OF assms(1)] by metis
qed

lemma branch_suffix: "branch K h (pre @ b # post) \<Longrightarrow> block_tree C K \<Longrightarrow> branch K (Hash C b) (b # post)"
proof (induction pre arbitrary: h)
  case Nil
  have "K h = Some b" using branch_hd [OF Nil.prems(1)] by simp
  from tree_hash [OF Nil.prems(2) this] show ?case using Nil.prems(1) by simp
next
  case (Cons x pre)
  have "branch K (bprev x) (pre @ b # post)" using Cons.prems(1) by (auto elim: branch_cases)
  from Cons.IH [OF this Cons.prems(2)] show ?case .
qed

lemma takeWhile_common:
  assumes "common \<in> f ` set (takeWhile (\<lambda>b. f b \<noteq> t) xs) \<or> common = t \<and> t \<in> f ` set xs"
  shows "takeWhile (\<lambda>b. f b \<noteq> common) (takeWhile (\<lambda>b. f b \<noteq> t) xs) = takeWhile (\<lambda>b. f b \<noteq> common) xs
    \<and> common \<in> f ` set xs"
  using assms by (induction xs) (auto split: if_splits)

lemma takeWhile_split: "common \<in> f ` set xs \<Longrightarrow> \<exists>b rest. xs = takeWhile (\<lambda>b. f b \<noteq> common) xs @ b # rest \<and> f b = common"
  by (induction xs) auto

lemma takeWhile_take: "common \<in> f ` set (take n xs) \<Longrightarrow> takeWhile (\<lambda>b. f b \<noteq> common) (take n xs) = takeWhile (\<lambda>b. f b \<noteq> common) xs"
proof (induction xs arbitrary: n)
  case (Cons x xs)
  then show ?case by (cases n) auto
qed simp

text \<open>The blocks of the two chains after their common ancestor.\<close>

lemma collect_ok:
  assumes v: "view_inv C B L c" and old: "branch (lblocks L) oldTip old" and new: "branch (lblocks L) newTip new"
  shows "\<exists>dis con c'. collectReorgDiffBlocks C B oldTip newTip c = Some ((dis, con), c') \<and> view_inv C B L c'
    \<and> set dis \<subseteq> set old \<and> set con \<subseteq> set new
    \<and> (\<forall>i j. i < length old \<longrightarrow> i < maxReorgWalk \<longrightarrow> j < length new \<longrightarrow> j < maxReorgWalk \<longrightarrow> old ! i = new ! j \<longrightarrow>
        (\<exists>b post. old = dis @ b # post \<and> new = rev con @ b # post))"
proof -
  note tree = view_tree [OF v]
  have m: "maxReorgWalk = Suc 999" by (simp add: maxReorgWalk_def)
  let ?t = "take maxReorgWalk new"
  obtain r1 c1 where w1: "walk_new B oldTip maxReorgWalk newTip c = (r1, c1)" by fastforce
  obtain S where S: "view_inv C B L c1" "r1 = Some (S, takeWhile (\<lambda>b. Hash C b \<noteq> oldTip) ?t)"
    "set S = Hash C ` set (takeWhile (\<lambda>b. Hash C b \<noteq> oldTip) ?t) \<union> (if oldTip \<in> Hash C ` set ?t then {oldTip} else {})"
    using walk_new_ok [OF v new w1 [unfolded m]] unfolding m [symmetric] by blast
  obtain r2 c2 where w2: "walk_old B S oldTip fmempty c1 = Some (r2, c2)" "view_inv C B L c2"
    "\<And>common anc. r2 = Some (common, anc) \<Longrightarrow> \<exists>pre b post. old = pre @ b # post \<and> Hash C b = common \<and> common \<in> set S
        \<and> (\<forall>x \<in> set pre. Hash C x \<notin> set S) \<and> anc = fold (add_block C) pre fmempty"
    "(\<exists>i < length old. Hash C (old ! i) \<in> set S \<and> i < maxReorgWalk) \<longrightarrow> r2 \<noteq> None"
    using walk_old_ok [OF old S(1), of S fmempty] by (auto simp: fcard_fempty)
  show ?thesis
  proof (cases r2)
    case None
    have "\<not> (i < length old \<and> i < maxReorgWalk \<and> j < length new \<and> j < maxReorgWalk \<and> old ! i = new ! j)" for i j
    proof
      assume ij: "i < length old \<and> i < maxReorgWalk \<and> j < length new \<and> j < maxReorgWalk \<and> old ! i = new ! j"
      have ot: "Hash C (old ! 0) = oldTip" "0 < length old" using branch_hd [OF old] tree_hash [OF tree] branch_nonempty [OF old] ij
        by (auto simp: hd_conv_nth)
      show False
      proof (cases "oldTip \<in> Hash C ` set ?t")
        case True
        then have "Hash C (old ! 0) \<in> set S" using S(3) ot by simp
        then show False using w2(4) None ot(2) by (auto simp: maxReorgWalk_def)
      next
        case False
        then have tw: "takeWhile (\<lambda>b. Hash C b \<noteq> oldTip) ?t = ?t" by (intro takeWhile_eq_all_conv [THEN iffD2]) auto
        have "new ! j \<in> set ?t" using ij by (auto simp: in_set_conv_nth intro!: exI [of _ j])
        then have "Hash C (new ! j) \<in> Hash C ` set ?t" by (rule imageI)
        then have "Hash C (old ! i) \<in> set S" unfolding S(3) tw using ij by simp
        then show False using w2(4) None ij by blast
      qed
    qed
    then show ?thesis using w1 S w2(1,2) None by (auto simp: collectReorgDiffBlocks_def)
  next
    case (Some ca)
    obtain common anc where ca: "r2 = Some (common, anc)" using Some by (cases ca) auto
    obtain pre b post where p: "old = pre @ b # post" "Hash C b = common" "common \<in> set S"
      "\<forall>x \<in> set pre. Hash C x \<notin> set S" "anc = fold (add_block C) pre fmempty" using w2(3) [OF ca] by blast
    have st: "\<forall>x \<in> set old. lblocks L (Hash C x) = Some x" using branch_hashes [OF tree old] by blast
    have "\<forall>x \<in> set pre. Hash C x \<noteq> common \<and> fmlookup anc (Hash C x) = Some x"
      using p st add_blocks_lookup [of pre "lblocks L" C fmempty] by auto
    then have ob: "old_blocks anc common oldTip = Some (Some pre)"
      using old_blocks_ok [of "lblocks L" oldTip pre b post C anc] old p st tree by simp
    let ?A = "takeWhile (\<lambda>b. Hash C b \<noteq> common) new"
    have tw: "takeWhile (\<lambda>b. Hash C b \<noteq> common) (takeWhile (\<lambda>b. Hash C b \<noteq> oldTip) ?t) = takeWhile (\<lambda>b. Hash C b \<noteq> common) ?t"
        "common \<in> Hash C ` set ?t"
      using takeWhile_common [of common "Hash C" oldTip ?t] p(3) S(3) by (auto split: if_splits)
    have A: "takeWhile (\<lambda>b. Hash C b \<noteq> common) (takeWhile (\<lambda>b. Hash C b \<noteq> oldTip) ?t) = ?A" "common \<in> Hash C ` set new"
      using tw takeWhile_take [OF tw(2)] by (auto dest: in_set_takeD)
    obtain b' rest where n: "new = ?A @ b' # rest" "Hash C b' = common" using takeWhile_split [OF A(2)] by blast
    have "branch (lblocks L) newTip (?A @ b' # rest)" by (subst n(1) [symmetric]) (rule new)
    from branch_suffix [OF old [unfolded p(1)] tree] branch_suffix [OF this tree]
    have "branch (lblocks L) common (b # post)" "branch (lblocks L) common (b' # rest)" unfolding p(2) n(2) .
    then have eq: "b' # rest = b # post" using branch_unique by blast
    have "new = rev (rev ?A) @ b # post" unfolding rev_rev_ident by (rule n(1) [unfolded eq])
    with p(1) have ex: "\<exists>b post. old = pre @ b # post \<and> new = rev (rev ?A) @ b # post" by blast
    have run: "collectReorgDiffBlocks C B oldTip newTip c = Some ((pre, rev ?A), c2)"
      using w1 S(2) w2(1) ca ob A(1) by (simp add: collectReorgDiffBlocks_def)
    have "set pre \<subseteq> set old" "set (rev ?A) \<subseteq> set new" using p(1) by (auto dest: set_takeWhileD)
    then show ?thesis using w2(2) run ex by blast
  qed
qed

section \<open>Key images in the mempool\<close>

definition pool_images :: "(hash, MempoolEntry) fmap \<Rightarrow> hash set" where
  "pool_images M = {ki. \<exists>k e. fmlookup M k = Some e \<and> ki \<in> set (input_images (me_Tx e))}"

definition ids_ok :: "crypto \<Rightarrow> Block \<Rightarrow> bool" where
  "ids_ok C b \<longleftrightarrow> (\<forall>tx \<in> set (Transactions b). TxID C tx \<noteq> None)"

lemma pool_images_mono: "fmlookup M \<subseteq>\<^sub>m fmlookup M' \<Longrightarrow> pool_images M \<subseteq> pool_images M'"
  unfolding pool_images_def using map_leD [of "fmlookup M" "fmlookup M'"] by blast

lemma image_index:
  assumes "mempool_ok C m"
  shows "txByImage m ki \<noteq> None \<longleftrightarrow> ki \<in> pool_images (pool m)"
proof -
  have "txByImage m ki = Some k \<longleftrightarrow> (\<exists>e. fmlookup (pool m) k = Some e \<and> ki \<in> set (input_images (me_Tx e)))" for k
    using mempool_okD(6) [OF assms] unfolding indexes_def by blast
  then show ?thesis unfolding pool_images_def not_None_eq mem_Collect_eq by blast
qed

lemma connect_total: "\<forall>tx \<in> set txs. TxID C tx \<noteq> None \<Longrightarrow> \<exists>m'. connect_txs C txs m = Some m'"
  by (induction txs arbitrary: m) (auto simp: Let_def)

lemma connected_ok:
  assumes "mempool_ok C m" "ids_ok C b"
  shows "\<exists>m'. OnBlockConnected C b m = Some m' \<and> mempool_ok C m' \<and> pool_images (pool m') \<subseteq> pool_images (pool m) - set (block_images b)"
proof -
  obtain m' where m': "connect_txs C (Transactions b) m = Some m'" using assms(2) connect_total unfolding ids_ok_def by blast
  from connect_txs_ok [OF assms(1) m'] show ?thesis
    using m' by (auto simp: OnBlockConnected_def pool_images_def block_images_def clear_of_lookup split: option.splits if_splits)
qed

lemma connect_all_ok:
  "mempool_ok C m \<Longrightarrow> \<forall>b \<in> set bs. ids_ok C b \<Longrightarrow>
   \<exists>m'. connect_all C bs m = Some m' \<and> mempool_ok C m' \<and> pool_images (pool m') \<subseteq> pool_images (pool m) - set (images_of bs)"
proof (induction bs arbitrary: m)
  case (Cons b bs)
  obtain m1 where m1: "OnBlockConnected C b m = Some m1" "mempool_ok C m1" "pool_images (pool m1) \<subseteq> pool_images (pool m) - set (block_images b)"
    using connected_ok [of C m b] Cons.prems by auto
  obtain m2 where "connect_all C bs m1 = Some m2" "mempool_ok C m2" "pool_images (pool m2) \<subseteq> pool_images (pool m1) - set (images_of bs)"
    using Cons.IH [OF m1(2)] Cons.prems(2) by auto
  then show ?case using m1 by auto
qed auto

lemma tx_data_total: "\<forall>tx \<in> set txs. TxID C tx \<noteq> None \<Longrightarrow> \<exists>d. txDataMapForBlock C txs m = Some d"
  by (induction txs arbitrary: m) (auto simp: TxID_def)

lemma disconnect_total: "\<forall>tx \<in> set txs. TxID C tx \<noteq> None \<Longrightarrow> \<exists>m'. disconnect_txs C isSpent now dm i txs m = Some m'"
proof (induction txs arbitrary: m i)
  case (Cons tx txs)
  then obtain txID d where "TxID C tx = Some txID" "Serialize tx = Some d" by (auto simp: TxID_def)
  then show ?case using Cons.IH Cons.prems by (auto split: option.split)
qed simp

lemma disconnect_all_ok:
  "mempool_ok C m \<Longrightarrow> \<forall>b \<in> set bs. ids_ok C b \<and> distinct (block_images b) \<Longrightarrow>
   \<exists>m'. disconnect_all C isSpent now i bs m = Some m' \<and> mempool_ok C m'
     \<and> (\<forall>ki \<in> pool_images (pool m'). ki \<in> pool_images (pool m) \<or> \<not> isSpent ki)"
proof (induction bs arbitrary: m i)
  case (Cons b bs)
  have b: "\<forall>tx \<in> set (Transactions b). TxID C tx \<noteq> None" using Cons.prems(2) by (simp add: ids_ok_def)
  have dist: "\<forall>tx \<in> set (Transactions b). distinct (input_images tx)"
    using Cons.prems(2) by (auto simp: block_images_def tx_images_def distinct_concat_iff input_images_def)
  obtain dm where dm: "txDataMapForBlock C (Transactions b) Map.empty = Some dm" using tx_data_total [OF b] by blast
  obtain m1 where m1: "disconnect_txs C isSpent (now i) dm 0 (Transactions b) m = Some m1" using disconnect_total [OF b] by blast
  note ok = disconnect_txs_ok [OF Cons.prems(1) m1 dist]
  have old: "ki \<in> pool_images (pool m) \<or> \<not> isSpent ki" if ki: "ki \<in> pool_images (pool m1)" for ki
  proof -
    obtain k e where e: "fmlookup (pool m1) k = Some e" "ki \<in> set (input_images (me_Tx e))" using ki by (auto simp: pool_images_def)
    show ?thesis
    proof (cases "fmlookup (pool m) k")
      case None
      then show ?thesis using ok e by blast
    next
      case (Some e')
      then have "e' = e" using ok e(1) map_leD by (metis option.inject)
      then show ?thesis using Some e(2) unfolding pool_images_def by blast
    qed
  qed
  obtain m2 where "disconnect_all C isSpent now (Suc i) bs m1 = Some m2" "mempool_ok C m2"
    "\<forall>ki \<in> pool_images (pool m2). ki \<in> pool_images (pool m1) \<or> \<not> isSpent ki" using Cons.IH [of m1 "Suc i"] ok Cons.prems(2) by auto
  then show ?case using dm m1 old by (auto simp: OnBlockDisconnected_def)
qed auto

lemma expire_ok:
  assumes "mempool_ok C m"
  shows "mempool_ok C (expire env m) \<and> pool_images (pool (expire env m)) \<subseteq> pool_images (pool m)"
proof -
  obtain ids where e: "expire env m = fold removeTxByID ids m" by (auto simp: expire_def RemoveExpired_def Let_def)
  have "fmlookup (pool (fold removeTxByID ids m)) \<subseteq>\<^sub>m fmlookup (pool m)"
    using removals_ok(2) [OF assms, of ids] by (auto simp: map_le_def)
  then show ?thesis unfolding e using removals_ok(1) [OF assms] pool_images_mono by blast
qed

end
