(* ===== verification/DaemonSafety.thy ===== *)
theory DaemonSafety
  imports DaemonProps
begin

text \<open>
  The daemon over its life: the states it reaches by blocks from peers, the miner and the sync manager, by transactions,
  by reads and restarts.  In all of them the mempool is in step with the main chain, and only a block with a nil
  transaction makes a handler panic.
\<close>

section \<open>A new tip\<close>

lemma view_ledger: "view_inv C B L c \<Longrightarrow> ledger_ok C L"
  by (simp add: view_inv_def)

lemma chain_branch: "view_inv C B L c \<Longrightarrow> chain_of C L bs \<Longrightarrow> branch (lblocks L) (bestHash c) bs"
  using view_height [of C B L c] by (auto simp: chain_of_def)

lemma chain_images: "chain_of C L bs \<Longrightarrow> dom (limages L) = set (images_of bs)"
  by (auto simp: chain_of_def main_is_def)

lemma block_images_distinct: "distinct (images_of bs) \<Longrightarrow> b \<in> set bs \<Longrightarrow> distinct (block_images b)"
  by (auto simp: images_of_def distinct_concat_iff)

text \<open>What a block does that becomes the tip: the mempool is updated, and ends with none of the images of the new main chain if
  it had none of the old one's and the branch is short enough for the walk.\<close>

lemma update_ok:
  assumes v: "view_inv C B L c" "view_inv C B L' (dm_chain d)" and mp: "mempool_ok C (dm_mempool d)"
    and ids: "\<forall>h b. lblocks L' h = Some b \<longrightarrow> ids_ok C b"
    and main: "lblocks L (Hash C block) = None" "lblocks L' = (lblocks L)(Hash C block \<mapsto> block)" "chain_of C L old" "chain_of C L' new"
      "hd new = block" "new = cs @ drop k old" "k \<le> unat MaxReorgDepth" "k < length old"
  shows "\<exists>d'. updateMempoolForAcceptedMainChain C B env block (bestHash c) d = Some d' \<and> view_inv C B L' (dm_chain d')
    \<and> mempool_ok C (dm_mempool d')
    \<and> (pool_images (pool (dm_mempool d)) \<inter> set (images_of old) = {} \<longrightarrow> length cs < maxReorgWalk
        \<longrightarrow> pool_images (pool (dm_mempool d')) \<inter> set (images_of new) = {})"
proof -
  let ?m = "dm_mempool d"
  have le: "lblocks L \<subseteq>\<^sub>m lblocks L'" using main(1,2) by (auto simp: map_le_def)
  have old: "branch (lblocks L') (bestHash c) old" using chain_branch [OF v(1) main(3)] branch_mono le by blast
  have new: "branch (lblocks L') (bestHash (dm_chain d)) new" using chain_branch [OF v(2) main(4)] .
  have bl: "block \<notin> set old"
  proof
    assume "block \<in> set old"
    then have "lblocks L (Hash C block) = Some block" using branch_hashes [OF view_tree [OF v(1)] chain_branch [OF v(1) main(3)]] by blast
    then show False using main(1) by simp
  qed
  have idb: "\<forall>b \<in> set old \<union> set new. ids_ok C b" using ids branch_stored [OF old] branch_stored [OF new] by blast
  have new_ne: "new \<noteq> []" using new branch_nonempty by blast
  have cs: "cs \<noteq> []"
  proof
    assume "cs = []"
    then have "hd new \<in> set (drop k old)" using main(6,8) by (metis append_Nil hd_in_set new_ne)
    then show False using main(5) bl in_set_dropD by metis
  qed
  show ?thesis
  proof (cases "bprev block = bestHash c")
    case fast: True
    obtain m1 where m1: "OnBlockConnected C block ?m = Some m1" "mempool_ok C m1" "pool_images (pool m1) \<subseteq> pool_images (pool ?m) - set (block_images block)"
      using connected_ok [OF mp, of block] idb main(5) new_ne by (metis UnCI hd_in_set)
    note ex = expire_ok [OF m1(2), of env]
    have "images_of new = block_images block @ images_of old"
    proof -
      obtain rest where nr: "new = block # rest" using main(5) new_ne by (cases new) auto
      have "rest \<noteq> []" using main(6,8) cs nr by (cases cs) auto
      then have "branch (lblocks L') (bprev block) rest" using new unfolding nr by (auto elim: branch_ConsE)
      then have "rest = old" using old branch_unique fast by metis
      then show ?thesis using nr by simp
    qed
    then show ?thesis using fast m1 ex v(2) by (fastforce simp: updateMempoolForAcceptedMainChain_def)
  next
    case slow: False
    obtain dis con c1 where col: "collectReorgDiffBlocks C B (bestHash c) (bestHash (dm_chain d)) (dm_chain d) = Some ((dis, con), c1)"
      "view_inv C B L' c1" "set dis \<subseteq> set old" "set con \<subseteq> set new"
      "\<And>i j. i < length old \<Longrightarrow> i < maxReorgWalk \<Longrightarrow> j < length new \<Longrightarrow> j < maxReorgWalk \<Longrightarrow> old ! i = new ! j
        \<Longrightarrow> \<exists>b post. old = dis @ b # post \<and> new = rev con @ b # post"
      using collect_ok [OF v(2) old new] by blast
    show ?thesis
    proof (cases "con = []")
      case True
      have "length cs \<ge> maxReorgWalk"
      proof (rule ccontr)
        assume "\<not> maxReorgWalk \<le> length cs"
        moreover have "k < maxReorgWalk" using main(7) by (simp add: MaxReorgDepth_def maxReorgWalk_def)
        moreover have "length cs < length new" "new ! length cs = old ! k" using main(6,8) by (simp_all add: nth_append)
        ultimately obtain b post where "old = dis @ b # post" "new = b # post" using col(5) [of k "length cs"] main(8) True by auto
        then show False using main(5) bl by auto
      qed
      moreover obtain m1 where m1: "OnBlockConnected C block ?m = Some m1" "mempool_ok C m1"
        using connected_ok [OF mp, of block] idb main(5) new_ne by (metis UnCI hd_in_set)
      ultimately show ?thesis
        using slow True col(1,2) expire_ok [OF m1(2), of env] by (simp add: updateMempoolForAcceptedMainChain_def)
    next
      case False
      have dist: "distinct (images_of old)" using chain_branch_ok [OF view_ledger [OF v(1)] main(3)] by (simp add: branch_ok_def)
      then have "\<forall>b \<in> set dis. ids_ok C b \<and> distinct (block_images b)" using col(3) idb block_images_distinct by blast
      then obtain m1 where m1: "disconnect_all C (isKeyImageSpentLocked B c1) (de_requeue env) 0 dis ?m = Some m1" "mempool_ok C m1"
        "\<forall>ki \<in> pool_images (pool m1). ki \<in> pool_images (pool ?m) \<or> \<not> isKeyImageSpentLocked B c1 ki"
        using disconnect_all_ok [OF mp] by blast
      have "\<forall>b \<in> set con. ids_ok C b" using col(4) idb by blast
      from connect_all_ok [OF m1(2) this] obtain m2 where m2: "connect_all C con m1 = Some m2" "mempool_ok C m2"
        "pool_images (pool m2) \<subseteq> pool_images (pool m1) - set (images_of con)" by blast
      note ex = expire_ok [OF m2(2), of env]
      have run: "updateMempoolForAcceptedMainChain C B env block (bestHash c) d = Some (d\<lparr>dm_chain := c1, dm_mempool := expire env m2\<rparr>)"
        using slow False col(1) m1(1) m2(1) by (simp add: updateMempoolForAcceptedMainChain_def)
      have "pool_images (pool (expire env m2)) \<inter> set (images_of new) = {}"
        if clear: "pool_images (pool ?m) \<inter> set (images_of old) = {}" and short: "length cs < maxReorgWalk"
      proof -
        have "k < maxReorgWalk" using main(7) by (simp add: MaxReorgDepth_def maxReorgWalk_def)
        moreover have "length cs < length new" "new ! length cs = old ! k" using main(6,8) by (simp_all add: nth_append)
        ultimately obtain b post where bp: "old = dis @ b # post" "new = rev con @ b # post" using col(5) [of k "length cs"] main(8) short by auto
        have sp: "isKeyImageSpentLocked B c1 ki \<longleftrightarrow> ki \<in> set (images_of new)" for ki
          using view_spent [OF col(2)] main_unique [OF col(2) main(4)] by simp
        have "ki \<notin> set (images_of new)" if ki: "ki \<in> pool_images (pool (expire env m2))" for ki
        proof -
          have p: "ki \<in> pool_images (pool m1)" "ki \<notin> set (images_of con)" using ki ex m2(3) by auto
          consider "ki \<in> pool_images (pool ?m)" | "\<not> isKeyImageSpentLocked B c1 ki" using m1(3) p(1) by blast
          then show ?thesis
          proof cases
            case 1
            then have "ki \<notin> set (images_of old)" using clear by blast
            then show ?thesis using p(2) by (simp add: bp)
          qed (simp add: sp)
        qed
        then show ?thesis by blast
      qed
      then show ?thesis using run col(2) ex by simp
    qed
  qed
qed

section \<open>Processing a block\<close>

text \<open>The state between two calls; \<open>strict\<close> adds that the mempool has no image of the main chain.\<close>

definition daemon_inv :: "bool \<Rightarrow> crypto \<Rightarrow> 'b bolt \<Rightarrow> 'b daemon \<Rightarrow> bool" where
  "daemon_inv strict C B d \<longleftrightarrow> (\<exists>L. view_inv C B L (dm_chain d) \<and> (\<forall>h b. lblocks L h = Some b \<longrightarrow> ids_ok C b)
     \<and> mempool_ok C (dm_mempool d) \<and> (strict \<longrightarrow> pool_images (pool (dm_mempool d)) \<inter> dom (limages L) = {}))"

text \<open>A block at most so far above the tip that its branch fits into the walk of \<open>collectReorgDiffBlocks\<close>, and whose write as a
  side block does not fail.\<close>

definition allowed :: "bool \<Rightarrow> crypto \<Rightarrow> net_params \<Rightarrow> 'b bolt \<Rightarrow> daemon_env \<Rightarrow> Block \<Rightarrow> 'b daemon \<Rightarrow> bool" where
  "allowed strict C P B env block d \<longleftrightarrow>
     (strict \<longrightarrow> unat (bheight block) + unat MaxReorgDepth < unat (height (dm_chain d)) + maxReorgWalk)
     \<and> (\<forall>e. fst (ProcessBlock C P B (de_now env) block (dm_chain d)) \<noteq> Inl (ForkSaveFailed e))"

lemma inv_simps [simp]:
  "daemon_inv strict C B (d\<lparr>dm_gossipBlockInFlight := i\<rparr>) = daemon_inv strict C B d"
  "daemon_inv strict C B (d\<lparr>dm_gossipBlockLastAttempt := l\<rparr>) = daemon_inv strict C B d"
  "daemon_inv strict C B (d\<lparr>dm_checkpointLines := ls, dm_lastCheckpointWritten := h\<rparr>) = daemon_inv strict C B d"
  "daemon_inv strict C B (maybeAppendCheckpointLocked C env block d) = daemon_inv strict C B d"
  "daemon_inv strict C B (releaseGossipBlockValidationSlot d) = daemon_inv strict C B d"
  by (simp_all add: daemon_inv_def maybeAppendCheckpointLocked_def releaseGossipBlockValidationSlot_def Let_def)

lemma valid_ids:
  assumes "process_valid C P now cps until L block"
  shows "ids_ok C block"
proof (cases "Transactions block = []")
  case False
  then have "\<not> validateGenesisBlock C P block = Inr ()" by (auto simp: validateGenesisBlock_def Let_def)
  then obtain root where "ComputeMerkleRoot C block = Some root"
    using assms by (auto simp: process_valid_def block_valid_def body_valid_def split: prod.splits if_splits)
  then obtain ids where "map (TxID C) (Transactions block) = map Some ids"
    using False those_map by (auto simp: ComputeMerkleRoot_def tx_ids_def split: if_splits)
  then have "TxID C tx \<in> Some ` set ids" if "tx \<in> set (Transactions block)" for tx
    using that by (metis image_eqI list.set_map)
  then show ?thesis by (auto simp: ids_ok_def)
qed (simp add: ids_ok_def)

text \<open>Blocks are only ever added to the store, and a block that is accepted or known is stored afterwards.\<close>

definition stores_more :: "'b bolt \<Rightarrow> 'b daemon \<Rightarrow> 'b daemon \<Rightarrow> bool" where
  "stores_more B d d' \<longleftrightarrow> (\<forall>h. chain_HasBlock B (dm_chain d) h \<longrightarrow> chain_HasBlock B (dm_chain d') h)"

lemma stores_moreI:
  "view_inv C B L (dm_chain d) \<Longrightarrow> view_inv C B L' (dm_chain d') \<Longrightarrow> (\<And>h. lblocks L h \<noteq> None \<Longrightarrow> lblocks L' h \<noteq> None)
   \<Longrightarrow> stores_more B d d'"
  by (simp add: stores_more_def view_has)

lemma stores_more_trans: "stores_more B d d' \<Longrightarrow> stores_more B d' d'' \<Longrightarrow> stores_more B d d''"
  by (simp add: stores_more_def)

lemma process_and_update_ok:
  assumes C: "sha3_32 C" and inv: "daemon_inv strict C B d" and ok: "allowed strict C P B env block d"
  shows "\<exists>r d'. process_and_update C P B env block d = Some (r, d') \<and> daemon_inv strict C B d' \<and> stores_more B d d'
    \<and> (r \<in> range Inr \<longrightarrow> chain_HasBlock B (dm_chain d') (Hash C block))"
proof -
  obtain L where L: "view_inv C B L (dm_chain d)" "\<forall>h b. lblocks L h = Some b \<longrightarrow> ids_ok C b" "mempool_ok C (dm_mempool d)"
    "strict \<longrightarrow> pool_images (pool (dm_mempool d)) \<inter> dom (limages L) = {}" using inv by (auto simp: daemon_inv_def)
  obtain r c' where p: "ProcessBlock C P B (de_now env) block (dm_chain d) = (r, c')" by fastforce
  have "r \<noteq> Inl (ForkSaveFailed e)" for e using ok p by (simp add: allowed_def)
  from process_refines [OF C L(1) p this] obtain L' where
    step: "process_step C P (de_now env) (trustedCheckpoints (dm_chain d)) (fastSyncUntilHeight (dm_chain d)) L block r L'"
    and v': "view_inv C B L' c'" by blast
  let ?d = "d\<lparr>dm_chain := c'\<rparr>"
  have more: "stores_more B d d'" if "view_inv C B L' (dm_chain d')" "\<And>h. lblocks L h \<noteq> None \<Longrightarrow> lblocks L' h \<noteq> None" for d' :: "'a daemon"
    using stores_moreI [OF L(1) that(1)] that(2) by blast
  from step show ?thesis
  proof (cases rule: process_step.cases)
    case known
    then have "daemon_inv strict C B ?d" using v' L by (auto simp: daemon_inv_def)
    then show ?thesis using p known more [of ?d] v' view_has [OF v'] by (simp add: process_and_update_def)
  next
    case (refused e)
    then have "daemon_inv strict C B ?d" using v' L by (auto simp: daemon_inv_def)
    then show ?thesis using p refused more [of ?d] v' by (auto simp: process_and_update_def)
  next
    case (side bs)
    have v2: "view_inv C B (ledger_save C block L) c'" using v' side by simp
    moreover have "\<forall>h b. lblocks (ledger_save C block L) h = Some b \<longrightarrow> ids_ok C b"
      using L(2) valid_ids [OF side(4)] by (simp add: ledger_save_def)
    moreover have "limages (ledger_save C block L) = limages L" by (simp add: ledger_save_def)
    ultimately have "daemon_inv strict C B ?d" using L unfolding daemon_inv_def by (intro exI [of _ "ledger_save C block L"]) simp
    moreover have "stores_more B d ?d" using stores_moreI [OF L(1), of "ledger_save C block L" ?d] v2 by (simp add: ledger_save_def)
    moreover have "chain_HasBlock B c' (Hash C block)" using view_has [OF v2] by (simp add: ledger_save_def)
    ultimately show ?thesis using p side by (simp add: process_and_update_def)
  next
    case (main old new cs k)
    have ids: "\<forall>h b. lblocks L' h = Some b \<longrightarrow> ids_ok C b" using L(2) main(4) valid_ids [OF main(3)] by simp
    have v2: "view_inv C B L' (dm_chain ?d)" and mp: "mempool_ok C (dm_mempool ?d)" using v' L(3) by simp_all
    obtain d' where u: "updateMempoolForAcceptedMainChain C B env block (bestHash (dm_chain d)) ?d = Some d'"
      "view_inv C B L' (dm_chain d')" "mempool_ok C (dm_mempool d')"
      "pool_images (pool (dm_mempool d)) \<inter> set (images_of old) = {} \<longrightarrow> length cs < maxReorgWalk
        \<longrightarrow> pool_images (pool (dm_mempool d')) \<inter> set (images_of new) = {}"
      using update_ok [OF L(1) v2 mp ids main(2,4,5,6,7,9,10,11), of env] by auto
    have "length cs < maxReorgWalk" if strict
    proof -
      have "length old = Suc (unat (height (dm_chain d)))"
        using main(5) view_height [OF L(1)] by (auto simp: chain_of_def)
      moreover have "length new = Suc (unat (bheight block))"
        using branch_length [OF view_tree [OF v'] chain_branch [OF v' main(6)]] main(7) by simp
      moreover have "length new = length cs + (length old - k)" using main(9) by simp
      ultimately show ?thesis using main(10,11) ok that unfolding allowed_def by linarith
    qed
    then have "daemon_inv strict C B d'"
      using u ids L(4) chain_images [OF main(5)] chain_images [OF main(6)] unfolding daemon_inv_def by (intro exI [of _ L']) simp
    moreover have "stores_more B d d'" using more [OF u(2)] main(4) by simp
    moreover have "chain_HasBlock B (dm_chain d') (Hash C block)" using view_has [OF u(2)] main(4) by simp
    moreover have "dm_chain (maybeAppendCheckpointLocked C env block d') = dm_chain d'"
      by (simp add: maybeAppendCheckpointLocked_def Let_def)
    ultimately show ?thesis using p u(1) main(1) by (simp add: process_and_update_def stores_more_def)
  qed
qed

section \<open>Adding a transaction\<close>

lemma add_chain:
  assumes "view_inv C B L c" "AddTransaction C isSpent (isCanonicalRingMemberLocked B) ord now tx data m c = Some (r, m', c')"
  shows "view_inv C B L c'"
proof -
  have key: "view_inv C B L c2" if "ValidateTransaction C t isSpent (Some (isCanonicalRingMemberLocked B)) c = (x, c2)" for t x c2
    using view.transaction_ok [OF assms(1)] that by (metis snd_conv)
  show ?thesis
    using assms by (auto simp: AddTransaction_def Let_def split: sum.splits option.splits prod.splits if_splits dest: key)
qed

lemma add_images:
  assumes v: "view_inv C B L c" and step: "add_step C (isKeyImageSpentLocked B c) (isCanonicalRingMemberLocked B) now tx data c m r m'"
    and clear: "pool_images (pool m) \<inter> dom (limages L) = {}"
  shows "pool_images (pool m') \<inter> dom (limages L) = {}"
  using step
proof (cases rule: add_step.cases)
  case (no_room parsed txID e)
  then show ?thesis using clear pool_images_mono by (fastforce simp: sheds_def)
next
  case (added parsed txID M)
  have "tx_valid C parsed (isKeyImageSpentLocked B c) (canon_member L)"
    using added(2) view.transaction_ok [OF v] by (auto simp: admits_def)
  then have un: "\<not> isKeyImageSpentLocked B c ki" if "ki \<in> set (input_images parsed)" for ki
    using that tx_valid_unspent [of C parsed "isKeyImageSpentLocked B c" "canon_member L"] by (auto simp: input_images_def)
  have "isKeyImageSpentLocked B c ki \<longleftrightarrow> ki \<in> dom (limages L)" for ki
    using isKeyImageSpent_exact [of B L "lblocks L" c ki] v by (auto simp: view_inv_def)
  then have new: "set (input_images parsed) \<inter> dom (limages L) = {}" using un by blast
  have "pool_images M \<subseteq> pool_images (pool m)" using added(4) pool_images_mono by (simp add: sheds_def)
  moreover have "pool_images (pool m') \<subseteq> pool_images M \<union> set (input_images parsed)"
    unfolding added(7) by (auto simp: pool_images_def new_entry_def split: if_splits)
  ultimately show ?thesis using clear new by blast
qed (use clear in simp_all)

lemma add_to_mempool_ok:
  assumes inv: "daemon_inv strict C B d" and ord: "range_order (de_ord env)"
  shows "\<exists>r d'. add_to_mempool C B env tx data d = Some (r, d') \<and> daemon_inv strict C B d'"
proof -
  obtain L where L: "view_inv C B L (dm_chain d)" "\<forall>h b. lblocks L h = Some b \<longrightarrow> ids_ok C b" "mempool_ok C (dm_mempool d)"
    "strict \<longrightarrow> pool_images (pool (dm_mempool d)) \<inter> dom (limages L) = {}" using inv by (auto simp: daemon_inv_def)
  obtain r m' c' where a: "AddTransaction C (isKeyImageSpentLocked B (dm_chain d)) (isCanonicalRingMemberLocked B) (de_ord env) (de_time env) tx data
      (dm_mempool d) (dm_chain d) = Some (r, m', c')" "mempool_ok C m'"
    "add_step C (isKeyImageSpentLocked B (dm_chain d)) (isCanonicalRingMemberLocked B) (de_time env) tx data (dm_chain d) (dm_mempool d) r m'"
    using AddTransaction_step [OF L(3) ord, of "isKeyImageSpentLocked B (dm_chain d)" "isCanonicalRingMemberLocked B" "de_time env" tx data
        "dm_chain d"] by blast
  have "daemon_inv strict C B (d\<lparr>dm_chain := c', dm_mempool := m'\<rparr>)"
    using add_chain [OF L(1) a(1)] a(2) L add_images [OF L(1) a(3)] unfolding daemon_inv_def by (intro exI [of _ L]) simp
  then show ?thesis using a(1) by (simp add: add_to_mempool_def)
qed

section \<open>Handlers\<close>

definition nil_block :: "(bytes \<Rightarrow> JBlock option) \<Rightarrow> bytes \<Rightarrow> bool" where
  "nil_block unmarshal data \<longleftrightarrow> (\<exists>jb. unmarshal data = Some jb \<and> Version (jb_Header jb) \<noteq> 0 \<and> None \<in> set (jb_Transactions jb))"

definition allowed_data :: "bool \<Rightarrow> crypto \<Rightarrow> net_params \<Rightarrow> 'b bolt \<Rightarrow> (bytes \<Rightarrow> JBlock option) \<Rightarrow> daemon_env \<Rightarrow> bytes \<Rightarrow> 'b daemon \<Rightarrow> bool" where
  "allowed_data strict C P B unmarshal env data d \<longleftrightarrow>
     (\<forall>jb block. unmarshal data = Some jb \<longrightarrow> deref_block jb = Some block \<longrightarrow> allowed strict C P B env block d)"

lemma prefilter_deref: "validateBlockCheapPrefilters jb = Some (Inr ()) \<Longrightarrow> \<exists>block. deref_block jb = Some block"
  using prefilter_spec [of jb] by (cases "those (jb_Transactions jb)") (auto simp: deref_block_def those_None)

lemma memo_check_errors: "memo_check ti oi outs = Inl e \<Longrightarrow> e \<notin> {ErrDuplicateBlock, ErrSideChainBlock}"
  by (induction ti oi outs rule: memo_check.induct) (auto split: if_splits)

lemma memo_checks_errors: "memo_checks ti txs = Inl e \<Longrightarrow> e \<notin> {ErrDuplicateBlock, ErrSideChainBlock}"
  by (induction ti txs rule: memo_checks.induct) (auto split: option.splits sum.splits dest: memo_check_errors)

lemma prefilter_errors: "validateBlockCheapPrefilters jb = Some (Inl e) \<Longrightarrow> e \<noteq> ErrDuplicateBlock \<and> e \<noteq> ErrSideChainBlock"
  by (auto simp: validateBlockCheapPrefilters_def simp del: memo_checks.simps split: if_splits option.splits list.splits bool.splits
      dest: memo_checks_errors)

lemma prefilter_cases:
  assumes "unmarshal data = Some jb"
  obtains "validateBlockCheapPrefilters jb = None" "nil_block unmarshal data"
  | e where "validateBlockCheapPrefilters jb = Some (Inl e)" "\<not> nil_block unmarshal data"
  | block where "validateBlockCheapPrefilters jb = Some (Inr ())" "deref_block jb = Some block" "\<not> nil_block unmarshal data"
proof -
  have nil: "nil_block unmarshal data \<longleftrightarrow> validateBlockCheapPrefilters jb = None"
    using assms prefilter_spec [of jb] by (simp add: nil_block_def)
  show ?thesis
  proof (cases "validateBlockCheapPrefilters jb")
    case None
    then show ?thesis using nil that(1) by simp
  next
    case (Some r)
    then show ?thesis using nil that(2,3) prefilter_deref by (cases r) auto
  qed
qed

lemma processBlockData_ok:
  assumes C: "sha3_32 C" and inv: "daemon_inv strict C B d" and ok: "allowed_data strict C P B unmarshal env data d"
  shows "case processBlockData C P B unmarshal env data d of None \<Rightarrow> nil_block unmarshal data
    | Some (r, d') \<Rightarrow> \<not> nil_block unmarshal data \<and> daemon_inv strict C B d' \<and> stores_more B d d'
        \<and> (r \<in> {Inr (), Inl ErrDuplicateBlock, Inl ErrSideChainBlock}
            \<longrightarrow> (\<exists>jb. unmarshal data = Some jb \<and> chain_HasBlock B (dm_chain d') (header_Hash C (jb_Header jb))))"
proof (cases "unmarshal data")
  case None
  then show ?thesis using inv by (simp add: processBlockData_def nil_block_def stores_more_def)
next
  case (Some jb)
  then show ?thesis
  proof (cases rule: prefilter_cases)
    case (3 block)
    then have "allowed strict C P B env block d" using ok Some by (simp add: allowed_data_def)
    from process_and_update_ok [OF C inv this] obtain r d' where "process_and_update C P B env block d = Some (r, d')" "daemon_inv strict C B d'"
      "stores_more B d d'" "r \<in> range Inr \<longrightarrow> chain_HasBlock B (dm_chain d') (Hash C block)" by blast
    moreover have "Hash C block = header_Hash C (jb_Header jb)" using 3(2) by (auto simp: deref_block_def Hash_def)
    ultimately show ?thesis using Some 3 by (cases r) (auto simp: processBlockData_def)
  next
    case (2 e)
    then have "e \<noteq> ErrDuplicateBlock \<and> e \<noteq> ErrSideChainBlock" using prefilter_errors by blast
    then show ?thesis using Some 2 inv by (auto simp: processBlockData_def stores_more_def)
  qed (use Some inv in \<open>auto simp: processBlockData_def\<close>)
qed

lemma handleBlock_ok:
  assumes C: "sha3_32 C" and inv: "daemon_inv strict C B d" and ok: "allowed_data strict C P B unmarshal env data d"
  shows "case handleBlock C P B unmarshal env sender data d of None \<Rightarrow> nil_block unmarshal data
    | Some (es, d') \<Rightarrow> \<not> nil_block unmarshal data \<and> daemon_inv strict C B d'"
proof (cases "unmarshal data")
  case None
  then show ?thesis using inv by (simp add: handleBlock_def nil_block_def)
next
  case (Some jb)
  then show ?thesis
  proof (cases rule: prefilter_cases)
    case (3 block)
    obtain a d1 where a: "acquireGossipBlockValidationSlot (de_time env) sender d = (a, d1)" by fastforce
    have d1: "dm_chain d1 = dm_chain d" "dm_mempool d1 = dm_mempool d"
      using a by (auto simp: acquireGossipBlockValidationSlot_def Let_def split: prod.splits if_splits)
    then have inv1: "daemon_inv strict C B d1" "allowed strict C P B env block d1"
      using inv ok Some 3 by (auto simp: daemon_inv_def allowed_data_def allowed_def)
    obtain r d' where "process_and_update C P B env block d1 = Some (r, d')" "daemon_inv strict C B d'"
      using process_and_update_ok [OF C inv1] by auto
    then show ?thesis using Some 3 a inv1 by (cases a; cases r) (auto simp: handleBlock_def)
  qed (use Some inv in \<open>auto simp: handleBlock_def\<close>)
qed

lemma SubmitBlock_ok:
  assumes C: "sha3_32 C" and inv: "daemon_inv strict C B d" and ok: "allowed strict C P B env block d"
  shows "\<exists>r es d'. SubmitBlock C P B env block d = Some (r, es, d') \<and> daemon_inv strict C B d'"
proof -
  obtain r d' where "process_and_update C P B env block d = Some (r, d')" "daemon_inv strict C B d'"
    using process_and_update_ok [OF C inv ok] by auto
  then show ?thesis using inv by (cases r; cases "validateSubmitBlockStaleLocked block (dm_chain d)") (auto simp: SubmitBlock_def)
qed

lemma handleTx_ok:
  assumes inv: "daemon_inv strict C B d" and ord: "range_order (de_ord env)"
  shows "\<exists>es d'. handleTx C B env sender data d = Some (es, d') \<and> daemon_inv strict C B d'"
proof (cases "DeserializeTx data")
  case (Inl e)
  then show ?thesis using inv by (simp add: handleTx_def)
next
  case (Inr tx)
  obtain r d' where "add_to_mempool C B env tx data d = Some (r, d')" "daemon_inv strict C B d'"
    using add_to_mempool_ok [where tx = tx and data = data, OF inv ord] by blast
  moreover obtain txID where "TxID C tx = Some txID" using decoded_tx [OF Inr] by blast
  ultimately show ?thesis using Inr inv by (cases r) (auto simp: handleTx_def)
qed

lemma tx_entries_ok:
  assumes inv: "daemon_inv strict C B d" and ord: "range_order (de_ord env)"
  shows "\<exists>r d'. processTxData C B env data d = Some (r, d') \<and> daemon_inv strict C B d'"
    and "\<exists>r es d'. SubmitTransaction C B env data d = Some (r, es, d') \<and> daemon_inv strict C B d'"
proof -
  have add: "\<exists>r d'. add_to_mempool C B env tx data d = Some (r, d') \<and> daemon_inv strict C B d'" for tx
    using add_to_mempool_ok [where tx = tx and data = data, OF inv ord] by blast
  have "(\<exists>r d'. processTxData C B env data d = Some (r, d') \<and> daemon_inv strict C B d')
      \<and> (\<exists>r es d'. SubmitTransaction C B env data d = Some (r, es, d') \<and> daemon_inv strict C B d')"
  proof (cases "DeserializeTx data")
    case (Inl e)
    then show ?thesis using inv by (simp add: processTxData_def SubmitTransaction_def)
  next
    case (Inr tx)
    obtain r d' where "add_to_mempool C B env tx data d = Some (r, d')" "daemon_inv strict C B d'" using add [of tx] by blast
    then show ?thesis using Inr by (cases r) (simp_all add: processTxData_def SubmitTransaction_def)
  qed
  then show "\<exists>r d'. processTxData C B env data d = Some (r, d') \<and> daemon_inv strict C B d'"
    "\<exists>r es d'. SubmitTransaction C B env data d = Some (r, es, d') \<and> daemon_inv strict C B d'" by blast+
qed

section \<open>Reachable states\<close>

text \<open>The life of the daemon from an empty database: \<open>NewDaemon\<close> opens the chain, installs the genesis block and creates an
  empty mempool; then come blocks, transactions, reads of blocks and restarts, in any order.\<close>

inductive daemon_run :: "bool \<Rightarrow> crypto \<Rightarrow> net_params \<Rightarrow> 'b bolt \<Rightarrow> (bytes \<Rightarrow> JBlock option) \<Rightarrow> 'b daemon \<Rightarrow> bool" for strict C P B unmarshal where
  start: "stores B st empty_ledger \<Longrightarrow> NewChain B cap st = Inr c \<Longrightarrow> addGenesisBlock C P B now block c = (Inr (), dm_chain d)
    \<Longrightarrow> dm_mempool d = NewMempool cfg \<Longrightarrow> daemon_run strict C P B unmarshal d"
| sync: "daemon_run strict C P B unmarshal d \<Longrightarrow> allowed_data strict C P B unmarshal env data d
    \<Longrightarrow> processBlockData C P B unmarshal env data d = Some (r, d') \<Longrightarrow> daemon_run strict C P B unmarshal d'"
| gossip: "daemon_run strict C P B unmarshal d \<Longrightarrow> allowed_data strict C P B unmarshal env data d
    \<Longrightarrow> handleBlock C P B unmarshal env sender data d = Some (es, d') \<Longrightarrow> daemon_run strict C P B unmarshal d'"
| submit: "daemon_run strict C P B unmarshal d \<Longrightarrow> allowed strict C P B env block d
    \<Longrightarrow> SubmitBlock C P B env block d = Some (rs, es, d') \<Longrightarrow> daemon_run strict C P B unmarshal d'"
| gossip_tx: "daemon_run strict C P B unmarshal d \<Longrightarrow> range_order (de_ord env)
    \<Longrightarrow> handleTx C B env sender data d = Some (es, d') \<Longrightarrow> daemon_run strict C P B unmarshal d'"
| sync_tx: "daemon_run strict C P B unmarshal d \<Longrightarrow> range_order (de_ord env)
    \<Longrightarrow> processTxData C B env data d = Some (r, d') \<Longrightarrow> daemon_run strict C P B unmarshal d'"
| submit_tx: "daemon_run strict C P B unmarshal d \<Longrightarrow> range_order (de_ord env)
    \<Longrightarrow> SubmitTransaction C B env data d = Some (r, es, d') \<Longrightarrow> daemon_run strict C P B unmarshal d'"
| read: "daemon_run strict C P B unmarshal d \<Longrightarrow> chain_GetBlock B (dm_chain d) h = (b, c')
    \<Longrightarrow> daemon_run strict C P B unmarshal (d\<lparr>dm_chain := c'\<rparr>)"
| restart: "daemon_run strict C P B unmarshal d \<Longrightarrow> NewChain B cap (storage (dm_chain d)) = Inr (dm_chain d')
    \<Longrightarrow> dm_mempool d' = NewMempool cfg \<Longrightarrow> daemon_run strict C P B unmarshal d'"

lemma new_pool: "mempool_ok C (NewMempool cfg)" "pool_images (pool (NewMempool cfg)) = {}"
  by (rule new_ok) (simp add: pool_images_def pool_def NewMempool_def)

lemma run_inv:
  assumes C: "sha3_32 C" and B: "bolt_ok B" and run: "daemon_run strict C P B unmarshal d"
  shows "daemon_inv strict C B d"
  using run
proof induction
  case (start st cap c now block d cfg)
  obtain c0 where "NewChain B cap st = Inr c0" "view_inv C B empty_ledger c0" using restart_ok [OF B empty_ledger_ok start(1)] by blast
  then have "view_inv C B empty_ledger c" using start(2) by simp
  from addGenesisBlock_ok [OF C this start(3)] obtain L' where "view_inv C B L' (dm_chain d)" "lblocks L' = [Hash C block \<mapsto> block]"
    "Transactions block = []" by auto
  then show ?case using start(4) new_pool unfolding daemon_inv_def by (intro exI [of _ L']) (auto simp: ids_ok_def split: if_splits)
next
  case (sync d env data r d')
  then show ?case using processBlockData_ok [OF C sync.IH sync(2)] by simp
next
  case (gossip d env data sender es d')
  then show ?case using handleBlock_ok [OF C gossip.IH gossip(2), of sender] by simp
next
  case (submit d env block rs es d')
  then show ?case using SubmitBlock_ok [OF C submit.IH submit(2)] by auto
next
  case (gossip_tx d env sender data es d')
  then show ?case using handleTx_ok [OF gossip_tx.IH gossip_tx(2), of sender data] by auto
next
  case (sync_tx d env data r d')
  then show ?case using tx_entries_ok(1) [OF sync_tx.IH sync_tx(2), of data] by auto
next
  case (submit_tx d env data r es d')
  then show ?case using tx_entries_ok(2) [OF submit_tx.IH submit_tx(2), of data] by auto
next
  case (read d h b c')
  then obtain L where "view_inv C B L (dm_chain d)" "\<forall>h b. lblocks L h = Some b \<longrightarrow> ids_ok C b" "mempool_ok C (dm_mempool d)"
    "strict \<longrightarrow> pool_images (pool (dm_mempool d)) \<inter> dom (limages L) = {}" by (auto simp: daemon_inv_def)
  then show ?case using view_get [OF _ read(2)] unfolding daemon_inv_def by (intro exI [of _ L]) auto
next
  case (restart d cap d' cfg)
  then obtain L where L: "view_inv C B L (dm_chain d)" "\<forall>h b. lblocks L h = Some b \<longrightarrow> ids_ok C b" by (auto simp: daemon_inv_def)
  have "stores B (storage (dm_chain d)) L" using L(1) by (simp add: view_inv_def mem_ok_def)
  from restart_ok [OF B view_ledger [OF L(1)] this, of cap] have "view_inv C B L (dm_chain d')" using restart(2) by auto
  then show ?case using L(2) restart(3) new_pool unfolding daemon_inv_def by (intro exI [of _ L]) auto
qed


text \<open>C35. Every message is survived but one.  In every state the daemon reaches, the handlers of transactions and of blocks from
  the miner return, and the handlers of blocks from peers return unless the decoded block has a non-zero version and a nil
  transaction, which makes them panic.\<close>

theorem handlers_return:
  assumes "sha3_32 C" "bolt_ok B" "daemon_run False C P B unmarshal d" "allowed_data False C P B unmarshal env data d"
    and "allowed False C P B env block d" "range_order (de_ord env)"
  shows "(processBlockData C P B unmarshal env data d = None \<longleftrightarrow> nil_block unmarshal data)
    \<and> (handleBlock C P B unmarshal env sender data d = None \<longleftrightarrow> nil_block unmarshal data)
    \<and> SubmitBlock C P B env block d \<noteq> None \<and> handleTx C B env sender txData d \<noteq> None
    \<and> processTxData C B env txData d \<noteq> None \<and> SubmitTransaction C B env txData d \<noteq> None"
proof -
  note inv = run_inv [OF assms(1-3)]
  have "processBlockData C P B unmarshal env data d = None \<longleftrightarrow> nil_block unmarshal data"
    using processBlockData_ok [OF assms(1) inv assms(4)] by (auto split: option.splits)
  moreover have "handleBlock C P B unmarshal env sender data d = None \<longleftrightarrow> nil_block unmarshal data"
    using handleBlock_ok [OF assms(1) inv assms(4), of sender] by (auto split: option.splits)
  ultimately show ?thesis
    using SubmitBlock_ok [OF assms(1) inv assms(5)] handleTx_ok [OF inv assms(6), of sender txData] tx_entries_ok [OF inv assms(6), of txData]
    by auto
qed

section \<open>A sample daemon\<close>

definition sample_daemon :: "(bytes \<times> dbval) list daemon" where
  "sample_daemon = \<lparr>dm_chain = sample_node, dm_mempool = NewMempool DefaultMempoolConfig, dm_gossipBlockInFlight = 0,
     dm_gossipBlockLastAttempt = [], dm_saveCheckpoints = False, dm_checkpointsFile = [], dm_lastCheckpointWritten = 0,
     dm_checkpointLines = []\<rparr>"

definition sample_env :: daemon_env where
  "sample_env = \<lparr>de_now = (\<lambda>_. 0), de_time = 0, de_requeue = (\<lambda>_ _. 0), de_ord = sorted_order, de_write = True\<rparr>"

text \<open>A decoder that reads every payload as a block of version 1 with one nil transaction.\<close>

definition nil_decoder :: "bytes \<Rightarrow> JBlock option" where
  "nil_decoder data = Some \<lparr>jb_Header = Header sample_genesis, jb_Transactions = [None]\<rparr>"

lemma sample_daemon_run: "daemon_run strict sample_crypto sample_params list_bolt unmarshal sample_daemon"
proof (rule daemon_run.start [OF empty_stores sample_opens])
  obtain c' where "addGenesisBlock sample_crypto sample_params list_bolt (\<lambda>_. 0) sample_genesis sample_fresh = (Inr (), c')"
    using genesis_installs_fresh [OF sample_ok list_bolt_total empty_stores sample_opens, of sample_params "\<lambda>_. 0"]
    unfolding sample_genesis_def by blast
  then show "addGenesisBlock sample_crypto sample_params list_bolt (\<lambda>_. 0) sample_genesis sample_fresh = (Inr (), dm_chain sample_daemon)"
    by (simp add: sample_daemon_def sample_node_def)
qed (simp add: sample_daemon_def)


theorem handlers_return_witness:
  "processBlockData sample_crypto sample_params list_bolt nil_decoder sample_env [1] sample_daemon = None
   \<and> SubmitTransaction sample_crypto list_bolt sample_env [1] sample_daemon \<noteq> None"
proof -
  have "allowed_data False sample_crypto sample_params list_bolt nil_decoder sample_env [1] sample_daemon"
    by (simp add: allowed_data_def nil_decoder_def deref_block_def)
  moreover have "allowed False sample_crypto sample_params list_bolt sample_env sample_genesis sample_daemon"
    using ProcessBlock_known [OF sample_known] by (simp add: allowed_def sample_daemon_def)
  moreover have "range_order (de_ord sample_env)" by (simp add: sample_env_def sorted_order_ok)
  moreover have "nil_block nil_decoder [1]"
    by (simp add: nil_block_def nil_decoder_def sample_genesis_def GetGenesisBlock_def)
  ultimately show ?thesis using handlers_return [OF sample_ok sample_daemon_run] by blast
qed

theorem prefilter_exact_witness:
  "validateBlockCheapPrefilters \<lparr>jb_Header = Header sample_genesis, jb_Transactions = [None]\<rparr> = None
   \<and> validateBlockCheapPrefilters \<lparr>jb_Header = Header sample_genesis, jb_Transactions = [Some \<lparr>TxVersion = 1, Inputs = [],
        Outputs = [], Fee = 0, TxPublicKey = []\<rparr>]\<rparr> = Some (Inr ())"
  unfolding conjunct1 [OF prefilter_exact] conjunct1 [OF conjunct2 [OF prefilter_exact]]
  by (simp add: sample_genesis_def GetGenesisBlock_def IsCoinbase_def block_Size_def blockHeaderSerializedSize_def Size_def MaxBlockSize_def)

end
