(* ===== verification/SyncProps.thy ===== *)
theory SyncProps
  imports Sync DaemonSafety
begin

text \<open>
  Facts about synchronisation: what a node serves is a piece of its main chain and fits the frames of the protocol, a block
  whose processing reports success is stored together with the parents that were missing, and downloaded blocks are
  processed in the order of their heights whatever the order of their arrival.
\<close>

section \<open>Batches\<close>

lemma length_base64 [len_simps]: "length (base64 bs) = 4 * ((length bs + 2) div 3)"
proof (induction bs rule: base64.induct)
  case (4 a b c rest)
  have "(length (a # b # c # rest) + 2) div 3 = Suc ((length rest + 2) div 3)" by simp
  then show ?case using 4 by simp
qed simp_all

lemma length_json_items: "3 * length (json_items xs) \<le> 4 * sum_list (map length xs) + 17 * length xs"
proof (induction xs rule: json_items.induct)
  case (2 x)
  have "3 * ((length x + 2) div 3) \<le> length x + 2" by simp
  then show ?case by (simp add: length_base64)
next
  case (3 x y ys)
  have "3 * ((length x + 2) div 3) \<le> length x + 2" by simp
  then show ?case using 3 by (simp add: length_base64)
qed simp

lemma batch_fits:
  assumes "length xs \<le> n" "sum_list (map length xs) \<le> b" "4 * b + 17 * n + 6 \<le> 3 * cap"
  shows "length (json_batch (Some xs)) \<le> cap"
  using assms length_json_items [of xs] by (simp add: json_batch_def)

lemma keep_within_ok:
  assumes "used \<le> b"
  shows "used + sum_list (map length (take (keep_within b used xs) xs)) \<le> b"
    and "keep_within b used xs \<le> length xs"
    and "keep_within b used xs < length xs
      \<Longrightarrow> b < used + sum_list (map length (take (keep_within b used xs) xs)) + length (xs ! keep_within b used xs)"
  using assms by (induction b used xs rule: keep_within.induct) auto

lemma trim_ok:
  assumes "trimByteSliceBatch items n b = Some ys"
  obtains k where "ys = take k items" "k \<le> n" "k \<le> length items" "sum_list (map length ys) \<le> b"
    "k < n \<Longrightarrow> k < length items \<Longrightarrow> b < sum_list (map length ys) + length (items ! k)"
proof -
  let ?k = "keep_within b 0 (take n items)"
  have ys: "ys = take ?k (take n items)" and k: "?k \<le> length (take n items)"
    using assms keep_within_ok(2) [of 0 b "take n items"] by (auto simp: trimByteSliceBatch_def Let_def split: if_splits)
  show ?thesis
  proof (rule that [of ?k])
    show "ys = take ?k items" "?k \<le> n" "?k \<le> length items" using ys k by (simp_all add: min_absorb1)
    show "sum_list (map length ys) \<le> b" using keep_within_ok(1) [of 0 b "take n items"] ys by simp
    show "b < sum_list (map length ys) + length (items ! ?k)" if "?k < n" "?k < length items"
      using keep_within_ok(3) [of 0 b "take n items"] ys that by simp
  qed
qed

lemma trim_Some: "items \<noteq> [] \<Longrightarrow> 0 < n \<Longrightarrow> 0 < b \<Longrightarrow> \<exists>ys. trimByteSliceBatch items n b = Some ys"
  by (simp add: trimByteSliceBatch_def)

text \<open>Every answer fits the frame of its type, so it is written whole.\<close>

lemma write_fits: "length data \<le> MaxMessageSize \<Longrightarrow> writeMessage t data = (t # BE_PutUint32 (word_of_nat (length data)) @ data, Inr ())"
  by (simp add: writeMessage_def writeLengthPrefixed_def)

lemma read_written:
  assumes "syncMessageMaxSize t = Inr cap" "length data \<le> unat cap"
  shows "readSyncMessage (fst (writeMessage t data)) = Inr ((t, data), [])"
proof -
  have "length data \<le> MaxMessageSize" using sync_caps [OF assms(1)] assms(2) by simp
  then show ?thesis using assms read_message [of syncMessageMaxSize _ t data "[]"] by (simp add: write_fits readSyncMessage_def)
qed

section \<open>Serving blocks\<close>

lemma at_height:
  assumes v: "view_inv C B L c"
  shows "getBlockByHeightLocked B c h = (if unat h < length (main_blocks B c) then Some (main_blocks B c ! unat h) else None)"
    and "length (main_blocks B c) < 2 ^ 64"
    and "main_blocks B c \<noteq> [] \<Longrightarrow> length (main_blocks B c) = Suc (unat (height c))"
proof -
  let ?R = "main_blocks B c"
  have "(getBlockByHeightLocked B c h = (if unat h < length ?R then Some (?R ! unat h) else None)) \<and> length ?R < 2 ^ 64
    \<and> (?R \<noteq> [] \<longrightarrow> length ?R = Suc (unat (height c)))"
  proof (cases "ltip L")
    case None
    then have "lheights L = Map.empty" "?R = []" using v view_main [OF v] by (auto simp: view_inv_def ledger_ok_def chain_of_def)
    then show ?thesis using view_by_height [OF v] by simp
  next
    case (Some t)
    then have ch: "chain_of C L (rev ?R)" using view_main [OF v] by auto
    then obtain tip n w where t: "ltip L = Some (tip, n, w)" "length ?R = Suc (unat n)" "main_is C L (rev ?R)" by (auto simp: chain_of_def)
    have "length ?R < 2 ^ 64" using main_nth(4) [OF view_ledger [OF v] ch, of 0] t(2) by simp
    moreover have "getBlockByHeightLocked B c h = Some (?R ! unat h)" if "unat h < length ?R"
      using main_nth(1,2) [OF view_ledger [OF v] ch that] view_by_height [OF v] by simp
    moreover have "getBlockByHeightLocked B c h = None" if "\<not> unat h < length ?R"
      using t(3) that view_by_height [OF v] by (simp add: main_is_def)
    ultimately show ?thesis using t(2) view_height [OF v t(1)] by simp
  qed
  then show "getBlockByHeightLocked B c h = (if unat h < length ?R then Some (?R ! unat h) else None)" "length ?R < 2 ^ 64"
    "?R \<noteq> [] \<Longrightarrow> length ?R = Suc (unat (height c))" by blast+
qed

lemma by_height_main:
  assumes v: "view_inv C B L c"
  shows "by_height_loop J B c n h = map (sj_marshalBlock J) (take n (drop (unat h) (main_blocks B c)))"
proof (induction n arbitrary: h)
  case (Suc n)
  let ?R = "main_blocks B c"
  show ?case
  proof (cases "unat h < length ?R")
    case True
    have "unat (h + 1) = Suc (unat h)" using True at_height(2) [OF v] by (simp add: unat_word_ariths)
    moreover have "drop (unat h) ?R = ?R ! unat h # drop (Suc (unat h)) ?R" using True by (simp add: Cons_nth_drop_Suc)
    ultimately show ?thesis using Suc True at_height(1) [OF v, of h] by simp
  qed (use at_height(1) [OF v, of h] in simp)
qed simp

text \<open>The laws of \<open>encoding/json\<close> that the requester relies on: counting and decoding an encoded batch.\<close>

definition json_ok :: "sync_json \<Rightarrow> bool" where
  "json_ok J \<longleftrightarrow> (\<forall>xs. sj_count J (json_batch (Some xs)) = Some (length xs) \<and> sj_batch J (json_batch (Some xs)) = Some xs)"

lemma read_batch:
  assumes "json_ok J" "length xs \<le> MaxBlocksPerRequest" "sum_list (map length xs) \<le> SyncBlocksResponseByteBudget"
  shows "read_blocks J (fst (writeMessage SyncMsgBlocks (json_batch (Some xs)))) = Some xs"
proof -
  have cap: "syncMessageMaxSize SyncMsgBlocks = Inr (12 * 1024 * 1024)" by (simp add: syncMessageMaxSize_def)
  have "length (json_batch (Some xs)) \<le> unat (12 * 1024 * 1024 :: u32)"
    using batch_fits [OF assms(2,3)] by (simp add: MaxBlocksPerRequest_def SyncBlocksResponseByteBudget_def)
  then show ?thesis using read_written [OF cap] assms by (simp add: read_blocks_def ensureJSONArrayMaxItems_def json_ok_def)
qed

lemma serve_bounds:
  assumes v: "view_inv C B L c" and ne: "main_blocks B c \<noteq> []" and le: "\<not> height c < start" and m: "0 < m" "m \<le> int MaxBlocksPerRequest"
  shows "nat (if height c - start + 1 < word_of_int m then sint (height c - start + 1) else m)
      = min (nat m) (length (main_blocks B c) - unat start)"
    and "unat start < length (main_blocks B c)"
proof -
  let ?R = "main_blocks B c" and ?a = "height c - start + 1"
  have R: "length ?R = Suc (unat (height c))" "length ?R < 2 ^ 64" using at_height(2,3) [OF v] ne by simp_all
  have st: "unat start \<le> unat (height c)" using le by (simp add: word_less_nat_alt)
  then have "unat (height c - start) = unat (height c) - unat start" by (simp add: unat_sub word_le_nat_alt)
  then have a: "unat ?a = length ?R - unat start" using R st by (simp add: unat_word_ariths)
  have w: "unat (word_of_int m :: u64) = nat m"
    using m by (simp add: MaxBlocksPerRequest_def unat_eq_nat_uint uint_word_of_int)
  show "nat (if ?a < word_of_int m then sint ?a else m) = min (nat m) (length ?R - unat start)"
  proof (cases "?a < word_of_int m")
    case True
    then have "unat ?a < nat m" using w by (simp add: word_less_nat_alt)
    moreover from this have "sint ?a = int (unat ?a)" using m by (intro sint_small) (simp add: MaxBlocksPerRequest_def)
    ultimately show ?thesis using True a by simp
  next
    case False
    then have "nat m \<le> unat ?a" using w by (simp add: word_less_nat_alt)
    then show ?thesis using False a by simp
  qed
  show "unat start < length ?R" using st R by simp
qed

text \<open>C39. Serving blocks.  Whatever a peer asks for by height, the requester decodes from the answer of a node a contiguous
  piece of the node's main chain that starts at the requested height, holds at most the requested number and at most 100
  blocks and 8 MiB of encoded blocks, and is as long as these limits allow.  So the answer never exceeds the frame or the
  item limit that the requester enforces.\<close>

theorem sync_serves_main_chain:
  assumes "sha3_32 C" "bolt_ok B" "daemon_run strict C P B unmarshal d" "main_blocks B (dm_chain d) \<noteq> []" "json_ok J"
    and "sj_byHeightRequest J data = Some req"
  shows "\<exists>seg. read_blocks J (handleGetBlocksByHeight J B data d) = Some (map (sj_marshalBlock J) seg)
    \<and> seg = take (length seg) (drop (unat (br_StartHeight req)) (main_blocks B (dm_chain d)))
    \<and> length seg \<le> MaxBlocksPerRequest \<and> length seg \<le> nat (br_MaxBlocks req)
    \<and> sum_list (map (length \<circ> sj_marshalBlock J) seg) \<le> SyncBlocksResponseByteBudget
    \<and> (length seg < min MaxBlocksPerRequest (nat (br_MaxBlocks req))
        \<and> unat (br_StartHeight req) + length seg < length (main_blocks B (dm_chain d))
        \<longrightarrow> SyncBlocksResponseByteBudget < sum_list (map (length \<circ> sj_marshalBlock J) seg)
             + length (sj_marshalBlock J (main_blocks B (dm_chain d) ! (unat (br_StartHeight req) + length seg))))"
proof -
  obtain L where v: "view_inv C B L (dm_chain d)" using run_inv [OF assms(1-3)] by (auto simp: daemon_inv_def)
  let ?R = "main_blocks B (dm_chain d)" and ?s = "unat (br_StartHeight req)" and ?f = "sj_marshalBlock J"
  have none: ?thesis if "br_MaxBlocks req \<le> 0 \<or> height (dm_chain d) < br_StartHeight req"
  proof -
    have "handleGetBlocksByHeight J B data d = fst (writeMessage SyncMsgBlocks (json_batch (Some [])))"
      using that assms(6) by (auto simp: handleGetBlocksByHeight_def Let_def)
    then have "read_blocks J (handleGetBlocksByHeight J B data d) = Some []" using read_batch [OF assms(5), of "[]"] by simp
    moreover have "length ?R \<le> ?s" if "height (dm_chain d) < br_StartHeight req"
      using that at_height(3) [OF v assms(4)] by (simp add: word_less_nat_alt)
    ultimately show ?thesis using that by (intro exI [of _ "[]"]) auto
  qed
  show ?thesis
  proof (cases "br_MaxBlocks req \<le> 0 \<or> height (dm_chain d) < br_StartHeight req")
    case False
    define m where "m = min (br_MaxBlocks req) (int MaxBlocksPerRequest)"
    define n where "n = min (nat m) (length ?R - ?s)"
    have m: "0 < m" "m \<le> int MaxBlocksPerRequest" using False by (auto simp: m_def MaxBlocksPerRequest_def)
    note b = serve_bounds [OF v assms(4) _ m, of "br_StartHeight req"]
    have s: "?s < length ?R" using b(2) False by simp
    define found where "found = map ?f (take n (drop ?s ?R))"
    have "found \<noteq> []" using s m by (simp add: found_def n_def)
    then obtain ys where ys: "trimByteSliceBatch found MaxBlocksPerRequest SyncBlocksResponseByteBudget = Some ys"
      using trim_Some by (fastforce simp: MaxBlocksPerRequest_def SyncBlocksResponseByteBudget_def)
    have "getBlocksByHeight J B (br_StartHeight req)
        (if height (dm_chain d) - br_StartHeight req + 1 < word_of_int m then sint (height (dm_chain d) - br_StartHeight req + 1) else m) d = found"
      unfolding getBlocksByHeight_def by_height_main [OF v] found_def n_def using b(1) False by simp
    then have h: "handleGetBlocksByHeight J B data d = fst (writeMessage SyncMsgBlocks (json_batch (Some ys)))"
      using False assms(6) ys by (auto simp: handleGetBlocksByHeight_def Let_def m_def [symmetric] split: if_splits)
    obtain k where k: "ys = take k found" "k \<le> MaxBlocksPerRequest" "k \<le> length found" "sum_list (map length ys) \<le> SyncBlocksResponseByteBudget"
      "k < MaxBlocksPerRequest \<Longrightarrow> k < length found \<Longrightarrow> SyncBlocksResponseByteBudget < sum_list (map length ys) + length (found ! k)"
      using trim_ok [OF ys] by blast
    define seg where "seg = take k (drop ?s ?R)"
    have fl: "length found = n" by (simp add: found_def n_def)
    have seg: "ys = map ?f seg" "length seg = k" using k(1,3) fl by (simp_all add: seg_def found_def take_map min_absorb1 n_def)
    have "read_blocks J (handleGetBlocksByHeight J B data d) = Some ys" using h read_batch [OF assms(5), of ys] k(1,2,4) by simp
    moreover have "length seg \<le> nat (br_MaxBlocks req)" using seg(2) k(3) fl unfolding n_def m_def by linarith
    moreover have "found ! k = ?f (?R ! (?s + k))" if "k < n" using that s by (simp add: found_def n_def)
    moreover have "k < n" if "k < min MaxBlocksPerRequest (nat (br_MaxBlocks req))" "?s + k < length ?R" using that unfolding n_def m_def by linarith
    moreover have "sum_list (map (length \<circ> ?f) seg) = sum_list (map length ys)" using seg(1) by simp
    moreover have "seg = take (length seg) (drop ?s ?R)" using seg(2) by (simp add: seg_def)
    ultimately show ?thesis using k(2-5) seg fl by (intro exI [of _ seg]) auto
  qed (use none in blast)
qed

section \<open>Ranges\<close>

text \<open>The distributor cuts the heights up to the target into consecutive ranges of at most 100.\<close>

lemma next_work_ok:
  assumes "next_work currentHeight targetHeight = (work, following)" "currentHeight \<le> targetHeight" "unat targetHeight + 100 < 2 ^ 64"
  shows "sw_Start work = currentHeight" "unat (sw_End work) = min (unat currentHeight + 99) (unat targetHeight)"
    "unat following = Suc (unat (sw_End work))"
proof -
  have le: "unat currentHeight \<le> unat targetHeight" using assms(2) by (simp add: word_le_nat_alt)
  have u: "unat (currentHeight + 100 - 1) = unat currentHeight + 99"
  proof -
    have "currentHeight + 100 - 1 = currentHeight + 99" by simp
    then show ?thesis using le assms(3) by (simp add: unat_word_ariths)
  qed
  have d: "unat (targetHeight - currentHeight) = unat targetHeight - unat currentHeight" using assms(2) by (simp add: unat_sub)
  define n where "n = (if unat targetHeight < unat currentHeight + 99 then unat targetHeight - unat currentHeight + 1 else 100)"
  define b :: u64 where "b = (if targetHeight < currentHeight + 100 - 1 then targetHeight - currentHeight + 1 else 100)"
  have b: "unat b = n" using le assms(3) d u unfolding b_def n_def by (auto simp: word_less_nat_alt unat_word_ariths)
  have w: "work = \<lparr>sw_Start = currentHeight, sw_End = currentHeight + b - 1\<rparr>" "following = currentHeight + b"
    using assms(1) by (auto simp: next_work_def Let_def MaxBlocksPerRequest_def b_def split: if_splits)
  have n: "1 \<le> n" "n \<le> 100" "unat currentHeight + n = Suc (min (unat currentHeight + 99) (unat targetHeight))"
    using le by (auto simp: n_def)
  have f: "unat (currentHeight + b) = unat currentHeight + n" using b n le assms(3) by (simp add: unat_word_ariths)
  moreover have "unat (currentHeight + b - 1) = unat currentHeight + n - 1"
    using f n(1) by (simp add: unat_sub word_le_nat_alt)
  ultimately show "sw_Start work = currentHeight" "unat (sw_End work) = min (unat currentHeight + 99) (unat targetHeight)"
    "unat following = Suc (unat (sw_End work))" using w n by simp_all
qed

section \<open>A decoder of batches\<close>

lemma b64_alphabet:
  "go_string ''ABCDEFGHIJKLMNOPQRSTUVWXYZabcdefghijklmnopqrstuvwxyz0123456789+/'' =
     [65, 66, 67, 68, 69, 70, 71, 72, 73, 74, 75, 76, 77, 78, 79, 80, 81, 82, 83, 84, 85, 86, 87, 88, 89, 90,
      97, 98, 99, 100, 101, 102, 103, 104, 105, 106, 107, 108, 109, 110, 111, 112, 113, 114, 115, 116, 117, 118, 119, 120, 121, 122,
      48, 49, 50, 51, 52, 53, 54, 55, 56, 57, 43, 47]"
  by (simp add: go_string_def)

definition b64_alpha :: bytes where
  "b64_alpha = go_string ''ABCDEFGHIJKLMNOPQRSTUVWXYZabcdefghijklmnopqrstuvwxyz0123456789+/''"

lemma b64_alpha_ok: "distinct b64_alpha" "length b64_alpha = 64" "34 \<notin> set b64_alpha" "61 \<notin> set b64_alpha"
  unfolding b64_alpha_def b64_alphabet by simp_all

definition b64_value :: "byte \<Rightarrow> nat" where
  "b64_value c = length (takeWhile (\<lambda>x. x \<noteq> c) b64_alpha)"

lemma find_nth: "distinct xs \<Longrightarrow> n < length xs \<Longrightarrow> length (takeWhile (\<lambda>x. x \<noteq> xs ! n) xs) = n"
proof (induction xs arbitrary: n)
  case (Cons x xs)
  then show ?case by (cases n) auto
qed simp

lemma b64_char_ok:
  assumes "n < 64"
  shows "b64_value (b64_char n) = n" "b64_char n \<noteq> 34" "b64_char n \<noteq> 61"
proof -
  have c: "b64_char n = b64_alpha ! n" by (simp add: b64_char_def b64_alpha_def)
  show "b64_value (b64_char n) = n" unfolding b64_value_def c using find_nth [OF b64_alpha_ok(1)] assms b64_alpha_ok(2) by simp
  have "b64_char n \<in> set b64_alpha" unfolding c using assms b64_alpha_ok(2) by simp
  then show "b64_char n \<noteq> 34" "b64_char n \<noteq> 61" using b64_alpha_ok(3,4) by auto
qed

fun unbase64 :: "bytes \<Rightarrow> bytes" where
  "unbase64 (w # x # y # z # rest) =
     (if z = 61
      then (if y = 61 then [word_of_nat (b64_value w * 4 + b64_value x div 16)]
            else [word_of_nat (b64_value w * 4 + b64_value x div 16), word_of_nat (b64_value x mod 16 * 16 + b64_value y div 4)])
      else word_of_nat (b64_value w * 4 + b64_value x div 16) # word_of_nat (b64_value x mod 16 * 16 + b64_value y div 4)
        # word_of_nat (b64_value y mod 4 * 64 + b64_value z) # unbase64 rest)"
| "unbase64 _ = []"

lemma byte_parts: "unat a < 256" "unat a div 4 < 64" "unat a mod 4 * 16 + unat b div 16 < 64" "unat a mod 4 * 16 < 64"
  "unat a mod 16 * 4 + unat b div 64 < 64" "unat a mod 16 * 4 < 64" "unat a mod 64 < 64" for a b :: byte
  using unat_bound [of a] unat_bound [of b] by simp_all

lemma unbase64_base64: "unbase64 (base64 bs) = bs"
proof (induction bs rule: base64.induct)
  case (2 a)
  have "unat a div 4 * 4 + unat a mod 4 * 16 div 16 = unat a" by simp
  then show ?case using b64_char_ok byte_parts(2,4) [of a] by simp
next
  case (3 a b)
  have "unat a div 4 * 4 + (unat a mod 4 * 16 + unat b div 16) div 16 = unat a"
    "(unat a mod 4 * 16 + unat b div 16) mod 16 * 16 + unat b mod 16 * 4 div 4 = unat b"
    using byte_parts(1) [of b] by simp_all
  then show ?case using b64_char_ok byte_parts(2) [of a] byte_parts(3) [of a b] byte_parts(6) [of b] by simp
next
  case (4 a b c rest)
  have "unat a div 4 * 4 + (unat a mod 4 * 16 + unat b div 16) div 16 = unat a"
    "(unat a mod 4 * 16 + unat b div 16) mod 16 * 16 + (unat b mod 16 * 4 + unat c div 64) div 4 = unat b"
    "(unat b mod 16 * 4 + unat c div 64) mod 4 * 64 + unat c mod 64 = unat c"
    using byte_parts(1) [of b] byte_parts(1) [of c] by simp_all
  then show ?case using 4 b64_char_ok byte_parts(2) [of a] byte_parts(3) [of a b] byte_parts(5) [of b c] byte_parts(7) [of c] by simp
qed simp

lemma base64_chars: "34 \<notin> set (base64 bs)"
  by (induction bs rule: base64.induct) (use b64_char_ok(2) byte_parts in \<open>auto simp: eq_commute [of 34]\<close>)

fun parse_items :: "nat \<Rightarrow> bytes \<Rightarrow> bytes list" where
  "parse_items (Suc n) (b # bs) =
     (if b \<noteq> 34 then []
      else let item = unbase64 (takeWhile (\<lambda>c. c \<noteq> 34) bs); rest = drop 1 (dropWhile (\<lambda>c. c \<noteq> 34) bs)
           in item # (if rest \<noteq> [] \<and> hd rest = 44 then parse_items n (tl rest) else []))"
| "parse_items _ _ = []"

lemma quoted:
  "takeWhile (\<lambda>c. c \<noteq> 34) (base64 x @ 34 # r) = base64 x" "dropWhile (\<lambda>c. c \<noteq> 34) (base64 x @ 34 # r) = 34 # r"
  using base64_chars [of x] by (auto simp: takeWhile_append dropWhile_append)

lemma parse_items_ok: "length xs \<le> n \<Longrightarrow> parse_items n (json_items xs @ [93]) = xs"
proof (induction xs arbitrary: n rule: json_items.induct)
  case 1
  then show ?case by (cases n) simp_all
next
  case (2 x)
  then obtain m where "n = Suc m" by (cases n) auto
  then show ?case by (simp add: quoted unbase64_base64)
next
  case (3 x y ys)
  then obtain m where m: "n = Suc m" by (cases n) auto
  have "parse_items m (json_items (y # ys) @ [93]) = y # ys" using 3 m by simp
  then show ?case by (simp add: m quoted unbase64_base64 del: json_items.simps(2,3) add: json_items.simps(3) [of x y ys])
qed

definition sample_json :: sync_json where
  "sample_json = \<lparr>sj_status = (\<lambda>_. None), sj_headersRequest = (\<lambda>_. None), sj_blocksRequest = (\<lambda>_. None),
     sj_byHeightRequest = (\<lambda>_. Some \<lparr>br_StartHeight = 0, br_MaxBlocks = 7\<rparr>), sj_block = (\<lambda>_. None), sj_marshalStatus = (\<lambda>_. []),
     sj_marshalHeader = (\<lambda>_. []), sj_marshalBlock = (\<lambda>b. [word_of_nat (length (Transactions b))]), sj_null = (\<lambda>_. False),
     sj_count = (\<lambda>data. Some (length (parse_items (length data) (tl data)))), sj_batch = (\<lambda>data. Some (parse_items (length data) (tl data)))\<rparr>"

lemma items_longer: "length xs \<le> length (json_items xs)"
  by (induction xs rule: json_items.induct) simp_all

lemma sample_json_ok: "json_ok sample_json"
proof -
  have "parse_items (length (json_batch (Some xs))) (tl (json_batch (Some xs))) = xs" for xs
    using parse_items_ok [of xs] items_longer [of xs] by (simp add: json_batch_def)
  then show ?thesis by (simp add: json_ok_def sample_json_def)
qed

theorem sync_serves_main_chain_witness:
  "json_ok sample_json \<and> main_blocks list_bolt (dm_chain sample_daemon) = [sample_genesis]
   \<and> (\<exists>seg. read_blocks sample_json (handleGetBlocksByHeight sample_json list_bolt [] sample_daemon)
          = Some (map (sj_marshalBlock sample_json) seg) \<and> seg = take (length seg) [sample_genesis])"
proof -
  have m: "main_blocks list_bolt (dm_chain sample_daemon) = [sample_genesis]" using sample_main by (simp add: sample_daemon_def)
  then have ne: "main_blocks list_bolt (dm_chain sample_daemon) \<noteq> []" by simp
  have r: "sj_byHeightRequest sample_json [] = Some \<lparr>br_StartHeight = 0, br_MaxBlocks = 7\<rparr>" by (simp add: sample_json_def)
  from sync_serves_main_chain [OF sample_ok sample_daemon_run ne sample_json_ok r] obtain seg where
    "read_blocks sample_json (handleGetBlocksByHeight sample_json list_bolt [] sample_daemon) = Some (map (sj_marshalBlock sample_json) seg)"
    "seg = take (length seg) (drop 0 (main_blocks list_bolt (dm_chain sample_daemon)))" by auto
  then show ?thesis using sample_json_ok m by auto
qed

end
