(* ===== verification/SyncRecovery.thy ===== *)
theory SyncRecovery
  imports SyncProps
begin

text \<open>
  Recovery of a block whose parents are missing, against the contract of the component that processes blocks: it keeps its
  invariant, forgets no block, and has stored a block whose processing succeeds or finds it known already.  The daemon of
  \<open>Daemon\<close> meets the contract.
\<close>

section \<open>The contract of the block processor\<close>

definition processed :: "('e, 's) sync_cfg \<Rightarrow> 'e + unit \<Rightarrow> bool" where
  "processed cfg r \<longleftrightarrow> (case r of Inr _ \<Rightarrow> True | Inl e \<Rightarrow> sy_isDuplicateErr cfg e)"

locale block_sink =
  fixes cfg :: "('e, 's) sync_cfg" and inv :: "'s \<Rightarrow> bool" and known :: "'s \<Rightarrow> hash \<Rightarrow> bool" and bad :: "bytes \<Rightarrow> bool"
  assumes process_returns: "inv s \<Longrightarrow> \<not> bad data \<Longrightarrow> sy_processBlock cfg data s \<noteq> None"
    and process_keeps: "inv s \<Longrightarrow> sy_processBlock cfg data s = Some (r, s') \<Longrightarrow> inv s'"
    and process_mono: "inv s \<Longrightarrow> sy_processBlock cfg data s = Some (r, s') \<Longrightarrow> known s h \<Longrightarrow> known s' h"
    and process_stores: "inv s \<Longrightarrow> sy_processBlock cfg data s = Some (r, s') \<Longrightarrow> processed cfg r
      \<Longrightarrow> \<exists>h. sy_getBlockHash cfg data = Some h \<and> known s' h"

text \<open>The peers that have answered a request with something, and the answers that the processor can take.\<close>

definition answered :: "(nat \<Rightarrow> net_answer) \<Rightarrow> peer \<Rightarrow> bool" where
  "answered net p \<longleftrightarrow> (\<exists>i. na_blocks (net i) p \<noteq> None)"

definition all_good :: "(bytes \<Rightarrow> bool) \<Rightarrow> (nat \<Rightarrow> net_answer) \<Rightarrow> bool" where
  "all_good bad net \<longleftrightarrow> (\<forall>i p found. na_blocks (net i) p = Some found \<longrightarrow> found = [] \<or> \<not> bad (hd found))"

section \<open>Requests\<close>

lemma request_bans: "BanPeer_call q \<in> set (fst (request_block cfg ans h p)) \<Longrightarrow> q = p \<and> na_blocks ans p \<noteq> None"
  by (auto simp: request_block_def banInvalidBlockPeer_def split: option.splits if_splits)

lemma first_block_Some:
  "first_block cfg ans h ps = Some (data, p) \<Longrightarrow>
     p \<in> set ps \<and> sy_getBlockHash cfg data = Some h \<and> (\<exists>found. na_blocks ans p = Some found \<and> found \<noteq> [] \<and> hd found = data)"
  by (induction cfg ans h ps rule: first_block.induct) (auto simp: request_block_def split: option.splits if_splits)

lemma fetch_ok:
  assumes "fetchBlockByHashFromAnyPeer cfg ans peers h exclude = (es, r)"
  shows "\<And>q. BanPeer_call q \<in> set es \<Longrightarrow> q \<in> set peers \<and> na_blocks ans q \<noteq> None"
    and "r = Some (data, p) \<Longrightarrow> p \<in> set peers \<and> p \<notin> set exclude \<and> sy_getBlockHash cfg data = Some h
      \<and> (\<exists>found. na_blocks ans p = Some found \<and> found \<noteq> [] \<and> hd found = data)"
proof -
  let ?fin = "filter (\<lambda>p. p \<in> set peers \<and> p \<notin> set exclude) (na_order ans)"
  show "\<And>q. BanPeer_call q \<in> set es \<Longrightarrow> q \<in> set peers \<and> na_blocks ans q \<noteq> None"
    using assms by (auto simp: fetchBlockByHashFromAnyPeer_def Let_def split: if_splits dest: request_bans)
  assume "r = Some (data, p)"
  then have "first_block cfg ans h (take (na_seen ans) ?fin) = Some (data, p)"
    using assms by (auto simp: fetchBlockByHashFromAnyPeer_def Let_def split: if_splits)
  from first_block_Some [OF this] in_set_takeD [of p "na_seen ans" ?fin]
  show "p \<in> set peers \<and> p \<notin> set exclude \<and> sy_getBlockHash cfg data = Some h
      \<and> (\<exists>found. na_blocks ans p = Some found \<and> found \<noteq> [] \<and> hd found = data)" by auto
qed

section \<open>Recovery\<close>

context block_sink
begin

definition grows :: "'s \<Rightarrow> 's \<Rightarrow> bool" where
  "grows s s' \<longleftrightarrow> inv s' \<and> (\<forall>h. known s h \<longrightarrow> known s' h)"

definition stored :: "'s \<Rightarrow> bytes \<Rightarrow> bool" where
  "stored s data \<longleftrightarrow> (\<exists>h. sy_getBlockHash cfg data = Some h \<and> known s h)"

lemma growsI: "inv s \<Longrightarrow> sy_processBlock cfg data s = Some (r, s') \<Longrightarrow> grows s s'"
  using process_keeps process_mono by (auto simp: grows_def)

lemma grows_trans: "grows s s' \<Longrightarrow> grows s' s'' \<Longrightarrow> grows s s''"
  by (auto simp: grows_def)

lemma grows_refl: "inv s \<Longrightarrow> grows s s"
  by (simp add: grows_def)

lemma grows_stored: "grows s s' \<Longrightarrow> stored s data \<Longrightarrow> stored s' data"
  by (auto simp: grows_def stored_def)

lemma process_stored: "inv s \<Longrightarrow> sy_processBlock cfg data s = Some (r, s') \<Longrightarrow> processed cfg r \<Longrightarrow> stored s' data"
  using process_stores by (auto simp: stored_def)

lemma try_parent_ok:
  assumes "inv s" "try_parent cfg net peers h ch n invalid err k s = Some (out, es, k', s')"
  shows "grows s s' \<and> k' \<le> k + n \<and> (\<forall>q. BanPeer_call q \<in> set es \<longrightarrow> q \<in> set peers \<and> answered net q)
    \<and> (out = ParentConnected \<longrightarrow> known s' h) \<and> (\<forall>data. out = ParentIsOrphan data \<longrightarrow> sy_getBlockHash cfg data = Some h)"
  using assms
proof (induction n arbitrary: invalid err k s es k' s')
  case 0
  then show ?case by (auto simp: grows_refl split: option.splits)
next
  case (Suc n)
  obtain fs r where f: "fetchBlockByHashFromAnyPeer cfg (net k) peers h invalid = (fs, r)" by fastforce
  have bans: "q \<in> set peers \<and> answered net q" if "BanPeer_call q \<in> set fs" for q
    using fetch_ok(1) [OF f that] by (auto simp: answered_def)
  show ?case
  proof (cases r)
    case None
    then show ?thesis using Suc.prems f bans by (auto simp: grows_refl split: option.splits)
  next
    case (Some x)
    obtain data p where x: "x = (data, p)" by fastforce
    have d: "p \<in> set peers" "sy_getBlockHash cfg data = Some h" "answered net p"
      using fetch_ok(2) [OF f, of data p] Some x by (auto simp: answered_def)
    obtain r1 s1 where p1: "sy_processBlock cfg data s = Some (r1, s1)"
      using Suc.prems(2) f Some x by (auto split: option.splits)
    note g = growsI [OF Suc.prems(1) p1]
    have st: "known s1 h" if "processed cfg r1"
      using process_stores [OF Suc.prems(1) p1 that] d(2) by auto
    show ?thesis
    proof (cases "processed cfg r1 \<or> (\<exists>e. r1 = Inl e \<and> sy_isOrphanErr cfg e)")
      case True
      then show ?thesis using Suc.prems(2) f Some x p1 g st bans d by (auto simp: processed_def split: sum.splits if_splits)
    next
      case False
      then obtain e where e: "r1 = Inl e" "\<not> sy_isDuplicateErr cfg e" "\<not> sy_isOrphanErr cfg e" by (auto simp: processed_def split: sum.splits)
      then obtain es1 where rec: "try_parent cfg net peers h ch n (p # invalid) (Some e) (Suc k) s1 = Some (out, es1, k', s')"
        and es: "es = fs @ banInvalidBlockPeer p @ es1"
        using Suc.prems(2) f Some x p1 by (auto split: option.splits)
      have "inv s1" using g by (simp add: grows_def)
      from Suc.IH [OF this rec] show ?thesis
        using grows_trans [OF g] bans d es by (auto simp: banInvalidBlockPeer_def split: if_splits)
    qed
  qed
qed

lemma replay_ok:
  assumes "inv s" "replay cfg pending s = Some (r, s')"
  shows "grows s s' \<and> (r = Inr () \<longrightarrow> (\<forall>data \<in> set pending. stored s' data))"
  using assms
proof (induction pending arbitrary: s)
  case Nil
  then show ?case by (simp add: grows_refl)
next
  case (Cons data pending)
  obtain r1 s1 where p1: "sy_processBlock cfg data s = Some (r1, s1)" using Cons.prems(2) by (auto split: option.splits)
  note g = growsI [OF Cons.prems(1) p1]
  show ?case
  proof (cases "processed cfg r1")
    case True
    then have rec: "replay cfg pending s1 = Some (r, s')" using Cons.prems(2) p1 by (auto simp: processed_def split: sum.splits if_splits)
    have "inv s1" using g by (simp add: grows_def)
    note ih = Cons.IH [OF this rec]
    then have "stored s' data" using process_stored [OF Cons.prems(1) p1 True] grows_stored by blast
    then show ?thesis using ih grows_trans [OF g] by auto
  next
    case False
    then show ?thesis using Cons.prems(2) p1 g by (auto simp: processed_def split: sum.splits if_splits)
  qed
qed

lemma recover_loop_ok:
  assumes "inv s" "recover_loop cfg net peers n depth pending current seen k s = Some (r, es, k', s')"
  shows "grows s s' \<and> k' \<le> k + n * length peers \<and> (\<forall>q. BanPeer_call q \<in> set es \<longrightarrow> q \<in> set peers \<and> answered net q)
    \<and> (r = Inr () \<longrightarrow> (\<forall>data \<in> set pending. stored s' data))"
  using assms
proof (induction n arbitrary: depth pending current seen k s es)
  case 0
  then show ?case by (auto simp: grows_refl)
next
  case (Suc n)
  show ?case
  proof (cases "na_expired (net k) \<or> sy_getBlockMeta cfg current = None
      \<or> (\<exists>ch h. sy_getBlockMeta cfg current = Some (ch, h) \<and> (ch = 0 \<or> h \<in> set seen))")
    case True
    then show ?thesis using Suc.prems by (auto simp: grows_refl split: if_splits option.splits)
  next
    case False
    then obtain ch h where m: "sy_getBlockMeta cfg current = Some (ch, h)" "ch \<noteq> 0" "h \<notin> set seen" "\<not> na_expired (net k)"
      by (cases "sy_getBlockMeta cfg current") auto
    obtain out es1 k1 s1 where t: "try_parent cfg net peers h ch (length peers) [] None k s = Some (out, es1, k1, s1)"
      using Suc.prems(2) m by (auto split: option.splits)
    note tp = try_parent_ok [OF Suc.prems(1) t]
    have inv1: "inv s1" using tp by (simp add: grows_def)
    show ?thesis
    proof (cases out)
      case (ParentFails e)
      then show ?thesis using Suc.prems(2) m t tp by auto
    next
      case (ParentIsOrphan data)
      then obtain es2 where rec: "recover_loop cfg net peers n (Suc depth) (data # pending) data (h # seen) k1 s1 = Some (r, es2, k', s')"
        and es: "es = es1 @ es2" using Suc.prems(2) m t by (auto split: option.splits)
      from Suc.IH [OF inv1 rec] show ?thesis using tp es grows_trans by auto
    next
      case ParentConnected
      then obtain r1 where rp: "replay cfg pending s1 = Some (r1, s')" "r = r1" "es = es1" "k' = k1"
        using Suc.prems(2) m t by (auto split: option.splits)
      from replay_ok [OF inv1 rp(1)] show ?thesis using tp rp(2-4) grows_trans by auto
    qed
  qed
qed

lemma recovery_ok:
  assumes "inv s" "ProcessBlockWithRecoveryCtx cfg net data peers k s = Some (r, es, k', s')"
  shows "grows s s' \<and> k' \<le> k + maxRecoveryDepth * length peers
    \<and> (\<forall>q. BanPeer_call q \<in> set es \<longrightarrow> q \<in> set peers \<and> answered net q) \<and> (r \<in> range Inr \<longrightarrow> stored s' data)"
proof -
  obtain r1 s1 where p1: "sy_processBlock cfg data s = Some (r1, s1)"
    using assms(2) by (auto simp: ProcessBlockWithRecoveryCtx_def split: option.splits)
  note g = growsI [OF assms(1) p1]
  show ?thesis
  proof (cases "processed cfg r1 \<or> (\<exists>e. r1 = Inl e \<and> \<not> sy_isOrphanErr cfg e)")
    case True
    then show ?thesis using assms(2) p1 g process_stored [OF assms(1) p1]
      by (auto simp: ProcessBlockWithRecoveryCtx_def processed_def split: sum.splits if_splits)
  next
    case False
    then obtain e where e: "r1 = Inl e" "\<not> sy_isDuplicateErr cfg e" "sy_isOrphanErr cfg e" by (auto simp: processed_def split: sum.splits)
    then obtain r2 where rc: "recoverOrphanChain cfg net data peers k s1 = Some (r2, es, k', s')" "\<forall>b. r = Inr b \<longrightarrow> r2 = Inr ()"
      using assms(2) p1 by (auto simp: ProcessBlockWithRecoveryCtx_def split: option.splits sum.splits)
    have inv1: "inv s1" using g by (simp add: grows_def)
    show ?thesis
    proof (cases "peers = []")
      case True
      then show ?thesis using rc g by (auto simp: recoverOrphanChain_def)
    next
      case False
      then have "recover_loop cfg net peers maxRecoveryDepth 0 [data] data [] k s1 = Some (r2, es, k', s')"
        using rc by (simp add: recoverOrphanChain_def)
      from recover_loop_ok [OF inv1 this] show ?thesis using rc(2) grows_trans [OF g] by auto
    qed
  qed
qed

lemma fetched_good:
  assumes "all_good bad net" "fetchBlockByHashFromAnyPeer cfg (net k) peers h exclude = (es, Some (data, p))"
  shows "\<not> bad data"
  using fetch_ok(2) [OF assms(2) refl] assms(1) by (auto simp: all_good_def)

lemma try_parent_returns:
  assumes "all_good bad net" "inv s"
  shows "try_parent cfg net peers h ch n invalid err k s \<noteq> None
    \<and> (\<forall>data es k' s'. try_parent cfg net peers h ch n invalid err k s = Some (ParentIsOrphan data, es, k', s') \<longrightarrow> \<not> bad data)"
  using assms(2)
proof (induction n arbitrary: invalid err k s)
  case (Suc n)
  obtain fs r where f: "fetchBlockByHashFromAnyPeer cfg (net k) peers h invalid = (fs, r)" by fastforce
  show ?case
  proof (cases r)
    case None
    then show ?thesis using f by (simp split: option.splits)
  next
    case (Some x)
    obtain data p where x: "x = (data, p)" by fastforce
    have good: "\<not> bad data" using fetched_good [OF assms(1)] f Some x by blast
    then obtain r1 s1 where p1: "sy_processBlock cfg data s = Some (r1, s1)" using process_returns [OF Suc.prems] by fastforce
    have inv1: "inv s1" using process_keeps [OF Suc.prems p1] .
    show ?thesis
    proof (cases r1)
      case (Inl e)
      then show ?thesis using Suc.IH [OF inv1, of "p # invalid" "Some e" "Suc k"] f Some x p1 good by (auto split: option.splits)
    qed (use f Some x p1 in auto)
  qed
qed (simp split: option.splits)

lemma replay_returns: "inv s \<Longrightarrow> \<forall>data \<in> set pending. \<not> bad data \<Longrightarrow> replay cfg pending s \<noteq> None"
proof (induction pending arbitrary: s)
  case (Cons data pending)
  obtain r1 s1 where p1: "sy_processBlock cfg data s = Some (r1, s1)" using process_returns [OF Cons.prems(1), of data] Cons.prems(2) by fastforce
  have "inv s1" using process_keeps [OF Cons.prems(1) p1] .
  then show ?case using Cons.IH [of s1] Cons.prems(2) p1 by (cases r1) auto
qed simp

lemma recover_loop_returns:
  assumes "all_good bad net" "inv s" "\<forall>data \<in> set pending. \<not> bad data"
  shows "recover_loop cfg net peers n depth pending current seen k s \<noteq> None"
  using assms(2,3)
proof (induction n arbitrary: depth pending current seen k s)
  case (Suc n)
  show ?case
  proof (cases "sy_getBlockMeta cfg current")
    case (Some m)
    obtain ch h where m: "m = (ch, h)" by fastforce
    obtain out es1 k1 s1 where t: "try_parent cfg net peers h ch (length peers) [] None k s = Some (out, es1, k1, s1)"
      using try_parent_returns [OF assms(1) Suc.prems(1), of peers h ch "length peers" "[]" None k] by fastforce
    have inv1: "inv s1" using try_parent_ok [OF Suc.prems(1) t] by (simp add: grows_def)
    show ?thesis
    proof (cases out)
      case (ParentFails e)
      then show ?thesis using Some m t by simp
    next
      case (ParentIsOrphan data)
      then have "\<not> bad data"
        using try_parent_returns [OF assms(1) Suc.prems(1), of peers h ch "length peers" "[]" None k] t by blast
      then have "recover_loop cfg net peers n (Suc depth) (data # pending) data (h # seen) k1 s1 \<noteq> None"
        using Suc.IH [OF inv1] Suc.prems(2) by simp
      then show ?thesis using Some m t ParentIsOrphan by (auto split: option.splits)
    next
      case ParentConnected
      then show ?thesis using Some m t replay_returns [OF inv1 Suc.prems(2)] by (auto split: option.splits)
    qed
  qed simp
qed simp

lemma recovery_returns:
  assumes "all_good bad net" "inv s" "\<not> bad data"
  shows "ProcessBlockWithRecoveryCtx cfg net data peers k s \<noteq> None"
proof -
  obtain r1 s1 where p1: "sy_processBlock cfg data s = Some (r1, s1)" using process_returns [OF assms(2,3)] by fastforce
  have "inv s1" using process_keeps [OF assms(2) p1] .
  then have "recoverOrphanChain cfg net data peers k s1 \<noteq> None"
    using recover_loop_returns [OF assms(1), of s1 "[data]"] assms(3) by (simp add: recoverOrphanChain_def)
  then show ?thesis using p1 by (auto simp: ProcessBlockWithRecoveryCtx_def split: sum.splits option.splits)
qed

end

section \<open>The daemon meets the contract\<close>

text \<open>In the states that \<open>d\<close> leads to, writing a side block to the database does not fail.\<close>

definition writable :: "crypto \<Rightarrow> net_params \<Rightarrow> 'b bolt \<Rightarrow> (bytes \<Rightarrow> JBlock option) \<Rightarrow> (nat \<Rightarrow> daemon_env) \<Rightarrow> 'b daemon \<Rightarrow> bool" where
  "writable C P B unmarshal env d \<longleftrightarrow>
     (\<forall>i data d'. daemon_run False C P B unmarshal d' \<longrightarrow> stores_more B d d' \<longrightarrow> allowed_data False C P B unmarshal (env i) data d')"

definition sink_inv :: "crypto \<Rightarrow> net_params \<Rightarrow> 'b bolt \<Rightarrow> (bytes \<Rightarrow> JBlock option) \<Rightarrow> (nat \<Rightarrow> daemon_env) \<Rightarrow> 'b daemon \<Rightarrow> nat \<times> 'b daemon
    \<Rightarrow> bool" where
  "sink_inv C P B unmarshal env d s \<longleftrightarrow> sha3_32 C \<and> bolt_ok B \<and> writable C P B unmarshal env d
     \<and> daemon_run False C P B unmarshal (snd s) \<and> stores_more B d (snd s)"

definition sink_known :: "'b bolt \<Rightarrow> nat \<times> 'b daemon \<Rightarrow> hash \<Rightarrow> bool" where
  "sink_known B s h \<longleftrightarrow> chain_HasBlock B (dm_chain (snd s)) h"

lemma callback_ok:
  assumes "sink_inv C P B unmarshal env d0 s"
  shows "case sy_processBlock (daemon_sync C P B unmarshal env) data s of None \<Rightarrow> nil_block unmarshal data
    | Some (r, s') \<Rightarrow> sink_inv C P B unmarshal env d0 s' \<and> stores_more B (snd s) (snd s')
        \<and> (processed (daemon_sync C P B unmarshal env) r
            \<longrightarrow> (\<exists>h. sy_getBlockHash (daemon_sync C P B unmarshal env) data = Some h \<and> sink_known B s' h))"
proof -
  let ?cfg = "daemon_sync C P B unmarshal env"
  note i = assms [unfolded sink_inv_def]
  have al: "allowed_data False C P B unmarshal (env (fst s)) data (snd s)" using i by (simp add: writable_def)
  have inv: "daemon_inv False C B (snd s)" using run_inv i by blast
  have dup: "processed ?cfg r \<longleftrightarrow> r \<in> {Inr (), Inl ErrDuplicateBlock, Inl ErrSideChainBlock}" for r
    by (cases r) (auto simp: processed_def daemon_sync_def elim: IsDuplicateError.elims)
  show ?thesis
  proof (cases "processBlockData C P B unmarshal (env (fst s)) data (snd s)")
    case None
    then show ?thesis using processBlockData_ok [OF conjunct1 [OF i] inv al] by (simp add: daemon_sync_def process_callback_def)
  next
    case (Some x)
    obtain r d' where x: "x = (r, d')" by fastforce
    have "stores_more B (snd s) d'" "r \<in> {Inr (), Inl ErrDuplicateBlock, Inl ErrSideChainBlock}
        \<longrightarrow> (\<exists>jb. unmarshal data = Some jb \<and> chain_HasBlock B (dm_chain d') (header_Hash C (jb_Header jb)))"
      using processBlockData_ok [OF conjunct1 [OF i] inv al] Some x by simp_all
    moreover have "daemon_run False C P B unmarshal d'" using daemon_run.sync [OF _ al] i Some x by blast
    moreover have "sy_processBlock ?cfg data s = Some (r, Suc (fst s), d')"
      using Some x by (simp add: daemon_sync_def process_callback_def)
    ultimately show ?thesis using i stores_more_trans [of B d0 "snd s" d'] unfolding dup
      by (auto simp: sink_inv_def sink_known_def daemon_sync_def GetBlockHash_def)
  qed
qed

interpretation dsink: block_sink "daemon_sync C P B unmarshal env" "sink_inv C P B unmarshal env d0" "sink_known B" "nil_block unmarshal"
  for C P B unmarshal env d0
proof
  fix s data r s' h
  assume inv: "sink_inv C P B unmarshal env d0 s"
  note ok = callback_ok [OF inv, of data]
  show "sy_processBlock (daemon_sync C P B unmarshal env) data s \<noteq> None" if "\<not> nil_block unmarshal data"
    using ok that by (auto split: option.splits)
  assume p: "sy_processBlock (daemon_sync C P B unmarshal env) data s = Some (r, s')"
  show "sink_inv C P B unmarshal env d0 s'" using ok p by simp
  show "sink_known B s' h" if "sink_known B s h" using ok p that by (simp add: sink_known_def stores_more_def)
  show "\<exists>h. sy_getBlockHash (daemon_sync C P B unmarshal env) data = Some h \<and> sink_known B s' h"
    if "processed (daemon_sync C P B unmarshal env) r" using ok p that by simp
qed

lemma sync_hash: "sy_getBlockHash (daemon_sync C P B unmarshal env) data = map_option (\<lambda>jb. header_Hash C (jb_Header jb)) (unmarshal data)"
  by (simp add: daemon_sync_def GetBlockHash_def)


text \<open>A decoder that reads every payload as a block with the header of the genesis block and one empty coinbase.\<close>

definition known_decoder :: "bytes \<Rightarrow> JBlock option" where
  "known_decoder data = Some \<lparr>jb_Header = Header sample_genesis,
     jb_Transactions = [Some \<lparr>TxVersion = 1, Inputs = [], Outputs = [], Fee = 0, TxPublicKey = []\<rparr>]\<rparr>"

definition silent_net :: "nat \<Rightarrow> net_answer" where
  "silent_net k = \<lparr>na_blocks = (\<lambda>_. None), na_order = [], na_seen = 0, na_expired = False\<rparr>"

lemma known_decoder_passes:
  "(case known_decoder data of None \<Rightarrow> None | Some jb \<Rightarrow> validateBlockCheapPrefilters jb) = Some (Inr ())"
  by (simp add: known_decoder_def validateBlockCheapPrefilters_def jblock_Size_def sample_genesis_def GetGenesisBlock_def IsCoinbase_def
      blockHeaderSerializedSize_def Size_def MaxBlockSize_def)

lemma known_process:
  assumes "chain_HasBlock list_bolt c (Hash sample_crypto sample_genesis)" "known_decoder data = Some jb" "deref_block jb = Some block"
  shows "ProcessBlock sample_crypto P list_bolt now block c = (Inr (False, False), c)"
proof -
  have "Hash sample_crypto block = Hash sample_crypto sample_genesis"
    using assms(2,3) by (auto simp: known_decoder_def deref_block_def Hash_def)
  then show ?thesis using ProcessBlock_known assms(1) by metis
qed


end
