(* ===== verification/SyncOrder.thy ===== *)
theory SyncOrder
  imports SyncRecovery
begin

text \<open>
  The loop that processes downloaded blocks.  Several downloaders deliver blocks in any order, a stalled height is fetched
  from any peer, early blocks wait in a buffer: the runs of the loop are the sequences of its iterations under all such
  schedules.  Whatever the schedule, one delivered block per height is processed, in the order of the heights.
\<close>

section \<open>Runs\<close>

text \<open>What an event delivers in a state: blocks with their heights and the peers they come from.  An event is only looked at
  when the buffer has no block for the next height.\<close>

definition delivery :: "'s sync_state \<Rightarrow> sync_event \<Rightarrow> (u64 \<times> bytes \<times> peer) set" where
  "delivery st ev =
     (if sp_buffer st (sp_next st) \<noteq> None then {}
      else case ev of
        Arrive b \<Rightarrow> {(db_Height b, db_Data b, db_Peer b)}
      | Rescue found p \<Rightarrow> {(sp_next st + word_of_nat i, found ! i, p) | i. i < length found}
      | Cancelled \<Rightarrow> {})"

inductive sync_run :: "('e, 's) sync_cfg \<Rightarrow> (nat \<Rightarrow> net_answer) \<Rightarrow> peer list \<Rightarrow> u64 \<Rightarrow> 's sync_state \<Rightarrow> (u64 \<times> bytes \<times> peer) set
    \<Rightarrow> effect list \<Rightarrow> 's sync_state \<Rightarrow> bool" for cfg net peers targetHeight st0 where
  init: "sync_run cfg net peers targetHeight st0 {} [] st0"
| step: "sync_run cfg net peers targetHeight st0 D es st \<Longrightarrow> sync_iteration cfg net peers targetHeight ev st = Some (Continue, es', st')
    \<Longrightarrow> sync_run cfg net peers targetHeight st0 (D \<union> delivery st ev) (es @ es') st'"

text \<open>Processing a list of blocks one after the other, each with success.\<close>

fun process_all :: "('e, 's) sync_cfg \<Rightarrow> (nat \<Rightarrow> net_answer) \<Rightarrow> peer list \<Rightarrow> bytes list \<Rightarrow> nat \<times> 's \<Rightarrow> (nat \<times> 's) option" where
  "process_all cfg net peers [] ks = Some ks"
| "process_all cfg net peers (data # ds) ks =
     (case ProcessBlockWithRecoveryCtx cfg net data peers (fst ks) (snd ks) of
        Some (Inr _, _, k, s) \<Rightarrow> process_all cfg net peers ds (k, s)
      | _ \<Rightarrow> None)"

lemma process_all_snoc:
  "process_all cfg net peers ds ks = Some (k, s) \<Longrightarrow> ProcessBlockWithRecoveryCtx cfg net data peers k s = Some (Inr b, es, k', s')
   \<Longrightarrow> process_all cfg net peers (ds @ [data]) ks = Some (k', s')"
  by (induction cfg net peers ds ks rule: process_all.induct) (auto split: option.splits sum.splits)

section \<open>Recovery only bans\<close>

definition only_bans :: "effect list \<Rightarrow> bool" where
  "only_bans es \<longleftrightarrow> (\<forall>e \<in> set es. \<exists>p. e = BanPeer_call p)"

lemma only_bans_simps [simp]:
  "only_bans []" "only_bans (es @ es') \<longleftrightarrow> only_bans es \<and> only_bans es'" "only_bans (banInvalidBlockPeer p)"
  by (auto simp: only_bans_def banInvalidBlockPeer_def)

lemma request_only_bans: "only_bans (fst (request_block cfg ans h p))"
  by (simp add: request_block_def split: option.splits)

lemma fetch_bans: "fetchBlockByHashFromAnyPeer cfg ans peers h exclude = (es, r) \<Longrightarrow> only_bans es"
  using request_only_bans [of cfg ans h] by (fastforce simp: fetchBlockByHashFromAnyPeer_def Let_def only_bans_def split: if_splits)

lemma try_parent_bans: "try_parent cfg net peers h ch n invalid err k s = Some (out, es, k', s') \<Longrightarrow> only_bans es"
proof (induction n arbitrary: invalid err k s es)
  case (Suc n)
  obtain fs r where f: "fetchBlockByHashFromAnyPeer cfg (net k) peers h invalid = (fs, r)" by fastforce
  note bans = fetch_bans [OF f]
  have rec: "only_bans es0" if "try_parent cfg net peers h ch n i e j t = Some (out, es0, k', s')" for i e j t es0
    by (rule Suc.IH [OF that])
  show ?case using Suc.prems f bans by (auto split: option.splits sum.splits if_splits) (erule rec)
qed (auto split: option.splits)

lemma recover_loop_bans: "recover_loop cfg net peers n depth pending current seen k s = Some (r, es, k', s') \<Longrightarrow> only_bans es"
proof (induction n arbitrary: depth pending current seen k s es)
  case (Suc n)
  have rec: "only_bans es0" if "recover_loop cfg net peers n dp pe cu se j t = Some (r, es0, k', s')" for dp pe cu se j t es0
    by (rule Suc.IH [OF that])
  show ?case using Suc.prems
    by (auto split: if_splits option.splits parent_outcome.splits) (erule rec try_parent_bans)+
qed simp

lemma recovery_bans: "ProcessBlockWithRecoveryCtx cfg net data peers k s = Some (r, es, k', s') \<Longrightarrow> only_bans es"
  by (auto simp: ProcessBlockWithRecoveryCtx_def recoverOrphanChain_def split: option.splits sum.splits if_splits)
    (erule recover_loop_bans)+

section \<open>The invariant\<close>

lemma process_next_Continue:
  assumes "process_next cfg net peers data p st = Some (Continue, es, st')"
  obtains b es0 k s where "ProcessBlockWithRecoveryCtx cfg net data peers (sp_rounds st) (sp_chain st) = Some (Inr b, es0, k, s)"
    "st' = st\<lparr>sp_rounds := k, sp_chain := s, sp_progress := sp_next st, sp_next := sp_next st + 1\<rparr>"
    "\<forall>q. RewardPeer_call q \<in> set es \<longrightarrow> q = p"
proof -
  obtain r es0 k s where p: "ProcessBlockWithRecoveryCtx cfg net data peers (sp_rounds st) (sp_chain st) = Some (r, es0, k, s)"
    using assms by (auto simp: process_next_def split: option.splits)
  then obtain b where b: "r = Inr b" using assms by (cases r) (auto simp: process_next_def)
  have "only_bans es0" using recovery_bans [OF p] .
  then have "\<forall>q. RewardPeer_call q \<in> set es \<longrightarrow> q = p" using assms p b by (auto simp: process_next_def only_bans_def split: if_splits)
  then show ?thesis using that p b assms by (auto simp: process_next_def)
qed

lemma process_next_Failed:
  assumes "process_next cfg net peers data p st = Some (BlockFailed e, es, st')" "PenalizePeer_call q x \<in> set es"
  shows "q = p"
proof -
  obtain r es0 k s where p: "ProcessBlockWithRecoveryCtx cfg net data peers (sp_rounds st) (sp_chain st) = Some (r, es0, k, s)"
    using assms(1) by (auto simp: process_next_def split: option.splits)
  have "only_bans es0" using recovery_bans [OF p] .
  then show ?thesis using assms p by (cases r) (auto simp: process_next_def only_bans_def penalizeInvalidBlockPeer_def split: if_splits)
qed

lemma buffer_rest_ok:
  assumes "buffer_rest next p rest m h = Some b" "\<And>h b. m h = Some b \<Longrightarrow> (h, db_Data b, db_Peer b) \<in> D"
  shows "(h, db_Data b, db_Peer b) \<in> D \<or> (\<exists>i < length rest. h = next + word_of_nat (Suc i) \<and> db_Data b = rest ! i \<and> db_Peer b = p)"
  using assms
proof (induction rest arbitrary: h b rule: rev_induct)
  case Nil
  then show ?case by (simp add: buffer_rest_def)
next
  case (snoc y rest)
  have e: "buffer_rest next p (rest @ [y]) m = (buffer_rest next p rest m)(next + word_of_nat (Suc (length rest)) \<mapsto>
      \<lparr>db_Height = next + word_of_nat (Suc (length rest)), db_Data = y, db_Peer = p\<rparr>)"
    by (simp add: buffer_rest_def enumerate_append_eq)
  show ?case
  proof (cases "h = next + word_of_nat (Suc (length rest))")
    case True
    then show ?thesis using snoc.prems(1) unfolding e by (intro disjI2 exI [of _ "length rest"]) auto
  next
    case False
    then have "buffer_rest next p rest m h = Some b" using snoc.prems(1) unfolding e by simp
    from snoc.IH [OF this snoc.prems(2)] show ?thesis by (auto simp: nth_append)
  qed
qed

definition in_order :: "('e, 's) sync_cfg \<Rightarrow> (nat \<Rightarrow> net_answer) \<Rightarrow> peer list \<Rightarrow> 's sync_state \<Rightarrow> (u64 \<times> bytes \<times> peer) set \<Rightarrow> effect list
    \<Rightarrow> 's sync_state \<Rightarrow> bytes list \<Rightarrow> bool" where
  "in_order cfg net peers st0 D es st ds \<longleftrightarrow>
     sp_next st = sp_next st0 + word_of_nat (length ds)
   \<and> process_all cfg net peers ds (sp_rounds st0, sp_chain st0) = Some (sp_rounds st, sp_chain st)
   \<and> (\<forall>i < length ds. \<exists>p. (sp_next st0 + word_of_nat i, ds ! i, p) \<in> D)
   \<and> (\<forall>p. RewardPeer_call p \<in> set es \<longrightarrow> (\<exists>i < length ds. (sp_next st0 + word_of_nat i, ds ! i, p) \<in> D))
   \<and> (ds \<noteq> [] \<longrightarrow> sp_progress st = sp_next st - 1)
   \<and> (\<forall>h b. sp_buffer st h = Some b \<longrightarrow> (h, db_Data b, db_Peer b) \<in> D)"

lemma in_order_process:
  assumes inv: "in_order cfg net peers st0 D es st ds" and st1: "sp_next st1 = sp_next st" "sp_rounds st1 = sp_rounds st" "sp_chain st1 = sp_chain st"
    and run: "process_next cfg net peers data p st1 = Some (Continue, es', st')"
    and D: "D \<subseteq> D'" "(sp_next st, data, p) \<in> D'" "\<And>h b. sp_buffer st1 h = Some b \<Longrightarrow> (h, db_Data b, db_Peer b) \<in> D'"
  shows "in_order cfg net peers st0 D' (es @ es') st' (ds @ [data])"
proof -
  obtain b es0 k s where p: "ProcessBlockWithRecoveryCtx cfg net data peers (sp_rounds st) (sp_chain st) = Some (Inr b, es0, k, s)"
    "st' = st1\<lparr>sp_rounds := k, sp_chain := s, sp_progress := sp_next st, sp_next := sp_next st + 1\<rparr>"
    "\<forall>q. RewardPeer_call q \<in> set es' \<longrightarrow> q = p"
    using process_next_Continue [OF run] st1 by metis
  have i: "sp_next st = sp_next st0 + word_of_nat (length ds)"
    "process_all cfg net peers ds (sp_rounds st0, sp_chain st0) = Some (sp_rounds st, sp_chain st)"
    "\<forall>i < length ds. \<exists>p. (sp_next st0 + word_of_nat i, ds ! i, p) \<in> D"
    "\<forall>p. RewardPeer_call p \<in> set es \<longrightarrow> (\<exists>i < length ds. (sp_next st0 + word_of_nat i, ds ! i, p) \<in> D)"
    using inv by (auto simp: in_order_def)
  have "process_all cfg net peers (ds @ [data]) (sp_rounds st0, sp_chain st0) = Some (k, s)" using process_all_snoc [OF i(2) p(1)] .
  moreover have "\<exists>q. (sp_next st0 + word_of_nat j, (ds @ [data]) ! j, q) \<in> D'" if "j < length (ds @ [data])" for j
    using that i(1,3) D(1,2) by (cases "j = length ds") (auto simp: nth_append less_Suc_eq)
  moreover have "\<exists>j < length (ds @ [data]). (sp_next st0 + word_of_nat j, (ds @ [data]) ! j, q) \<in> D'" if "RewardPeer_call q \<in> set (es @ es')" for q
  proof (cases "RewardPeer_call q \<in> set es")
    case True
    then obtain j where "j < length ds" "(sp_next st0 + word_of_nat j, ds ! j, q) \<in> D" using i(4) by blast
    then show ?thesis using D(1) by (intro exI [of _ j]) (auto simp: nth_append)
  next
    case False
    then have "q = p" using that p(3) by auto
    then show ?thesis using D(2) i(1) by (intro exI [of _ "length ds"]) simp
  qed
  ultimately show ?thesis using p(2) i(1) D(3) by (auto simp: in_order_def)
qed

lemma iteration_in_order:
  assumes inv: "in_order cfg net peers st0 D es st ds" and it: "sync_iteration cfg net peers targetHeight ev st = Some (Continue, es', st')"
  shows "\<exists>ds'. in_order cfg net peers st0 (D \<union> delivery st ev) (es @ es') st' ds'
    \<and> \<not> targetHeight < sp_next st \<and> (length ds' = length ds \<or> length ds' = Suc (length ds))"
proof -
  let ?D = "D \<union> delivery st ev"
  have buf: "(h, db_Data b, db_Peer b) \<in> D" if "sp_buffer st h = Some b" for h b using inv that by (simp add: in_order_def)
  have t: "\<not> targetHeight < sp_next st" using it by (auto simp: sync_iteration_def split: if_splits)
  have step: ?thesis if "in_order cfg net peers st0 ?D (es @ es') st' (ds @ [data])" for data
    using that t by (intro exI [of _ "ds @ [data]"]) simp
  show ?thesis
  proof (cases "sp_buffer st (sp_next st)")
    case (Some b)
    then have "process_next cfg net peers (db_Data b) (db_Peer b) (st\<lparr>sp_buffer := (sp_buffer st)(sp_next st := None)\<rparr>) = Some (Continue, es', st')"
      using it t by (simp add: sync_iteration_def)
    then have "in_order cfg net peers st0 ?D (es @ es') st' (ds @ [db_Data b])"
    proof (rule in_order_process [OF inv _ _ _ _, rotated 3])
      show "(sp_next st, db_Data b, db_Peer b) \<in> ?D" using buf [OF Some] by simp
      show "(h, db_Data b', db_Peer b') \<in> ?D" if "sp_buffer (st\<lparr>sp_buffer := (sp_buffer st)(sp_next st := None)\<rparr>) h = Some b'" for h b'
        using that buf [of h b'] by (simp split: if_splits)
    qed simp_all
    then show ?thesis by (rule step)
  next
    case None
    show ?thesis
    proof (cases ev)
      case (Arrive b)
      have d: "delivery st ev = {(db_Height b, db_Data b, db_Peer b)}" using None Arrive by (simp add: delivery_def)
      show ?thesis
      proof (cases "db_Height b = sp_next st")
        case True
        then have "process_next cfg net peers (db_Data b) (db_Peer b) st = Some (Continue, es', st')"
          using it t None Arrive by (simp add: sync_iteration_def)
        from in_order_process [OF inv _ _ _ this, of ?D] have "in_order cfg net peers st0 ?D (es @ es') st' (ds @ [db_Data b])"
          using buf d True by auto
        then show ?thesis by (rule step)
      next
        case False
        then have e: "es' = []" "st' = st\<lparr>sp_buffer := (sp_buffer st)(db_Height b \<mapsto> b)\<rparr>" using it t None Arrive by (auto simp: sync_iteration_def)
        have "in_order cfg net peers st0 ?D (es @ es') st' ds" using inv d unfolding e in_order_def by (auto 0 4 split: if_splits)
        then show ?thesis using t by (intro exI [of _ ds]) simp
      qed
    next
      case (Rescue found p)
      then obtain data rest where f: "found = data # rest" using it t None by (cases found) (auto simp: sync_iteration_def)
      let ?st = "st\<lparr>sp_buffer := buffer_rest (sp_next st) p rest (sp_buffer st)\<rparr>"
      have run: "process_next cfg net peers data p ?st = Some (Continue, es', st')"
        using it t None Rescue f by (simp add: sync_iteration_def)
      have d: "(sp_next st + word_of_nat i, found ! i, p) \<in> ?D" if "i < length found" for i
        using None Rescue that by (auto simp: delivery_def)
      have "(h, db_Data b, db_Peer b) \<in> ?D" if bh: "sp_buffer ?st h = Some b" for h b
      proof -
        consider "(h, db_Data b, db_Peer b) \<in> D"
          | i where "i < length rest" "h = sp_next st + word_of_nat (Suc i)" "db_Data b = rest ! i" "db_Peer b = p"
          using buffer_rest_ok [of "sp_next st" p rest "sp_buffer st" h b D] bh buf by auto
        then show ?thesis
        proof cases
          case (2 i)
          then show ?thesis using d [of "Suc i"] f by simp
        qed simp
      qed
      moreover have "(sp_next st, data, p) \<in> ?D" using d [of 0] f by simp
      ultimately have "in_order cfg net peers st0 ?D (es @ es') st' (ds @ [data])" using in_order_process [OF inv _ _ _ run, of ?D] by simp
      then show ?thesis by (rule step)
    next
      case Cancelled
      then show ?thesis using it t None by (simp add: sync_iteration_def)
    qed
  qed
qed

lemma run_in_order:
  assumes "targetHeight \<noteq> - 1" "sync_run cfg net peers targetHeight st0 D es st" "sp_buffer st0 = Map.empty"
  shows "\<exists>ds. in_order cfg net peers st0 D es st ds \<and> unat (sp_next st) = unat (sp_next st0) + length ds"
  using assms(2)
proof induction
  case init
  then show ?case using assms(3) by (intro exI [of _ "[]"]) (simp add: in_order_def)
next
  case (step D es st ev es' st')
  then obtain ds where ds: "in_order cfg net peers st0 D es st ds" "unat (sp_next st) = unat (sp_next st0) + length ds" by blast
  obtain ds' where ds': "in_order cfg net peers st0 (D \<union> delivery st ev) (es @ es') st' ds'" "\<not> targetHeight < sp_next st"
    "length ds' = length ds \<or> length ds' = Suc (length ds)"
    using iteration_in_order [OF ds(1) step(2)] by blast
  have "unat targetHeight \<noteq> unat (- 1 :: u64)" using assms(1) unsigned_word_eqI by metis
  moreover have "unat (- 1 :: u64) = 2 ^ 64 - 1" by (simp add: unsigned_minus_1_eq_mask mask_eq_exp_minus_1)
  ultimately have "unat targetHeight < 2 ^ 64 - 1" using unat_bound [of targetHeight] by simp
  moreover have "unat (sp_next st) \<le> unat targetHeight" using ds'(2) by (simp add: word_less_nat_alt)
  ultimately have "unat (sp_next st0) + length ds' < 2 ^ 64" using ds(2) ds'(3) by linarith
  then have "unat (sp_next st0 + word_of_nat (length ds')) = unat (sp_next st0) + length ds'"
    by (simp add: unat_word_ariths unat_of_nat)
  then show ?case using ds'(1) by (intro exI [of _ ds']) (simp add: in_order_def)
qed

lemma failed_source:
  assumes inv: "in_order cfg net peers st0 D es st ds" and it: "sync_iteration cfg net peers targetHeight ev st = Some (BlockFailed e, es', st')"
    and pen: "PenalizePeer_call q x \<in> set es'"
  shows "\<exists>data. (sp_next st, data, q) \<in> D \<union> delivery st ev"
proof (cases "sp_buffer st (sp_next st)")
  case (Some b)
  then have "process_next cfg net peers (db_Data b) (db_Peer b) (st\<lparr>sp_buffer := (sp_buffer st)(sp_next st := None)\<rparr>) = Some (BlockFailed e, es', st')"
    using it by (simp add: sync_iteration_def split: if_splits)
  then have "q = db_Peer b" using pen by (rule process_next_Failed)
  moreover have "(sp_next st, db_Data b, db_Peer b) \<in> D" using inv Some by (simp add: in_order_def)
  ultimately show ?thesis by blast
next
  case None
  show ?thesis
  proof (cases ev)
    case (Arrive b)
    then have b: "process_next cfg net peers (db_Data b) (db_Peer b) st = Some (BlockFailed e, es', st')" "db_Height b = sp_next st"
      using it None by (auto simp: sync_iteration_def split: if_splits)
    then show ?thesis using process_next_Failed [OF b(1) pen] None Arrive by (auto simp: delivery_def)
  next
    case (Rescue found p)
    then obtain data rest where f: "found = data # rest" using it None by (cases found) (auto simp: sync_iteration_def split: if_splits)
    then have "process_next cfg net peers data p (st\<lparr>sp_buffer := buffer_rest (sp_next st) p rest (sp_buffer st)\<rparr>) = Some (BlockFailed e, es', st')"
      using it None Rescue by (simp add: sync_iteration_def split: if_splits)
    then have "q = p" using pen by (rule process_next_Failed)
    then show ?thesis using None Rescue f by (auto simp: delivery_def intro!: exI [of _ data] exI [of _ 0])
  qed (use it None in \<open>simp add: sync_iteration_def split: if_splits\<close>)
qed

lemma same_deliveries:
  assumes "in_order cfg net peers st0 D es st ds" "in_order cfg net peers st0 D' es' st' ds'" "length ds' = length ds"
    and "\<forall>h d p d' p'. (h, d, p) \<in> D \<longrightarrow> (h, d', p') \<in> D' \<longrightarrow> d = d'"
  shows "sp_chain st' = sp_chain st"
proof -
  have "ds ! i = ds' ! i" if "i < length ds" for i
    using assms that unfolding in_order_def by metis
  then have "ds = ds'" using assms(3) by (simp add: list_eq_iff_nth_eq)
  then show ?thesis using assms(1,2) by (simp add: in_order_def)
qed

section \<open>The order of processing\<close>

text \<open>C38. Downloaded blocks are processed in order.  Under every schedule of downloaders, stalls and rescues, the state of the
  node is that of processing, one after the other, one delivered block for each height from the start height on; rewards go
  to peers that delivered one of these blocks, and a penalty for a failing block to a peer that delivered a block for that
  height.  Two schedules that deliver the same blocks and have come to the same height leave the node in the same state.\<close>

theorem sync_in_order:
  assumes "targetHeight \<noteq> - 1" "sync_run cfg net peers targetHeight (start_sync ourHeight targetHeight s) D es st"
  shows "(\<exists>ds. unat (sp_next st) = unat (computeSyncStartHeight ourHeight targetHeight) + length ds
      \<and> process_all cfg net peers ds (0, s) = Some (sp_rounds st, sp_chain st)
      \<and> (\<forall>i < length ds. \<exists>p. (computeSyncStartHeight ourHeight targetHeight + word_of_nat i, ds ! i, p) \<in> D)
      \<and> (\<forall>p. RewardPeer_call p \<in> set es
            \<longrightarrow> (\<exists>i < length ds. (computeSyncStartHeight ourHeight targetHeight + word_of_nat i, ds ! i, p) \<in> D))
      \<and> (ds \<noteq> [] \<longrightarrow> sp_progress st = sp_next st - 1))
    \<and> (\<forall>ev e es' st' q x. sync_iteration cfg net peers targetHeight ev st = Some (BlockFailed e, es', st')
          \<longrightarrow> PenalizePeer_call q x \<in> set es' \<longrightarrow> (\<exists>data. (sp_next st, data, q) \<in> D \<union> delivery st ev))
    \<and> (\<forall>D' es' st'. sync_run cfg net peers targetHeight (start_sync ourHeight targetHeight s) D' es' st'
          \<longrightarrow> (\<forall>h d p d' p'. (h, d, p) \<in> D \<longrightarrow> (h, d', p') \<in> D' \<longrightarrow> d = d') \<longrightarrow> sp_next st' = sp_next st
          \<longrightarrow> sp_chain st' = sp_chain st)"
proof -
  let ?st0 = "start_sync ourHeight targetHeight s"
  have e: "sp_buffer ?st0 = Map.empty" by (simp add: start_sync_def)
  obtain ds where ds: "in_order cfg net peers ?st0 D es st ds" "unat (sp_next st) = unat (sp_next ?st0) + length ds"
    using run_in_order [OF assms e] by blast
  have "sp_chain st' = sp_chain st" if r: "sync_run cfg net peers targetHeight ?st0 D' es' st'"
    and same: "\<forall>h d p d' p'. (h, d, p) \<in> D \<longrightarrow> (h, d', p') \<in> D' \<longrightarrow> d = d'" and nx: "sp_next st' = sp_next st" for D' es' st'
  proof -
    obtain ds' where ds': "in_order cfg net peers ?st0 D' es' st' ds'" "unat (sp_next st') = unat (sp_next ?st0) + length ds'"
      using run_in_order [OF assms(1) r e] by blast
    then have "length ds' = length ds" using ds(2) nx by simp
    then show ?thesis using same_deliveries [OF ds(1) ds'(1) _ same] by blast
  qed
  moreover have "\<exists>ds. unat (sp_next st) = unat (computeSyncStartHeight ourHeight targetHeight) + length ds
      \<and> process_all cfg net peers ds (0, s) = Some (sp_rounds st, sp_chain st)
      \<and> (\<forall>i < length ds. \<exists>p. (computeSyncStartHeight ourHeight targetHeight + word_of_nat i, ds ! i, p) \<in> D)
      \<and> (\<forall>p. RewardPeer_call p \<in> set es
            \<longrightarrow> (\<exists>i < length ds. (computeSyncStartHeight ourHeight targetHeight + word_of_nat i, ds ! i, p) \<in> D))
      \<and> (ds \<noteq> [] \<longrightarrow> sp_progress st = sp_next st - 1)"
    using ds by (intro exI [of _ ds]) (simp add: in_order_def start_sync_def)
  ultimately show ?thesis using failed_source [OF ds(1)] by blast
qed

text \<open>A processor that accepts every block and remembers what it was given.\<close>

definition log_sync :: "(unit, bytes list) sync_cfg" where
  "log_sync = \<lparr>sy_processBlock = (\<lambda>data s. Some (Inr (), s @ [data])), sy_isOrphanErr = (\<lambda>_. False), sy_isDuplicateErr = (\<lambda>_. False),
     sy_getBlockMeta = (\<lambda>_. None), sy_getBlockHash = (\<lambda>_. None)\<rparr>"

definition late_block :: "u64 \<Rightarrow> byte \<Rightarrow> DownloadedBlock" where
  "late_block h b = \<lparr>db_Height = h, db_Data = [b], db_Peer = ''p''\<rparr>"

text \<open>The block of height 2 arrives before that of height 1.\<close>

lemma sample_sync_run:
  "\<exists>D es st. sync_run log_sync silent_net [''p''] 2 (start_sync 0 2 []) D es st \<and> sp_next st = 3 \<and> sp_chain st = [[1], [2]]"
proof -
  note defs = sync_iteration_def process_next_def ProcessBlockWithRecoveryCtx_def log_sync_def start_sync_def computeSyncStartHeight_def
    late_block_def
  let ?it = "sync_iteration log_sync silent_net [''p''] 2"
  obtain es1 st1 where s1: "?it (Arrive (late_block 2 2)) (start_sync 0 2 []) = Some (Continue, es1, st1)"
    "sp_next st1 = 1" "sp_chain st1 = []" "sp_buffer st1 = [2 \<mapsto> late_block 2 2]"
    by (simp add: defs)
  obtain es2 st2 where s2: "?it (Arrive (late_block 1 1)) st1 = Some (Continue, es2, st2)" "sp_next st2 = 2" "sp_chain st2 = [[1]]"
    "sp_buffer st2 = [2 \<mapsto> late_block 2 2]"
    using s1 by (simp add: defs)
  obtain es3 st3 where s3: "?it Cancelled st2 = Some (Continue, es3, st3)" "sp_next st3 = 3" "sp_chain st3 = [[1], [2]]"
    using s2 by (simp add: defs)
  show ?thesis using sync_run.step [OF sync_run.step [OF sync_run.step [OF sync_run.init s1(1)] s2(1)] s3(1)] s3(2,3) by blast
qed

theorem sync_in_order_witness:
  "\<exists>D es st ds. sync_run log_sync silent_net [''p''] 2 (start_sync 0 2 []) D es st \<and> sp_chain st = [[1], [2]] \<and> length ds = 2
     \<and> process_all log_sync silent_net [''p''] ds (0, []) = Some (sp_rounds st, sp_chain st)"
proof -
  obtain D es st where r: "sync_run log_sync silent_net [''p''] 2 (start_sync 0 2 []) D es st" "sp_next st = 3" "sp_chain st = [[1], [2]]"
    using sample_sync_run by blast
  have "(2 :: u64) \<noteq> - 1" by simp
  from sync_in_order [OF this r(1)] obtain ds where
    "unat (sp_next st) = unat (computeSyncStartHeight 0 2) + length ds"
    "process_all log_sync silent_net [''p''] ds (0, []) = Some (sp_rounds st, sp_chain st)" by blast
  moreover have "computeSyncStartHeight 0 2 = 1" by (simp add: computeSyncStartHeight_def)
  ultimately show ?thesis using r by (intro exI conjI) auto
qed

end
