(* ===== verification/Spec2Isabelle.thy ===== *)
theory Spec2Isabelle
  imports Liveness MempoolProps Payments SyncOrder
begin

text \<open>
  A verification library for the consensus core of \<open>blocknet-core\<close>, a privacy-coin node.
\<close>

end
